(* ===== verification/Prelude.thy ===== *)
theory Prelude
  imports Main "HOL-Library.Word"
begin

text \<open>
  Shared vocabulary of the development: the types every component uses (bytes, byte lists as
  Rust slices and vectors), the results of Rust functions, big-endian byte strings, and the
  generic list lemmas the component proofs rest on.

  A Rust function that returns \<open>Result\<close> and may also panic is modelled with the type
  \<open>('e, 'a) rust\<close>; one that can only panic is modelled with \<open>option\<close>, where \<open>None\<close> is the
  panic.
\<close>

unbundle bit_operations_syntax

named_theorems byte_simps \<open>evaluation of big-endian byte strings\<close>

type_synonym byte = "8 word"
type_synonym word256 = "256 word"

subsection \<open>Results of Rust functions\<close>

datatype ('e, 'a) rust = Ok 'a | Err 'e | Panic

fun bind_rust :: "('e, 'a) rust \<Rightarrow> ('a \<Rightarrow> ('e, 'b) rust) \<Rightarrow> ('e, 'b) rust" where
  "bind_rust (Ok x) f = f x"
| "bind_rust (Err e) f = Err e"
| "bind_rust Panic f = Panic"

fun map_ok :: "('a \<Rightarrow> 'b) \<Rightarrow> ('e, 'a) rust \<Rightarrow> ('e, 'b) rust" where
  "map_ok f (Ok x) = Ok (f x)"
| "map_ok f (Err e) = Err e"
| "map_ok f Panic = Panic"

lemma bind_rust_Ok_iff:
  "bind_rust r f = Ok y \<longleftrightarrow> (\<exists>x. r = Ok x \<and> f x = Ok y)"
  by (cases r) auto

lemma bind_rust_cong [fundef_cong]:
  assumes "r = r'" and "\<And>x. r' = Ok x \<Longrightarrow> f x = g x"
  shows "bind_rust r f = bind_rust r' g"
  using assms by (cases r') auto

lemma map_ok_Ok_iff: "map_ok f r = Ok y \<longleftrightarrow> (\<exists>x. r = Ok x \<and> f x = y)"
  by (cases r) auto

lemma bind_Panic_iff [simp]:
  "bind_rust r f = Panic \<longleftrightarrow> r = Panic \<or> (\<exists>x. r = Ok x \<and> f x = Panic)"
  by (cases r) auto

lemma map_ok_Panic_iff [simp]: "map_ok f r = Panic \<longleftrightarrow> r = Panic"
  by (cases r) auto

lemma map_ok_Err_iff [simp]: "map_ok f r = Err e \<longleftrightarrow> r = Err e"
  by (cases r) auto

subsection \<open>Big-endian byte strings\<close>

text \<open>The number a big-endian byte string denotes, and the \<open>n\<close>-byte string of a number.\<close>

fun be_val :: "byte list \<Rightarrow> nat" where
  "be_val [] = 0"
| "be_val (b # bs) = unat b * 256 ^ length bs + be_val bs"

fun be_bytes :: "nat \<Rightarrow> nat \<Rightarrow> byte list" where
  "be_bytes 0 v = []"
| "be_bytes (Suc n) v = be_bytes n (v div 256) @ [of_nat v]"

lemma unat_byte_less: "unat (b :: byte) < 256"
  using unsigned_less [of b] by simp

lemma unat_eq_iff_byte: "unat (a :: byte) = unat b \<longleftrightarrow> a = b"
  by (auto intro: unsigned_word_eqI)

lemma unat_of_nat_byte: "unat (of_nat n :: byte) = n mod 256"
  by (simp add: unat_of_nat take_bit_eq_mod)

lemma length_be_bytes [simp]: "length (be_bytes n v) = n"
  by (induction n arbitrary: v) auto

lemma be_val_append: "be_val (xs @ ys) = be_val xs * 256 ^ length ys + be_val ys"
  by (induction xs) (auto simp: algebra_simps power_add)

lemma be_val_snoc [simp]: "be_val (xs @ [b]) = be_val xs * 256 + unat b"
  by (simp add: be_val_append)

lemma be_val_bound: "be_val bs < 256 ^ length bs"
proof (induction bs)
  case Nil
  then show ?case by simp
next
  case (Cons b bs)
  have "unat b < 256" by (rule unat_byte_less)
  then have "unat b + 1 \<le> 256" by linarith
  then have "(unat b + 1) * 256 ^ length bs \<le> 256 * 256 ^ length bs"
    by (rule mult_le_mono1)
  then have "unat b * 256 ^ length bs + 256 ^ length bs \<le> 256 * 256 ^ length bs"
    by (simp add: algebra_simps)
  with Cons.IH show ?case unfolding be_val.simps list.size(4) power_Suc add_0_right
      One_nat_def add_Suc_right
    by linarith
qed

lemma be_val_replicate_0 [simp]: "be_val (replicate n 0) = 0"
  by (induction n) auto

lemma be_val_zeros_append [simp]: "be_val (replicate n 0 @ bs) = be_val bs"
  by (simp add: be_val_append)

lemma be_val_be_bytes: "be_val (be_bytes n v) = v mod 256 ^ n"
proof (induction n arbitrary: v)
  case 0
  then show ?case by simp
next
  case (Suc n)
  have "be_val (be_bytes (Suc n) v) = (v div 256) mod 256 ^ n * 256 + v mod 256"
    by (simp add: Suc.IH unat_of_nat take_bit_eq_mod)
  also have "\<dots> = v mod 256 ^ Suc n"
    by (simp add: mod_mult2_eq mult.commute)
  finally show ?case .
qed

lemma be_val_be_bytes_id: "v < 256 ^ n \<Longrightarrow> be_val (be_bytes n v) = v"
  by (simp add: be_val_be_bytes)

lemma be_val_be_bytes_word:
  assumes "LENGTH('a :: len) = 8 * n"
  shows "be_val (be_bytes n (unat (w :: 'a word))) = unat w"
proof -
  have "unat w < 2 ^ (8 * n)" using unsigned_less [of w] assms by simp
  then show ?thesis by (intro be_val_be_bytes_id) (simp add: power_mult)
qed

lemma be_bytes_be_val: "be_bytes (length bs) (be_val bs) = bs"
proof (induction bs rule: rev_induct)
  case Nil
  then show ?case by simp
next
  case (snoc b bs)
  have lt: "unat b < 256" by (rule unat_byte_less)
  have "(be_val bs * 256 + unat b) div 256 = be_val bs"
    using lt by simp
  moreover have "(of_nat (be_val bs * 256 + unat b) :: byte) = b"
  proof (rule unsigned_word_eqI)
    have "unat (of_nat (be_val bs * 256 + unat b) :: byte) = (be_val bs * 256 + unat b) mod 256"
      by (rule unat_of_nat_byte)
    also have "\<dots> = unat b" using lt by simp
    finally show "unat (of_nat (be_val bs * 256 + unat b) :: byte) = unat b" .
  qed
  ultimately show ?case using snoc.IH by simp
qed

lemma be_val_inject:
  "length xs = length ys \<Longrightarrow> be_val xs = be_val ys \<longleftrightarrow> xs = ys"
  by (metis be_bytes_be_val)

lemma be_val_eq_0_iff: "be_val bs = 0 \<longleftrightarrow> (\<forall>b \<in> set bs. b = 0)"
  by (induction bs) (auto simp: unat_eq_zero)

lemma be_bytes_cong: "v mod 256 ^ n = w mod 256 ^ n \<Longrightarrow> be_bytes n v = be_bytes n w"
  by (metis be_val_be_bytes be_val_inject length_be_bytes)

lemma be_bytes_split:
  "m \<le> n \<Longrightarrow> v < 256 ^ m \<Longrightarrow> be_bytes n v = replicate (n - m) 0 @ be_bytes m v"
  by (rule be_val_inject [THEN iffD1])
     (auto simp: be_val_be_bytes intro!: mod_less elim: less_le_trans intro: power_increasing)

subsection \<open>Writing into a slice\<close>

text \<open>
  \<open>dst[at..at + src.len()].copy_from_slice(src)\<close>: a panic when the range does not lie in the
  destination.
\<close>

definition copy_at :: "nat \<Rightarrow> 'a list \<Rightarrow> 'a list \<Rightarrow> 'a list option" where
  "copy_at i src dst =
     (if i + length src \<le> length dst
      then Some (take i dst @ src @ drop (i + length src) dst) else None)"

lemma copy_at_length: "copy_at i src dst = Some dst' \<Longrightarrow> length dst' = length dst"
  by (auto simp: copy_at_def split: if_splits)

lemma copy_at_Some_iff: "(\<exists>d. copy_at i src dst = Some d) \<longleftrightarrow> i + length src \<le> length dst"
  by (auto simp: copy_at_def)

subsection \<open>Lists\<close>

lemma find_Some_set: "List.find P xs = Some x \<Longrightarrow> P x \<and> x \<in> set xs"
  by (auto simp: find_Some_iff)

lemma map_Suc_upt_shift: "map (\<lambda>i. i + k) [a..<b] = [a + k..<b + k]"
  by (induction b) auto

end
