(* ===== verification/Isa.thy ===== *)
theory Isa
  imports Prelude
begin

text \<open>
  The instruction table of \<open>evm-isa\<close>: forks and their chronological order, gas classes,
  categories, operand families, one row per opcode, and the two linear-scan lookups
  \<open>by_byte\<close> and \<open>by_mnemonic\<close>. The lemmas say that the lookups are inverse to the
  table, that bytes and mnemonics are unique, and which bytes carry an immediate.
\<close>

subsection \<open>Forks (fork.rs)\<close>

datatype fork =
  Frontier | Homestead | Byzantium | Constantinople | Istanbul | Berlin | London
| Shanghai | Cancun | Prague

text \<open>\<open>derive(PartialOrd, Ord)\<close>: the declaration order.\<close>

fun fork_rank :: "fork \<Rightarrow> nat" where
  "fork_rank Frontier = 0"
| "fork_rank Homestead = 1"
| "fork_rank Byzantium = 2"
| "fork_rank Constantinople = 3"
| "fork_rank Istanbul = 4"
| "fork_rank Berlin = 5"
| "fork_rank London = 6"
| "fork_rank Shanghai = 7"
| "fork_rank Cancun = 8"
| "fork_rank Prague = 9"

lemma fork_rank_inject [simp]: "fork_rank a = fork_rank b \<longleftrightarrow> a = b"
  by (cases a; cases b) simp_all

instantiation fork :: linorder
begin

definition less_eq_fork :: "fork \<Rightarrow> fork \<Rightarrow> bool" where
  "less_eq_fork a b \<longleftrightarrow> fork_rank a \<le> fork_rank b"

definition less_fork :: "fork \<Rightarrow> fork \<Rightarrow> bool" where
  "less_fork a b \<longleftrightarrow> fork_rank a < fork_rank b"

instance
  by standard (auto simp: less_eq_fork_def less_fork_def)

end

lemmas fork_order = less_eq_fork_def less_fork_def

lemma Frontier_le [simp]: "Frontier \<le> f"
  by (simp add: fork_order)

lemma not_less_Frontier [simp]: "\<not> f < Frontier"
  by (simp add: fork_order)

subsection \<open>Gas classes, categories, operand families (gas.rs, category.rs, op\_form.rs)\<close>

datatype gas_class =
  GasZero
| GasFixed "16 word"
| GasColdWarm (cold: "16 word") (warm: "16 word")
| GasPerWord "16 word"
| GasPerByteOfExponent "16 word"
| GasStorageWrite
| GasMemoryExpansion
| GasComplex
| GasAll

datatype op_category =
  CatArithmetic | CatComparison | CatBitwise | CatStorage | CatMemory | CatContext | CatBlock
| CatControl | CatStackManip | CatCall | CatLog | CatTerminating

datatype opform = Simple | Push byte | Dup byte | Swap byte

subsection \<open>Rows (spec.rs)\<close>

record op_spec =
  mnemonic :: string
  byte :: byte
  stack_in :: byte
  stack_out :: byte
  terminating :: bool
  gas :: gas_class
  category :: op_category
  min_fork :: fork

definition is_pure_op :: "op_spec \<Rightarrow> bool" where
  "is_pure_op s \<longleftrightarrow> category s \<in> {CatArithmetic, CatComparison, CatBitwise}"

definition reads_storage :: "op_spec \<Rightarrow> bool" where
  "reads_storage s \<longleftrightarrow> category s = CatStorage \<and> stack_out s \<noteq> 0"

definition writes_storage :: "op_spec \<Rightarrow> bool" where
  "writes_storage s \<longleftrightarrow> category s = CatStorage \<and> stack_out s = 0"

definition is_stack_manip :: "op_spec \<Rightarrow> bool" where
  "is_stack_manip s \<longleftrightarrow> category s = CatStackManip"

definition op_form :: "op_spec \<Rightarrow> opform" where
  "op_form s =
     (let b = byte s in
      if b = 0x5f then Push 0
      else if 0x60 \<le> b \<and> b \<le> 0x7f then Push (b - 0x5f)
      else if 0x80 \<le> b \<and> b \<le> 0x8f then Dup (b - 0x7f)
      else if 0x90 \<le> b \<and> b \<le> 0x9f then Swap (b - 0x8f)
      else Simple)"

subsection \<open>The table (table.rs)\<close>

definition op ::
  "string \<Rightarrow> byte \<Rightarrow> byte \<Rightarrow> byte \<Rightarrow> bool \<Rightarrow> gas_class \<Rightarrow> op_category \<Rightarrow> fork \<Rightarrow> op_spec" where
  "op mn b si so t g c f =
     \<lparr>mnemonic = mn, byte = b, stack_in = si, stack_out = so, terminating = t, gas = g,
      category = c, min_fork = f\<rparr>"

definition push_spec :: "string \<Rightarrow> byte \<Rightarrow> op_spec" where
  "push_spec mn n = op mn (0x5f + n) 0 1 False (GasFixed 3) CatStackManip Frontier"

definition dup_spec :: "string \<Rightarrow> byte \<Rightarrow> op_spec" where
  "dup_spec mn n = op mn (0x7f + n) n (n + 1) False (GasFixed 3) CatStackManip Frontier"

definition swap_spec :: "string \<Rightarrow> byte \<Rightarrow> op_spec" where
  "swap_spec mn n = op mn (0x8f + n) (n + 1) (n + 1) False (GasFixed 3) CatStackManip Frontier"

definition opcodes_stop_arith :: "op_spec list" where
  "opcodes_stop_arith =
    [op ''STOP'' 0x0 0 0 True GasZero CatTerminating Frontier,
     op ''ADD'' 0x1 2 1 False (GasFixed 3) CatArithmetic Frontier,
     op ''MUL'' 0x2 2 1 False (GasFixed 5) CatArithmetic Frontier,
     op ''SUB'' 0x3 2 1 False (GasFixed 3) CatArithmetic Frontier,
     op ''DIV'' 0x4 2 1 False (GasFixed 5) CatArithmetic Frontier,
     op ''SDIV'' 0x5 2 1 False (GasFixed 5) CatArithmetic Frontier,
     op ''MOD'' 0x6 2 1 False (GasFixed 5) CatArithmetic Frontier,
     op ''SMOD'' 0x7 2 1 False (GasFixed 5) CatArithmetic Frontier,
     op ''ADDMOD'' 0x8 3 1 False (GasFixed 8) CatArithmetic Frontier,
     op ''MULMOD'' 0x9 3 1 False (GasFixed 8) CatArithmetic Frontier,
     op ''EXP'' 0xa 2 1 False (GasPerByteOfExponent 50) CatArithmetic Frontier,
     op ''SIGNEXTEND'' 0xb 2 1 False (GasFixed 5) CatArithmetic Frontier]"

definition opcodes_comparison_bitwise :: "op_spec list" where
  "opcodes_comparison_bitwise =
    [op ''LT'' 0x10 2 1 False (GasFixed 3) CatComparison Frontier,
     op ''GT'' 0x11 2 1 False (GasFixed 3) CatComparison Frontier,
     op ''SLT'' 0x12 2 1 False (GasFixed 3) CatComparison Frontier,
     op ''SGT'' 0x13 2 1 False (GasFixed 3) CatComparison Frontier,
     op ''EQ'' 0x14 2 1 False (GasFixed 3) CatComparison Frontier,
     op ''ISZERO'' 0x15 1 1 False (GasFixed 3) CatComparison Frontier,
     op ''AND'' 0x16 2 1 False (GasFixed 3) CatBitwise Frontier,
     op ''OR'' 0x17 2 1 False (GasFixed 3) CatBitwise Frontier,
     op ''XOR'' 0x18 2 1 False (GasFixed 3) CatBitwise Frontier,
     op ''NOT'' 0x19 1 1 False (GasFixed 3) CatBitwise Frontier,
     op ''BYTE'' 0x1a 2 1 False (GasFixed 3) CatBitwise Frontier,
     op ''SHL'' 0x1b 2 1 False (GasFixed 3) CatBitwise Constantinople,
     op ''SHR'' 0x1c 2 1 False (GasFixed 3) CatBitwise Constantinople,
     op ''SAR'' 0x1d 2 1 False (GasFixed 3) CatBitwise Constantinople]"

definition opcodes_keccak :: "op_spec list" where
  "opcodes_keccak =
    [op ''KECCAK256'' 0x20 2 1 False (GasPerWord 6) CatMemory Frontier]"

definition opcodes_environment :: "op_spec list" where
  "opcodes_environment =
    [op ''ADDRESS'' 0x30 0 1 False (GasFixed 2) CatContext Frontier,
     op ''BALANCE'' 0x31 1 1 False (GasColdWarm 2600 100) CatContext Frontier,
     op ''ORIGIN'' 0x32 0 1 False (GasFixed 2) CatContext Frontier,
     op ''CALLER'' 0x33 0 1 False (GasFixed 2) CatContext Frontier,
     op ''CALLVALUE'' 0x34 0 1 False (GasFixed 2) CatContext Frontier,
     op ''CALLDATALOAD'' 0x35 1 1 False (GasFixed 3) CatContext Frontier,
     op ''CALLDATASIZE'' 0x36 0 1 False (GasFixed 2) CatContext Frontier,
     op ''CALLDATACOPY'' 0x37 3 0 False (GasPerWord 3) CatContext Frontier,
     op ''CODESIZE'' 0x38 0 1 False (GasFixed 2) CatContext Frontier,
     op ''CODECOPY'' 0x39 3 0 False (GasPerWord 3) CatContext Frontier,
     op ''GASPRICE'' 0x3a 0 1 False (GasFixed 2) CatContext Frontier,
     op ''EXTCODESIZE'' 0x3b 1 1 False (GasColdWarm 2600 100) CatContext Frontier,
     op ''EXTCODECOPY'' 0x3c 4 0 False GasComplex CatContext Frontier,
     op ''RETURNDATASIZE'' 0x3d 0 1 False (GasFixed 2) CatContext Byzantium,
     op ''RETURNDATACOPY'' 0x3e 3 0 False (GasPerWord 3) CatContext Byzantium,
     op ''EXTCODEHASH'' 0x3f 1 1 False (GasColdWarm 2600 100) CatContext Constantinople]"

definition opcodes_block_info :: "op_spec list" where
  "opcodes_block_info =
    [op ''BLOCKHASH'' 0x40 1 1 False (GasFixed 20) CatBlock Frontier,
     op ''COINBASE'' 0x41 0 1 False (GasFixed 2) CatBlock Frontier,
     op ''TIMESTAMP'' 0x42 0 1 False (GasFixed 2) CatBlock Frontier,
     op ''NUMBER'' 0x43 0 1 False (GasFixed 2) CatBlock Frontier,
     op ''PREVRANDAO'' 0x44 0 1 False (GasFixed 2) CatBlock Frontier,
     op ''GASLIMIT'' 0x45 0 1 False (GasFixed 2) CatBlock Frontier,
     op ''CHAINID'' 0x46 0 1 False (GasFixed 2) CatBlock Istanbul,
     op ''SELFBALANCE'' 0x47 0 1 False (GasFixed 5) CatContext Istanbul,
     op ''BASEFEE'' 0x48 0 1 False (GasFixed 2) CatBlock London,
     op ''BLOBHASH'' 0x49 1 1 False (GasFixed 3) CatBlock Cancun,
     op ''BLOBBASEFEE'' 0x4a 0 1 False (GasFixed 2) CatBlock Cancun]"

definition opcodes_stack_memory_flow :: "op_spec list" where
  "opcodes_stack_memory_flow =
    [op ''POP'' 0x50 1 0 False (GasFixed 2) CatStackManip Frontier,
     op ''MLOAD'' 0x51 1 1 False GasMemoryExpansion CatMemory Frontier,
     op ''MSTORE'' 0x52 2 0 False GasMemoryExpansion CatMemory Frontier,
     op ''MSTORE8'' 0x53 2 0 False GasMemoryExpansion CatMemory Frontier,
     op ''SLOAD'' 0x54 1 1 False (GasColdWarm 2100 100) CatStorage Frontier,
     op ''SSTORE'' 0x55 2 0 False GasStorageWrite CatStorage Frontier,
     op ''JUMP'' 0x56 1 0 False (GasFixed 8) CatControl Frontier,
     op ''JUMPI'' 0x57 2 0 False (GasFixed 10) CatControl Frontier,
     op ''PC'' 0x58 0 1 False (GasFixed 2) CatControl Frontier,
     op ''MSIZE'' 0x59 0 1 False (GasFixed 2) CatMemory Frontier,
     op ''GAS'' 0x5a 0 1 False (GasFixed 2) CatContext Frontier,
     op ''JUMPDEST'' 0x5b 0 0 False (GasFixed 1) CatControl Frontier,
     op ''TLOAD'' 0x5c 1 1 False (GasFixed 100) CatStorage Cancun,
     op ''TSTORE'' 0x5d 2 0 False (GasFixed 100) CatStorage Cancun,
     op ''MCOPY'' 0x5e 3 0 False (GasPerWord 3) CatMemory Cancun,
     op ''PUSH0'' 0x5f 0 1 False (GasFixed 2) CatStackManip Shanghai]"

definition opcodes_push :: "op_spec list" where
  "opcodes_push =
    [push_spec ''PUSH1'' 1,
     push_spec ''PUSH2'' 2,
     push_spec ''PUSH3'' 3,
     push_spec ''PUSH4'' 4,
     push_spec ''PUSH5'' 5,
     push_spec ''PUSH6'' 6,
     push_spec ''PUSH7'' 7,
     push_spec ''PUSH8'' 8,
     push_spec ''PUSH9'' 9,
     push_spec ''PUSH10'' 10,
     push_spec ''PUSH11'' 11,
     push_spec ''PUSH12'' 12,
     push_spec ''PUSH13'' 13,
     push_spec ''PUSH14'' 14,
     push_spec ''PUSH15'' 15,
     push_spec ''PUSH16'' 16,
     push_spec ''PUSH17'' 17,
     push_spec ''PUSH18'' 18,
     push_spec ''PUSH19'' 19,
     push_spec ''PUSH20'' 20,
     push_spec ''PUSH21'' 21,
     push_spec ''PUSH22'' 22,
     push_spec ''PUSH23'' 23,
     push_spec ''PUSH24'' 24,
     push_spec ''PUSH25'' 25,
     push_spec ''PUSH26'' 26,
     push_spec ''PUSH27'' 27,
     push_spec ''PUSH28'' 28,
     push_spec ''PUSH29'' 29,
     push_spec ''PUSH30'' 30,
     push_spec ''PUSH31'' 31,
     push_spec ''PUSH32'' 32]"

definition opcodes_dup :: "op_spec list" where
  "opcodes_dup =
    [dup_spec ''DUP1'' 1,
     dup_spec ''DUP2'' 2,
     dup_spec ''DUP3'' 3,
     dup_spec ''DUP4'' 4,
     dup_spec ''DUP5'' 5,
     dup_spec ''DUP6'' 6,
     dup_spec ''DUP7'' 7,
     dup_spec ''DUP8'' 8,
     dup_spec ''DUP9'' 9,
     dup_spec ''DUP10'' 10,
     dup_spec ''DUP11'' 11,
     dup_spec ''DUP12'' 12,
     dup_spec ''DUP13'' 13,
     dup_spec ''DUP14'' 14,
     dup_spec ''DUP15'' 15,
     dup_spec ''DUP16'' 16]"

definition opcodes_swap :: "op_spec list" where
  "opcodes_swap =
    [swap_spec ''SWAP1'' 1,
     swap_spec ''SWAP2'' 2,
     swap_spec ''SWAP3'' 3,
     swap_spec ''SWAP4'' 4,
     swap_spec ''SWAP5'' 5,
     swap_spec ''SWAP6'' 6,
     swap_spec ''SWAP7'' 7,
     swap_spec ''SWAP8'' 8,
     swap_spec ''SWAP9'' 9,
     swap_spec ''SWAP10'' 10,
     swap_spec ''SWAP11'' 11,
     swap_spec ''SWAP12'' 12,
     swap_spec ''SWAP13'' 13,
     swap_spec ''SWAP14'' 14,
     swap_spec ''SWAP15'' 15,
     swap_spec ''SWAP16'' 16]"

definition opcodes_logging :: "op_spec list" where
  "opcodes_logging =
    [op ''LOG0'' 0xa0 2 0 False GasComplex CatLog Frontier,
     op ''LOG1'' 0xa1 3 0 False GasComplex CatLog Frontier,
     op ''LOG2'' 0xa2 4 0 False GasComplex CatLog Frontier,
     op ''LOG3'' 0xa3 5 0 False GasComplex CatLog Frontier,
     op ''LOG4'' 0xa4 6 0 False GasComplex CatLog Frontier]"

definition opcodes_system :: "op_spec list" where
  "opcodes_system =
    [op ''CREATE'' 0xf0 3 1 False GasComplex CatCall Frontier,
     op ''CALL'' 0xf1 7 1 False GasComplex CatCall Frontier,
     op ''CALLCODE'' 0xf2 7 1 False GasComplex CatCall Frontier,
     op ''RETURN'' 0xf3 2 0 True GasZero CatTerminating Frontier,
     op ''DELEGATECALL'' 0xf4 6 1 False GasComplex CatCall Homestead,
     op ''CREATE2'' 0xf5 4 1 False GasComplex CatCall Constantinople,
     op ''STATICCALL'' 0xfa 6 1 False GasComplex CatCall Byzantium,
     op ''REVERT'' 0xfd 2 0 True GasZero CatTerminating Byzantium,
     op ''INVALID'' 0xfe 0 0 True GasAll CatTerminating Frontier,
     op ''SELFDESTRUCT'' 0xff 1 0 True GasComplex CatTerminating Frontier]"

definition OPCODES :: "op_spec list" where
  "OPCODES =
     opcodes_stop_arith @ opcodes_comparison_bitwise @ opcodes_keccak @ opcodes_environment @
     opcodes_block_info @ opcodes_stack_memory_flow @ opcodes_push @ opcodes_dup @ opcodes_swap @
     opcodes_logging @ opcodes_system"

lemmas opcode_rows =
  opcodes_stop_arith_def opcodes_comparison_bitwise_def opcodes_keccak_def
  opcodes_environment_def opcodes_block_info_def opcodes_stack_memory_flow_def
  opcodes_push_def opcodes_dup_def opcodes_swap_def opcodes_logging_def opcodes_system_def

lemmas row_defs = op_def push_spec_def dup_spec_def swap_spec_def

subsection \<open>Lookups (lookup.rs)\<close>

text \<open>The byte-by-byte string comparison and the two linear scans over the table.\<close>

fun str_eq_loop :: "string \<Rightarrow> string \<Rightarrow> bool" where
  "str_eq_loop (x # xs) (y # ys) = (if x \<noteq> y then False else str_eq_loop xs ys)"
| "str_eq_loop _ _ = True"

definition str_eq :: "string \<Rightarrow> string \<Rightarrow> bool" where
  "str_eq a b = (if length a \<noteq> length b then False else str_eq_loop a b)"

definition by_mnemonic :: "string \<Rightarrow> op_spec option" where
  "by_mnemonic name = List.find (\<lambda>s. str_eq (mnemonic s) name) OPCODES"

definition by_byte :: "byte \<Rightarrow> op_spec option" where
  "by_byte b = List.find (\<lambda>s. byte s = b) OPCODES"

lemma str_eq_iff [simp]: "str_eq a b \<longleftrightarrow> a = b"
proof -
  have "length a = length b \<Longrightarrow> str_eq_loop a b \<longleftrightarrow> a = b"
    by (induction a b rule: list_induct2) auto
  then show ?thesis by (auto simp: str_eq_def)
qed

subsection \<open>Uniqueness of bytes and mnemonics\<close>

lemma length_OPCODES: "length OPCODES = 149"
  by (simp add: OPCODES_def opcode_rows)

text \<open>The assigned byte values, as a list in the table's order.\<close>

definition assigned_bytes :: "nat list" where
  "assigned_bytes =
     [0..<12] @ [0x10..<0x1e] @ [0x20] @ [0x30..<0x4b] @ [0x50..<0xa5] @ [0xf0..<0xf6] @
     [0xfa, 0xfd, 0xfe, 0xff]"

lemma bytes_OPCODES: "map (\<lambda>s. unat (byte s)) OPCODES = assigned_bytes"
  by (simp add: OPCODES_def opcode_rows row_defs assigned_bytes_def upt_rec)

lemma distinct_bytes: "distinct (map byte OPCODES)"
proof -
  have "distinct (map unat (map byte OPCODES))"
    using bytes_OPCODES by (simp add: assigned_bytes_def comp_def)
  then show ?thesis by (simp only: distinct_map)
qed

lemma mnemonics_OPCODES:
  "map mnemonic OPCODES =
    [''STOP'', ''ADD'', ''MUL'', ''SUB'', ''DIV'', ''SDIV'', ''MOD'', ''SMOD'', ''ADDMOD'',
     ''MULMOD'', ''EXP'', ''SIGNEXTEND'', ''LT'', ''GT'', ''SLT'', ''SGT'', ''EQ'', ''ISZERO'',
     ''AND'', ''OR'', ''XOR'', ''NOT'', ''BYTE'', ''SHL'', ''SHR'', ''SAR'', ''KECCAK256'',
     ''ADDRESS'', ''BALANCE'', ''ORIGIN'', ''CALLER'', ''CALLVALUE'', ''CALLDATALOAD'',
     ''CALLDATASIZE'', ''CALLDATACOPY'', ''CODESIZE'', ''CODECOPY'', ''GASPRICE'',
     ''EXTCODESIZE'', ''EXTCODECOPY'', ''RETURNDATASIZE'', ''RETURNDATACOPY'', ''EXTCODEHASH'',
     ''BLOCKHASH'', ''COINBASE'', ''TIMESTAMP'', ''NUMBER'', ''PREVRANDAO'', ''GASLIMIT'',
     ''CHAINID'', ''SELFBALANCE'', ''BASEFEE'', ''BLOBHASH'', ''BLOBBASEFEE'', ''POP'',
     ''MLOAD'', ''MSTORE'', ''MSTORE8'', ''SLOAD'', ''SSTORE'', ''JUMP'', ''JUMPI'', ''PC'',
     ''MSIZE'', ''GAS'', ''JUMPDEST'', ''TLOAD'', ''TSTORE'', ''MCOPY'', ''PUSH0'', ''PUSH1'',
     ''PUSH2'', ''PUSH3'', ''PUSH4'', ''PUSH5'', ''PUSH6'', ''PUSH7'', ''PUSH8'', ''PUSH9'',
     ''PUSH10'', ''PUSH11'', ''PUSH12'', ''PUSH13'', ''PUSH14'', ''PUSH15'', ''PUSH16'',
     ''PUSH17'', ''PUSH18'', ''PUSH19'', ''PUSH20'', ''PUSH21'', ''PUSH22'', ''PUSH23'',
     ''PUSH24'', ''PUSH25'', ''PUSH26'', ''PUSH27'', ''PUSH28'', ''PUSH29'', ''PUSH30'',
     ''PUSH31'', ''PUSH32'', ''DUP1'', ''DUP2'', ''DUP3'', ''DUP4'', ''DUP5'', ''DUP6'',
     ''DUP7'', ''DUP8'', ''DUP9'', ''DUP10'', ''DUP11'', ''DUP12'', ''DUP13'', ''DUP14'',
     ''DUP15'', ''DUP16'', ''SWAP1'', ''SWAP2'', ''SWAP3'', ''SWAP4'', ''SWAP5'', ''SWAP6'',
     ''SWAP7'', ''SWAP8'', ''SWAP9'', ''SWAP10'', ''SWAP11'', ''SWAP12'', ''SWAP13'', ''SWAP14'',
     ''SWAP15'', ''SWAP16'', ''LOG0'', ''LOG1'', ''LOG2'', ''LOG3'', ''LOG4'', ''CREATE'',
     ''CALL'', ''CALLCODE'', ''RETURN'', ''DELEGATECALL'', ''CREATE2'', ''STATICCALL'',
     ''REVERT'', ''INVALID'', ''SELFDESTRUCT'']"
  by (simp add: OPCODES_def opcode_rows row_defs)

lemma distinct_mnemonics: "distinct (map mnemonic OPCODES)"
  by (simp add: mnemonics_OPCODES)

lemma find_distinct_key:
  "distinct (map f xs) \<Longrightarrow> x \<in> set xs \<Longrightarrow> List.find (\<lambda>y. f y = f x) xs = Some x"
  by (induction xs) (auto simp: image_iff)

lemma by_byte_row: "s \<in> set OPCODES \<Longrightarrow> by_byte (byte s) = Some s"
  by (simp add: by_byte_def find_distinct_key distinct_bytes)

lemma by_mnemonic_row: "s \<in> set OPCODES \<Longrightarrow> by_mnemonic (mnemonic s) = Some s"
  by (simp add: by_mnemonic_def find_distinct_key distinct_mnemonics)

lemma by_byte_SomeD: "by_byte b = Some s \<Longrightarrow> byte s = b \<and> s \<in> set OPCODES"
  by (auto simp: by_byte_def dest: find_Some_set)

lemma by_mnemonic_SomeD: "by_mnemonic m = Some s \<Longrightarrow> mnemonic s = m \<and> s \<in> set OPCODES"
  by (auto simp: by_mnemonic_def dest: find_Some_set)

lemma by_byte_assigned: "(\<exists>s. by_byte b = Some s) \<longleftrightarrow> unat b \<in> set assigned_bytes"
proof -
  have "(\<exists>s. by_byte b = Some s) \<longleftrightarrow> (\<exists>s \<in> set OPCODES. unat (byte s) = unat b)"
    by (auto simp: unat_eq_iff_byte dest: by_byte_SomeD by_byte_row)
  also have "\<dots> \<longleftrightarrow> unat b \<in> set (map (\<lambda>s. unat (byte s)) OPCODES)"
    by (force simp: image_iff)
  finally show ?thesis by (simp only: bytes_OPCODES)
qed

lemma by_byte_None_iff: "by_byte b = None \<longleftrightarrow> unat b \<notin> set assigned_bytes"
  using by_byte_assigned [of b] by (cases "by_byte b") auto

subsection \<open>The PUSH, DUP and SWAP families\<close>

lemma family_rows:
  "list_all (\<lambda>s. 0x60 \<le> byte s \<and> byte s \<le> 0x9f \<longrightarrow> min_fork s = Frontier) OPCODES"
  by (simp add: OPCODES_def opcode_rows row_defs)

lemma family_min_fork:
  "by_byte b = Some s \<Longrightarrow> 0x60 \<le> b \<Longrightarrow> b \<le> 0x9f \<Longrightarrow> min_fork s = Frontier"
  using family_rows by (auto simp: list_all_iff dest: by_byte_SomeD)

lemma family_assigned:
  assumes "0x5f \<le> unat b" and "unat b \<le> 0x9f"
  obtains s where "by_byte b = Some s" and "byte s = b"
proof -
  have "unat b \<in> set assigned_bytes"
    using assms unfolding assigned_bytes_def set_append set_upt Un_iff atLeastLessThan_iff
    by linarith
  then show ?thesis using by_byte_assigned [of b] that by (auto dest: by_byte_SomeD)
qed

lemma family_row: "0x5f \<le> unat b \<Longrightarrow> unat b \<le> 0x9f \<Longrightarrow> \<exists>s. by_byte b = Some s \<and> byte s = b"
  by (metis family_assigned)

lemma by_byte_family_not_None: "0x5f \<le> unat b \<Longrightarrow> unat b \<le> 0x9f \<Longrightarrow> by_byte b \<noteq> None"
  by (auto dest: family_row)

text \<open>Evaluating a lookup: show that the row is in the table.\<close>

lemma by_mnemonic_eval: "op mn b si so t g c f \<in> set OPCODES \<Longrightarrow>
    by_mnemonic mn = Some (op mn b si so t g c f)"
  using by_mnemonic_row [of "op mn b si so t g c f"] by (simp add: op_def)

lemma by_byte_eval: "op mn b si so t g c f \<in> set OPCODES \<Longrightarrow>
    by_byte b = Some (op mn b si so t g c f)"
  using by_byte_row [of "op mn b si so t g c f"] by (simp add: op_def)

lemma set_OPCODES:
  "set OPCODES =
     set opcodes_stop_arith \<union> set opcodes_comparison_bitwise \<union> set opcodes_keccak \<union>
     set opcodes_environment \<union> set opcodes_block_info \<union> set opcodes_stack_memory_flow \<union>
     set opcodes_push \<union> set opcodes_dup \<union> set opcodes_swap \<union> set opcodes_logging \<union>
     set opcodes_system"
  by (auto simp: OPCODES_def)

end
