(* ===== verification/Immediate.thy ===== *)
theory Immediate
  imports Isa
begin

text \<open>
  The 32-byte big-endian immediate of \<open>asm.rs\<close>: its constructors, its significant width in
  bytes and in bits, and its hexadecimal rendering. A Rust \<open>[u8; 32]\<close> is a byte list of length
  32 (\<open>wf_immediate\<close>); \<open>imm_val\<close> is the number it denotes. The lemmas say that \<open>width\<close> and
  \<open>bit_width\<close> are the least byte and bit widths the number fits in.
\<close>

datatype immediate = Immediate (imm_bytes: "byte list")

definition wf_immediate :: "immediate \<Rightarrow> bool" where
  "wf_immediate i \<longleftrightarrow> length (imm_bytes i) = 32"

definition imm_val :: "immediate \<Rightarrow> nat" where
  "imm_val i = be_val (imm_bytes i)"

text \<open>\<open>Iterator::position\<close>: the index of the first element that satisfies the predicate.\<close>

fun position :: "('a \<Rightarrow> bool) \<Rightarrow> 'a list \<Rightarrow> nat option" where
  "position P [] = None"
| "position P (x # xs) = (if P x then Some 0 else map_option Suc (position P xs))"

text \<open>\<open>u8::leading_zeros\<close>.\<close>

definition leading_zeros :: "byte \<Rightarrow> nat" where
  "leading_zeros b = length (takeWhile Not (map (bit b) [7, 6, 5, 4, 3, 2, 1, 0]))"

definition width :: "immediate \<Rightarrow> nat" where
  "width i =
     (case position (\<lambda>b. b \<noteq> 0) (imm_bytes i) of Some first \<Rightarrow> 32 - first | None \<Rightarrow> 0)"

definition bit_width :: "immediate \<Rightarrow> nat" where
  "bit_width i =
     (case position (\<lambda>b. b \<noteq> 0) (imm_bytes i) of
        Some first \<Rightarrow> (32 - first) * 8 - leading_zeros (imm_bytes i ! first)
      | None \<Rightarrow> 0)"

definition is_zero :: "immediate \<Rightarrow> bool" where
  "is_zero i \<longleftrightarrow> width i = 0"

text \<open>\<open>{byte:02x}\<close>, and the hexadecimal form of an immediate.\<close>

definition hex_digit :: "nat \<Rightarrow> char" where
  "hex_digit d = ''0123456789abcdef'' ! d"

definition hex2 :: "byte \<Rightarrow> string" where
  "hex2 b = [hex_digit (unat b div 16), hex_digit (unat b mod 16)]"

definition imm_lower_hex :: "immediate \<Rightarrow> string" where
  "imm_lower_hex i =
     (let w = width i in
      if w = 0 then ''0'' else concat (map hex2 (drop (32 - w) (imm_bytes i))))"

text \<open>The conversions: every unsigned integer is right-aligned in 32 zero bytes.\<close>

definition imm_from_be :: "byte list \<Rightarrow> immediate" where
  "imm_from_be bs = Immediate (take (32 - length bs) (replicate 32 0) @ bs)"

definition imm_from_u8 :: "8 word \<Rightarrow> immediate" where
  "imm_from_u8 v = imm_from_be (be_bytes 1 (unat v))"

definition imm_from_u16 :: "16 word \<Rightarrow> immediate" where
  "imm_from_u16 v = imm_from_be (be_bytes 2 (unat v))"

definition imm_from_u32 :: "32 word \<Rightarrow> immediate" where
  "imm_from_u32 v = imm_from_be (be_bytes 4 (unat v))"

definition imm_from_u64 :: "64 word \<Rightarrow> immediate" where
  "imm_from_u64 v = imm_from_be (be_bytes 8 (unat v))"

definition imm_from_u128 :: "128 word \<Rightarrow> immediate" where
  "imm_from_u128 v = imm_from_be (be_bytes 16 (unat v))"

definition imm_from_bool :: "bool \<Rightarrow> immediate" where
  "imm_from_bool b = imm_from_u8 (if b then 1 else 0)"

definition imm_from_bytes :: "byte list \<Rightarrow> immediate" where
  "imm_from_bytes w = Immediate w"

lemmas imm_from_defs =
  imm_from_u8_def imm_from_u16_def imm_from_u32_def imm_from_u64_def imm_from_u128_def

subsection \<open>The first significant byte\<close>

lemma position_None_iff: "position P xs = None \<longleftrightarrow> (\<forall>x \<in> set xs. \<not> P x)"
  by (induction xs) auto

lemma position_SomeD:
  "position P xs = Some k \<Longrightarrow>
     k < length xs \<and> P (xs ! k) \<and> (\<forall>x \<in> set (take k xs). \<not> P x)"
  by (induction xs arbitrary: k) (auto split: if_splits simp: less_Suc_eq_0_disj)

lemma position_nonzero_split:
  assumes "position (\<lambda>b. b \<noteq> 0) bs = Some k"
  shows "bs = replicate k 0 @ bs ! k # drop (Suc k) bs"
    and "be_val bs = be_val (drop k bs)" and "drop k bs = bs ! k # drop (Suc k) bs"
proof -
  from position_SomeD [OF assms] have k: "k < length bs" and z: "\<forall>b \<in> set (take k bs). b = 0"
    by auto
  have zs: "take k bs = replicate k 0"
    using k z by (intro replicate_eqI) auto
  have d: "drop k bs = bs ! k # drop (Suc k) bs"
    using k by (rule Cons_nth_drop_Suc [symmetric])
  then show "drop k bs = bs ! k # drop (Suc k) bs" .
  have bs: "bs = replicate k 0 @ drop k bs"
    using zs append_take_drop_id [of k bs] by simp
  with d show "bs = replicate k 0 @ bs ! k # drop (Suc k) bs" by simp
  have "be_val bs = be_val (replicate k 0 @ drop k bs)" using bs by simp
  then show "be_val bs = be_val (drop k bs)" by simp
qed

text \<open>\<open>leading_zeros\<close> is checked on all 256 bytes: the bit length of the byte is \<open>8\<close> less it.\<close>

lemma leading_zeros_table:
  "list_all (\<lambda>n. let z = leading_zeros (of_nat n) in
      z < 8 \<and> 2 ^ (7 - z) \<le> n \<and> n < 2 ^ (8 - z)) [1..<256]"
  by code_simp

lemma leading_zeros_bounds:
  assumes "b \<noteq> 0"
  shows "leading_zeros b < 8" and "2 ^ (7 - leading_zeros b) \<le> unat b"
    and "unat b < 2 ^ (8 - leading_zeros b)"
proof -
  have "unat b \<in> set [1..<256]"
    using assms unat_byte_less [of b] by (simp add: Suc_le_eq unat_gt_0 del: unat_byte_less)
  then have "let z = leading_zeros (of_nat (unat b)) in
      z < 8 \<and> 2 ^ (7 - z) \<le> unat b \<and> unat b < 2 ^ (8 - z)"
    using leading_zeros_table unfolding list_all_iff by blast
  then show "leading_zeros b < 8" "2 ^ (7 - leading_zeros b) \<le> unat b"
    "unat b < 2 ^ (8 - leading_zeros b)"
    by (simp_all add: Let_def)
qed

subsection \<open>Widths are least\<close>

lemma width_cases:
  assumes "wf_immediate i"
  obtains (zero) "width i = 0" "bit_width i = 0" "imm_val i = 0" "imm_bytes i = replicate 32 0"
  | (sig) k b bs where "k < 32" "position (\<lambda>b. b \<noteq> 0) (imm_bytes i) = Some k"
      "width i = 32 - k" "bit_width i = (32 - k) * 8 - leading_zeros b" "b \<noteq> 0"
      "imm_bytes i = replicate k 0 @ b # bs" "length bs = 31 - k" "drop k (imm_bytes i) = b # bs"
      "imm_val i = unat b * 256 ^ (31 - k) + be_val bs"
proof (cases "position (\<lambda>b. b \<noteq> 0) (imm_bytes i)")
  case None
  then have "\<forall>b \<in> set (imm_bytes i). b = 0" by (simp add: position_None_iff)
  then have "imm_bytes i = replicate 32 0"
    using assms by (intro replicate_eqI) (auto simp: wf_immediate_def)
  with None show ?thesis
    using zero by (simp add: width_def bit_width_def imm_val_def)
next
  case (Some k)
  note split = position_nonzero_split [OF Some]
  from position_SomeD [OF Some] have k: "k < 32" and nz: "imm_bytes i ! k \<noteq> 0"
    using assms by (auto simp: wf_immediate_def)
  have len: "length (drop (Suc k) (imm_bytes i)) = 31 - k"
    using assms by (simp add: wf_immediate_def)
  have val: "imm_val i = unat (imm_bytes i ! k) * 256 ^ (31 - k) + be_val (drop (Suc k) (imm_bytes i))"
    unfolding imm_val_def split(2) split(3) be_val.simps len ..
  show ?thesis
    by (rule sig [OF k Some _ _ nz split(1) len split(3) val])
       (simp_all add: width_def bit_width_def Some)
qed

lemma width_le_32: "width i \<le> 32"
  by (auto simp: width_def split: option.splits)

lemma width_eq_0_iff: "wf_immediate i \<Longrightarrow> width i = 0 \<longleftrightarrow> imm_val i = 0"
  by (cases i rule: width_cases) (auto simp: unat_eq_zero)

lemma imm_significant_bytes:
  assumes "wf_immediate i"
  shows "length (drop (32 - width i) (imm_bytes i)) = width i"
    and "be_val (drop (32 - width i) (imm_bytes i)) = imm_val i"
    and "width i \<noteq> 0 \<Longrightarrow> hd (drop (32 - width i) (imm_bytes i)) \<noteq> 0"
  using assms
  by (cases i rule: width_cases; simp add: imm_val_def wf_immediate_def)+

lemma width_upper: "wf_immediate i \<Longrightarrow> imm_val i < 256 ^ width i"
  using be_val_bound [of "drop (32 - width i) (imm_bytes i)"]
  by (simp only: imm_significant_bytes)

lemma width_lower:
  assumes "wf_immediate i" and "n < width i"
  shows "256 ^ n \<le> imm_val i"
  using assms(1)
proof (cases i rule: width_cases)
  case zero
  then show ?thesis using assms(2) by simp
next
  case (sig k b bs)
  have "(256 :: nat) ^ n \<le> 256 ^ (31 - k)"
    using assms(2) sig by (intro power_increasing) auto
  also have "\<dots> \<le> unat b * 256 ^ (31 - k)"
    using sig by (simp add: Suc_le_eq unat_gt_0)
  finally show ?thesis using sig by simp
qed

lemma width_least:
  assumes wf: "wf_immediate i"
  shows "width i \<le> n \<longleftrightarrow> imm_val i < 256 ^ n"
proof
  assume "width i \<le> n"
  then have "(256 :: nat) ^ width i \<le> 256 ^ n" by (intro power_increasing) auto
  with width_upper [OF wf] show "imm_val i < 256 ^ n" by (rule less_le_trans)
next
  assume "imm_val i < 256 ^ n"
  with width_lower [OF wf, of n] show "width i \<le> n" by linarith
qed

lemma bit_width_bounds:
  assumes "wf_immediate i"
  shows "imm_val i < 2 ^ bit_width i" and "bit_width i \<noteq> 0 \<Longrightarrow> 2 ^ (bit_width i - 1) \<le> imm_val i"
    and "bit_width i \<le> 256"
proof -
  have "imm_val i < 2 ^ bit_width i \<and> (bit_width i \<noteq> 0 \<longrightarrow> 2 ^ (bit_width i - 1) \<le> imm_val i) \<and>
      bit_width i \<le> 256"
    using assms
  proof (cases i rule: width_cases)
    case zero
    then show ?thesis by simp
  next
    case (sig k b bs)
    note lz = leading_zeros_bounds [OF sig(5)]
    have pow: "(256 :: nat) ^ (31 - k) = 2 ^ ((31 - k) * 8)"
      by (simp add: power_mult mult.commute)
    have bw: "bit_width i = (31 - k) * 8 + (8 - leading_zeros b)"
      using sig(1,4) lz(1) by (simp add: algebra_simps)
    have tail: "be_val bs < 2 ^ ((31 - k) * 8)"
      using be_val_bound [of bs] sig(7) pow by simp
    have "(unat b + 1) * 2 ^ ((31 - k) * 8) \<le> 2 ^ (8 - leading_zeros b) * 2 ^ ((31 - k) * 8)"
      by (rule mult_le_mono1) (use lz(3) in linarith)
    then have upper: "imm_val i < 2 ^ bit_width i"
      using tail sig(9) pow bw by (simp add: power_add mult.commute)
    have "2 ^ (bit_width i - 1) = 2 ^ (7 - leading_zeros b) * (2 :: nat) ^ ((31 - k) * 8)"
      using bw lz(1) by (simp flip: power_add)
    also have "\<dots> \<le> unat b * 2 ^ ((31 - k) * 8)"
      using lz(2) by (rule mult_le_mono1)
    finally have "2 ^ (bit_width i - 1) \<le> imm_val i"
      using sig(9) pow by simp
    with upper bw sig(1) show ?thesis by simp
  qed
  then show "imm_val i < 2 ^ bit_width i" "bit_width i \<noteq> 0 \<Longrightarrow> 2 ^ (bit_width i - 1) \<le> imm_val i"
    "bit_width i \<le> 256" by auto
qed

subsection \<open>Conversions\<close>

lemma imm_from_be:
  assumes "length bs \<le> 32"
  shows "wf_immediate (imm_from_be bs)" and "imm_val (imm_from_be bs) = be_val bs"
  using assms
  by (simp_all add: imm_from_be_def wf_immediate_def imm_val_def min_def)

lemma imm_from_uint_val:
  "imm_val (imm_from_u8 a) = unat a" "imm_val (imm_from_u16 b) = unat b"
  "imm_val (imm_from_u32 c) = unat c" "imm_val (imm_from_u64 d) = unat d"
  "imm_val (imm_from_u128 e) = unat e"
  by (simp_all only: imm_from_defs imm_from_be length_be_bytes be_val_be_bytes_word len_of_numeral_defs)

lemma imm_from_uint_wf [simp]:
  "wf_immediate (imm_from_u8 a)" "wf_immediate (imm_from_u16 b)" "wf_immediate (imm_from_u32 c)"
  "wf_immediate (imm_from_u64 d)" "wf_immediate (imm_from_u128 e)" "wf_immediate (imm_from_bool f)"
  by (simp_all add: imm_from_defs imm_from_bool_def imm_from_be)

end
