(* ===== verification/Disasm.thy ===== *)
theory Disasm
  imports Immediate
begin

text \<open>
  The disassembler (\<open>asm/disasm.rs\<close>): the iterator that decodes one instruction at a time,
  the list it yields from offset zero, the legal jump targets, and the textual listing. The
  second half is the theory of instruction boundaries that the assembler's correctness rests
  on: decoding loses no byte, decoding splits at every boundary, and a boundary is a prefix
  that decodes without a truncated instruction.
\<close>

subsection \<open>Decoded instructions\<close>

definition UNKNOWN :: string where
  "UNKNOWN = ''INVALID''"

record instruction =
  ins_pc :: nat
  ins_opcode :: byte
  ins_spec :: "op_spec option"
  ins_immediate :: "byte list"
  ins_truncated :: bool

definition ins_mnemonic :: "instruction \<Rightarrow> string" where
  "ins_mnemonic i = (case ins_spec i of None \<Rightarrow> UNKNOWN | Some s \<Rightarrow> mnemonic s)"

definition ins_size :: "instruction \<Rightarrow> nat" where
  "ins_size i = 1 + length (ins_immediate i)"

definition spec_push_width :: "op_spec option \<Rightarrow> nat" where
  "spec_push_width spec = (case map_option op_form spec of Some (Push n) \<Rightarrow> unat n | _ \<Rightarrow> 0)"

definition ins_immediate_width :: "instruction \<Rightarrow> nat" where
  "ins_immediate_width i = spec_push_width (ins_spec i)"

definition ins_missing :: "instruction \<Rightarrow> nat" where
  "ins_missing i = ins_immediate_width i - length (ins_immediate i)"

subsection \<open>The iterator\<close>

text \<open>\<open>Instructions::next\<close> on the state \<open>(code, pc)\<close>: the instruction and the next \<open>pc\<close>.\<close>

definition next_ins :: "byte list \<Rightarrow> nat \<Rightarrow> (instruction \<times> nat) option" where
  "next_ins code pc =
     (if length code \<le> pc then None
      else
        let opcode = code ! pc;
            spec = by_byte opcode;
            wanted = spec_push_width spec;
            from = pc + 1;
            taken = min wanted (length code - from)
        in Some (\<lparr>ins_pc = pc, ins_opcode = opcode, ins_spec = spec,
                  ins_immediate = take taken (drop from code),
                  ins_truncated = (taken < wanted)\<rparr>, from + taken))"

lemma next_ins_progress: "next_ins code pc = Some (i, pc') \<Longrightarrow> pc < pc' \<and> pc' \<le> length code"
  by (auto simp: next_ins_def Let_def split: if_splits)

function instructions :: "byte list \<Rightarrow> nat \<Rightarrow> instruction list" where
  "instructions code pc =
     (case next_ins code pc of None \<Rightarrow> [] | Some (i, pc') \<Rightarrow> i # instructions code pc')"
  by pat_completeness auto
termination
  by (relation "measure (\<lambda>(code, pc). length code - pc)") (auto dest: next_ins_progress)

declare instructions.simps [simp del]

definition disassemble :: "byte list \<Rightarrow> instruction list" where
  "disassemble code = instructions code 0"

definition jumpdests :: "byte list \<Rightarrow> nat list" where
  "jumpdests code =
     map ins_pc (filter (\<lambda>i. ins_mnemonic i = ''JUMPDEST'') (disassemble code))"

subsection \<open>The listing\<close>

text \<open>\<open>{:04x}\<close> and \<open>{}\<close> of a \<open>usize\<close>.\<close>

fun hex_nat :: "nat \<Rightarrow> string" where
  "hex_nat n = (if n < 16 then [hex_digit n] else hex_nat (n div 16) @ [hex_digit (n mod 16)])"

fun dec_nat :: "nat \<Rightarrow> string" where
  "dec_nat n =
     (if n < 10 then [char_of (48 + n)] else dec_nat (n div 10) @ [char_of (48 + n mod 10)])"

declare hex_nat.simps [simp del] dec_nat.simps [simp del]

text \<open>Pieces of messages: a quoted name, and the three UTF-8 bytes of an em dash.\<close>

definition backtick :: "string \<Rightarrow> string" where "backtick s = CHR 0x60 # s @ [CHR 0x60]"

definition em_dash :: string where "em_dash = [CHR 0xe2, CHR 0x80, CHR 0x94]"

definition hex04 :: "nat \<Rightarrow> string" where
  "hex04 n = (let s = hex_nat n in replicate (4 - length s) (CHR ''0'') @ s)"

definition ins_display :: "instruction \<Rightarrow> string" where
  "ins_display i =
     hex04 (ins_pc i) @ ''  '' @ ins_mnemonic i @
     (if ins_spec i = None then '' 0x'' @ hex2 (ins_opcode i)
      else
        (if ins_immediate i \<noteq> [] then '' 0x'' @ concat (map hex2 (ins_immediate i)) else []) @
        (if ins_truncated i
         then '' (truncated, '' @ dec_nat (ins_missing i) @ '' byte(s) missing)'' else []))"

definition listing :: "byte list \<Rightarrow> string" where
  "listing code = concat (map (\<lambda>i. ins_display i @ [CHR 0x0A]) (disassemble code))"

subsection \<open>Immediate widths\<close>

definition imm_width :: "byte \<Rightarrow> nat" where
  "imm_width b = spec_push_width (by_byte b)"

lemma spec_push_width_row:
  assumes "byte s = b"
  shows "spec_push_width (Some s) =
    (if 0x60 \<le> unat b \<and> unat b \<le> 0x7f then unat b - 0x5f else 0)"
proof -
  have "0x5f \<le> unat b \<Longrightarrow> unat (b - 0x5f) = unat b - 0x5f"
    by (simp add: unat_sub word_le_nat_alt)
  then show ?thesis
    using assms
    by (auto simp: spec_push_width_def op_form_def Let_def word_le_nat_alt)
qed

lemma imm_width_eq:
  "imm_width b = (if 0x60 \<le> unat b \<and> unat b \<le> 0x7f then unat b - 0x5f else 0)"
proof (cases "by_byte b")
  case None
  then have "\<not> (0x60 \<le> unat b \<and> unat b \<le> 0x7f)"
    using by_byte_family_not_None [of b] by auto
  with None show ?thesis by (simp add: imm_width_def spec_push_width_def)
next
  case (Some s)
  then show ?thesis using by_byte_SomeD [of b s] spec_push_width_row by (simp add: imm_width_def)
qed

lemma imm_width_le: "imm_width b \<le> 32"
  by (auto simp: imm_width_eq)

subsection \<open>Structural decoding\<close>

text \<open>The same decoder by recursion on the remaining bytes, \<open>p\<close> the offset of the first.\<close>

function decode :: "nat \<Rightarrow> byte list \<Rightarrow> instruction list" where
  "decode p [] = []"
| "decode p (b # bs) =
     \<lparr>ins_pc = p, ins_opcode = b, ins_spec = by_byte b,
      ins_immediate = take (imm_width b) bs, ins_truncated = (length bs < imm_width b)\<rparr>
     # decode (p + 1 + imm_width b) (drop (imm_width b) bs)"
  by pat_completeness auto
termination
  by (relation "measure (\<lambda>(p, bs). length bs)") auto

lemma next_ins_Cons:
  assumes "drop pc code = b # bs"
  shows "next_ins code pc =
    Some (\<lparr>ins_pc = pc, ins_opcode = b, ins_spec = by_byte b,
           ins_immediate = take (imm_width b) bs, ins_truncated = (length bs < imm_width b)\<rparr>,
          pc + 1 + min (imm_width b) (length bs))"
proof -
  have len: "length code - pc = Suc (length bs)"
    using assms length_drop [of pc code] by simp
  then have pc: "pc < length code" by simp
  have "code ! pc = b" and "drop (pc + 1) code = bs"
    using assms pc by (auto simp: Cons_nth_drop_Suc [symmetric])
  moreover have "length code - (pc + 1) = length bs" using len by simp
  ultimately show ?thesis
    using pc by (simp add: next_ins_def Let_def imm_width_def min_def)
qed

lemma instructions_decode: "pc \<le> length code \<Longrightarrow> instructions code pc = decode pc (drop pc code)"
proof (induction code pc rule: instructions.induct)
  case (1 code pc)
  show ?case
  proof (cases "drop pc code")
    case Nil
    then show ?thesis by (simp add: instructions.simps [of code pc] next_ins_def)
  next
    case (Cons b bs)
    note ni = next_ins_Cons [OF Cons]
    have le: "pc + 1 + min (imm_width b) (length bs) \<le> length code"
      using next_ins_progress [OF ni] by simp
    have "drop (pc + 1 + min (imm_width b) (length bs)) code =
        drop (min (imm_width b) (length bs)) bs"
      using Cons by (metis add.commute drop_drop drop_Suc_Cons drop0 plus_1_eq_Suc)
    moreover have "decode (pc + 1 + min (imm_width b) (length bs))
          (drop (min (imm_width b) (length bs)) bs) =
        decode (pc + 1 + imm_width b) (drop (imm_width b) bs)"
      by (simp add: min_def)
    ultimately show ?thesis
      using "1.IH" [OF ni refl le] Cons by (simp add: instructions.simps [of code pc] ni)
  qed
qed

lemma disassemble_decode: "disassemble code = decode 0 code"
  by (simp add: disassemble_def instructions_decode)

lemma decode_lossless: "concat (map (\<lambda>i. ins_opcode i # ins_immediate i) (decode p bs)) = bs"
  by (induction p bs rule: decode.induct) auto

subsection \<open>Boundaries\<close>

text \<open>A byte string is complete when decoding it truncates nothing.\<close>

function complete :: "byte list \<Rightarrow> bool" where
  "complete [] = True"
| "complete (b # bs) = (imm_width b \<le> length bs \<and> complete (drop (imm_width b) bs))"
  by pat_completeness auto
termination
  by (relation "measure length") auto

lemma complete_iff: "complete bs \<longleftrightarrow> (\<forall>i \<in> set (decode p bs). \<not> ins_truncated i)"
  by (induction p bs rule: decode.induct) auto

lemma complete_append: "complete xs \<Longrightarrow> complete (xs @ ys) \<longleftrightarrow> complete ys"
  by (induction xs rule: complete.induct) auto

lemma decode_append:
  "complete xs \<Longrightarrow> decode p (xs @ ys) = decode p xs @ decode (p + length xs) ys"
  by (induction xs arbitrary: p rule: complete.induct) (auto simp: algebra_simps)

definition starts :: "byte list \<Rightarrow> nat list" where
  "starts code = map ins_pc (disassemble code)"

lemma decode_pcs:
  "p \<in> ins_pc ` set (decode q bs) \<longleftrightarrow>
     q \<le> p \<and> p - q < length bs \<and> complete (take (p - q) bs)"
proof (induction q bs rule: decode.induct)
  case (1 q)
  then show ?case by simp
next
  case (2 q b bs)
  show ?case
  proof (cases "q < p")
    case False
    have "p \<notin> ins_pc ` set (decode (q + 1 + imm_width b) (drop (imm_width b) bs))"
      using False by (simp only: 2) simp
    then show ?thesis using False by auto
  next
    case True
    then obtain m where m: "p = q + Suc m" by (metis add_Suc_right less_iff_Suc_add)
    have "p \<in> ins_pc ` set (decode (q + 1 + imm_width b) (drop (imm_width b) bs)) \<longleftrightarrow>
        imm_width b \<le> m \<and> m < length bs \<and> complete (drop (imm_width b) (take m bs))"
      unfolding 2 using m by (auto simp: drop_take)
    then show ?thesis using m by auto
  qed
qed

lemma starts_iff: "p \<in> set (starts code) \<longleftrightarrow> p < length code \<and> complete (take p code)"
  using decode_pcs [of p 0 code] by (simp add: starts_def disassemble_decode)

lemma decode_ins:
  "i \<in> set (decode q bs) \<Longrightarrow>
     q \<le> ins_pc i \<and> ins_pc i - q < length bs \<and>
     decode (ins_pc i) (drop (ins_pc i - q) bs) =
       i # decode (ins_pc i + 1 + imm_width (ins_opcode i))
             (drop (ins_pc i - q + 1 + imm_width (ins_opcode i)) bs)"
proof (induction q bs rule: decode.induct)
  case (1 q)
  then show ?case by simp
next
  case (2 q b bs)
  show ?case
  proof (cases "i \<in> set (decode (q + 1 + imm_width b) (drop (imm_width b) bs))")
    case True
    note IH = 2(1) [OF this]
    then have "ins_pc i - q = Suc (imm_width b + (ins_pc i - (q + 1 + imm_width b)))" by auto
    with IH show ?thesis by (auto simp: algebra_simps)
  next
    case False
    with 2(2) show ?thesis by auto
  qed
qed

lemma disassemble_at:
  assumes "i \<in> set (disassemble code)"
  shows "\<exists>bs. drop (ins_pc i) code = ins_opcode i # bs \<and> ins_spec i = by_byte (ins_opcode i) \<and>
    ins_immediate i = take (imm_width (ins_opcode i)) bs \<and>
    ins_truncated i = (length bs < imm_width (ins_opcode i))"
proof -
  note d = decode_ins [of i 0 code]
  with assms have lt: "ins_pc i < length code" by (simp add: disassemble_decode)
  then obtain b bs where bs: "drop (ins_pc i) code = b # bs"
    by (metis Cons_nth_drop_Suc)
  with d assms have e: "\<lparr>ins_pc = ins_pc i, ins_opcode = b, ins_spec = by_byte b,
      ins_immediate = take (imm_width b) bs, ins_truncated = (length bs < imm_width b)\<rparr> = i"
    by (simp add: disassemble_decode)
  have "ins_opcode i = b" "ins_spec i = by_byte b" "ins_immediate i = take (imm_width b) bs"
    "ins_truncated i = (length bs < imm_width b)"
    by (subst e [symmetric], simp)+
  with bs show ?thesis by auto
qed

lemma starts_ins:
  "p \<in> set (starts code) \<longleftrightarrow> (\<exists>i \<in> set (disassemble code). ins_pc i = p)"
  by (auto simp: starts_def)

subsection \<open>Legal jump targets\<close>

text \<open>
  The reference: the EVM's own definition of the valid jump destinations (Yellow Paper,
  section 9.4.3), a scan that skips the immediates of \<open>0x60\<close> to \<open>0x7f\<close> and knows nothing of
  the instruction table.
\<close>

definition yp_next :: "nat \<Rightarrow> byte \<Rightarrow> nat" where
  "yp_next i w = (if 0x60 \<le> unat w \<and> unat w \<le> 0x7f then i + (unat w - 0x60) + 2 else i + 1)"

function yp_jumpdests :: "byte list \<Rightarrow> nat \<Rightarrow> nat list" where
  "yp_jumpdests c i =
     (if length c \<le> i then []
      else (if c ! i = 0x5b then [i] else []) @ yp_jumpdests c (yp_next i (c ! i)))"
  by pat_completeness auto
termination
  by (relation "measure (\<lambda>(c, i). length c - i)") (auto simp: yp_next_def)

declare yp_jumpdests.simps [simp del]

lemma yp_next_width: "yp_next i b = i + 1 + imm_width b"
  by (auto simp: yp_next_def imm_width_eq)

definition jumpdest_row :: op_spec where
  "jumpdest_row = op ''JUMPDEST'' 0x5b 0 0 False (GasFixed 1) CatControl Frontier"

lemma jumpdest_row: "jumpdest_row \<in> set OPCODES" "byte jumpdest_row = 0x5b"
  "mnemonic jumpdest_row = ''JUMPDEST''" "min_fork jumpdest_row = Frontier"
  by (simp_all add: jumpdest_row_def OPCODES_def opcodes_stack_memory_flow_def op_def)

lemma mnemonic_JUMPDEST_iff:
  "ins_spec i = by_byte (ins_opcode i) \<Longrightarrow>
     ins_mnemonic i = ''JUMPDEST'' \<longleftrightarrow> ins_opcode i = 0x5b"
proof
  assume sp: "ins_spec i = by_byte (ins_opcode i)" and "ins_mnemonic i = ''JUMPDEST''"
  then obtain s where s: "by_byte (ins_opcode i) = Some s" "mnemonic s = ''JUMPDEST''"
    by (auto simp: ins_mnemonic_def UNKNOWN_def split: option.splits)
  then have "byte s = ins_opcode i" "s \<in> set OPCODES" by (auto dest: by_byte_SomeD)
  with s(2) jumpdest_row have "s = jumpdest_row"
    using by_mnemonic_row by (metis option.inject)
  with jumpdest_row \<open>byte s = ins_opcode i\<close> show "ins_opcode i = 0x5b" by simp
next
  assume "ins_spec i = by_byte (ins_opcode i)" and "ins_opcode i = 0x5b"
  moreover have "by_byte 0x5b = Some jumpdest_row"
    using by_byte_row [OF jumpdest_row(1)] jumpdest_row(2) by simp
  ultimately show "ins_mnemonic i = ''JUMPDEST''"
    using jumpdest_row(3) by (simp add: ins_mnemonic_def)
qed

lemma yp_jumpdests_decode:
  "bs = drop p code \<Longrightarrow>
     map ins_pc (filter (\<lambda>i. ins_mnemonic i = ''JUMPDEST'') (decode p bs)) = yp_jumpdests code p"
proof (induction p bs rule: decode.induct)
  case (1 p)
  then show ?case by (simp add: yp_jumpdests.simps)
next
  case (2 p b bs)
  then have lt: "p < length code" and b: "code ! p = b" and bs: "bs = drop (p + 1) code"
    by (metis drop_all leI list.distinct(1), metis drop_eq_Nil2 hd_drop_conv_nth leI
        list.distinct(1) list.sel(1), metis Suc_eq_plus1 drop_Suc list.sel(3) tl_drop)
  have IH: "map ins_pc (filter (\<lambda>i. ins_mnemonic i = ''JUMPDEST'')
      (decode (p + 1 + imm_width b) (drop (imm_width b) bs))) = yp_jumpdests code (yp_next p b)"
    unfolding yp_next_width by (rule 2(1)) (simp add: bs add.commute)
  show ?case
    using lt b IH
    by (subst yp_jumpdests.simps) (auto simp: mnemonic_JUMPDEST_iff)
qed

lemma jumpdests_iff: "p \<in> set (jumpdests code) \<longleftrightarrow> p \<in> set (starts code) \<and> code ! p = 0x5b"
proof -
  have "ins_opcode i = code ! ins_pc i \<and> ins_spec i = by_byte (ins_opcode i)"
    if "i \<in> set (disassemble code)" for i
    using disassemble_at [OF that] by (metis hd_drop_conv_nth drop_all leI list.distinct(1) list.sel(1))
  then show ?thesis
    by (auto simp: jumpdests_def starts_def mnemonic_JUMPDEST_iff)
qed

lemma decode_offsets:
  "map ins_pc (decode p bs) =
     map (\<lambda>k. p + sum_list (map ins_size (take k (decode p bs)))) [0..<length (decode p bs)]"
proof (induction p bs rule: decode.induct)
  case (1 p)
  then show ?case by simp
next
  case (2 p b bs)
  show ?case
  proof (cases "drop (imm_width b) bs")
    case Nil
    then show ?thesis by simp
  next
    case (Cons c cs)
    then have "min (length bs) (imm_width b) = imm_width b"
      by (metis drop_all linorder_not_le list.distinct(1) min_absorb2 order_less_imp_le)
    with 2 show ?thesis
      by (simp add: upt_conv_Cons map_Suc_upt [symmetric] ins_size_def comp_def add.assoc
          del: upt_Suc map_Suc_upt)
  qed
qed

text \<open>The immediate bytes the EVM gives an opcode: \<open>0x60\<close> to \<open>0x7f\<close> have 1 to 32, no other has any.\<close>

definition evm_immediates :: "byte \<Rightarrow> nat" where
  "evm_immediates b = (if 0x60 \<le> unat b \<and> unat b \<le> 0x7f then unat b - 0x5f else 0)"

lemma offsets_Cons:
  "map (\<lambda>k. p + sum_list (map f (take k (x # xs)))) [0..<length (x # xs)] =
     p # map (\<lambda>k. p + f x + sum_list (map f (take k xs))) [0..<length xs]" for f :: "'a \<Rightarrow> nat"
  by (simp add: map_upt_Suc algebra_simps del: upt_Suc)

text \<open>A list of instructions accounts for a string of bytes at offset \<open>p\<close>: their opcodes and immediates are
  the bytes, each has the offset of its first byte and the table's row of its opcode, and each has the
  immediate bytes the EVM gives the opcode, except that the last one may have fewer, and is marked
  truncated exactly then.\<close>

definition accounts_for :: "nat \<Rightarrow> byte list \<Rightarrow> instruction list \<Rightarrow> bool" where
  "accounts_for p bs xs \<longleftrightarrow>
     concat (map (\<lambda>i. ins_opcode i # ins_immediate i) xs) = bs \<and>
     map ins_pc xs = map (\<lambda>k. p + sum_list (map ins_size (take k xs))) [0..<length xs] \<and>
     list_all (\<lambda>i. ins_spec i = by_byte (ins_opcode i) \<and> length (ins_immediate i) \<le> evm_immediates (ins_opcode i) \<and>
       (ins_truncated i \<longleftrightarrow> length (ins_immediate i) < evm_immediates (ins_opcode i))) xs \<and>
     list_all (\<lambda>i. \<not> ins_truncated i) (butlast xs)"

lemma decode_accounts: "accounts_for p bs (decode p bs)"
proof -
  have "list_all (\<lambda>i. \<not> ins_truncated i) (butlast (decode p bs))"
    by (induction p bs rule: decode.induct) auto
  moreover have "list_all (\<lambda>i. ins_spec i = by_byte (ins_opcode i) \<and> length (ins_immediate i) \<le> evm_immediates (ins_opcode i)
      \<and> (ins_truncated i \<longleftrightarrow> length (ins_immediate i) < evm_immediates (ins_opcode i))) (decode p bs)"
    by (induction p bs rule: decode.induct) (auto simp: evm_immediates_def imm_width_eq)
  ultimately show ?thesis using decode_lossless [of p bs] decode_offsets [of p bs] by (simp add: accounts_for_def)
qed

lemma accounts_unique: "accounts_for p bs xs \<Longrightarrow> xs = decode p bs"
proof (induction xs arbitrary: p bs)
  case (Cons i xs)
  let ?rest = "concat (map (\<lambda>i. ins_opcode i # ins_immediate i) xs)" and ?w = "imm_width (ins_opcode i)"
  have w: "evm_immediates b = imm_width b" for b by (simp add: evm_immediates_def imm_width_eq)
  have bs: "bs = ins_opcode i # ins_immediate i @ ?rest" using Cons.prems by (simp add: accounts_for_def)
  have pc: "ins_pc i = p" "map ins_pc xs = map (\<lambda>k. p + ins_size i + sum_list (map ins_size (take k xs))) [0..<length xs]"
    using Cons.prems unfolding accounts_for_def offsets_Cons by simp_all
  have i: "ins_spec i = by_byte (ins_opcode i)" "length (ins_immediate i) \<le> ?w"
    "ins_truncated i \<longleftrightarrow> length (ins_immediate i) < ?w"
    using Cons.prems by (simp_all add: w accounts_for_def)
  have full: "length (ins_immediate i) = ?w" if "xs \<noteq> []"
    using Cons.prems i that by (simp add: accounts_for_def)
  have rest: "xs = decode (p + ins_size i) ?rest"
    using Cons.prems pc(2) by (intro Cons.IH) (auto simp: accounts_for_def split: if_splits)
  have t: "take ?w (ins_immediate i @ ?rest) = ins_immediate i" "drop ?w (ins_immediate i @ ?rest) = ?rest"
    "ins_truncated i = (length (ins_immediate i @ ?rest) < ?w)"
    using i full by (cases "xs = []"; simp)+
  have "decode (p + ins_size i) ?rest = decode (p + 1 + ?w) ?rest"
    using full by (cases "xs = []") (simp_all add: ins_size_def)
  then have "decode p bs = \<lparr>ins_pc = ins_pc i, ins_opcode = ins_opcode i, ins_spec = ins_spec i,
      ins_immediate = ins_immediate i, ins_truncated = ins_truncated i\<rparr> # xs"
    using rest by (simp only: bs decode.simps t(1,2) pc(1) i(1) flip: t(3))
  then show ?case by simp
qed (simp add: accounts_for_def)

text \<open>C18 Disassembly of any byte string: the instructions it yields, and no other list of instructions, give
  the bytes back (opcode and immediate, concatenated), have the offsets of their first bytes, carry the
  table's row of their opcode, and have exactly the immediate bytes the EVM gives the opcode, with the one
  exception that the last one may have fewer, the code having ended, and is marked truncated exactly then.\<close>

theorem disassemble_lossless: "accounts_for 0 code xs \<longleftrightarrow> xs = disassemble code"
  using accounts_unique [of 0 code xs] decode_accounts [of 0 code] by (auto simp: disassemble_decode)

text \<open>C13 \<open>jumpdests\<close> is the EVM's definition of the valid jump destinations, in order.\<close>

theorem jumpdests_yellow_paper: "jumpdests code = yp_jumpdests code 0"
  using yp_jumpdests_decode [of code 0 code] by (simp add: jumpdests_def disassemble_decode)

end
