(* ===== verification/Asm.thy ===== *)
theory Asm
  imports Disasm
begin

text \<open>
  The assembler (\<open>asm.rs\<close>): its state, one definition per method, and \<open>finish\<close>. Errors are
  sticky, as in the source: they are a field of the state, and \<open>finish\<close> reports the first.
  \<open>None\<close> is a panic (an \<open>expect\<close> on a table lookup, the overflow of the label counter).
  \<open>asm_run\<close> runs a sequence of method calls. The invariant and the reference assembler that
  this program refines are in \<open>Asm_Correct\<close>.
\<close>

definition MAX_CONTRACT_SIZE :: nat where
  "MAX_CONTRACT_SIZE = 24576"

definition MAX_LABEL_OFFSET :: nat where
  "MAX_LABEL_OFFSET = 65535"

datatype label = Label "32 word"

record fixup =
  fx_label :: label
  fx_at :: nat

datatype asm_error =
  UnknownMnemonic string
| OpcodeTooNew string fork fork
| UseHelperInstead string string
| BadStackDepth string byte
| UnboundLabel label
| LabelAlreadyBound label
| CodeTooLargeToAddress nat

subsection \<open>The text of an error\<close>

definition fork_debug :: "fork \<Rightarrow> string" where
  "fork_debug f =
     (case f of
        Frontier \<Rightarrow> ''Frontier'' | Homestead \<Rightarrow> ''Homestead'' | Byzantium \<Rightarrow> ''Byzantium''
      | Constantinople \<Rightarrow> ''Constantinople'' | Istanbul \<Rightarrow> ''Istanbul'' | Berlin \<Rightarrow> ''Berlin''
      | London \<Rightarrow> ''London'' | Shanghai \<Rightarrow> ''Shanghai'' | Cancun \<Rightarrow> ''Cancun'' | Prague \<Rightarrow> ''Prague'')"

definition label_debug :: "label \<Rightarrow> string" where
  "label_debug l = (case l of Label n \<Rightarrow> ''Label('' @ dec_nat (unat n) @ '')'')"

fun asm_error_display :: "asm_error \<Rightarrow> string" where
  "asm_error_display (UnknownMnemonic m) = ''unknown opcode '' @ backtick m"
| "asm_error_display (OpcodeTooNew mn req target) =
     backtick mn @ '' requires '' @ fork_debug req @ '' but the target fork is '' @
     fork_debug target"
| "asm_error_display (UseHelperInstead mn helper) =
     ''use '' @ backtick helper @ '' to emit '' @ backtick mn @ '' '' @ em_dash @
     '' it carries an operand''"
| "asm_error_display (BadStackDepth helper n) =
     backtick (helper @ ''('' @ dec_nat (unat n) @ '')'') @ '' is out of range; depth must be 1..=16''"
| "asm_error_display (UnboundLabel l) = ''label '' @ label_debug l @ '' was referenced but never bound''"
| "asm_error_display (LabelAlreadyBound l) = ''label '' @ label_debug l @ '' was bound twice''"
| "asm_error_display (CodeTooLargeToAddress len) =
     ''code is '' @ dec_nat len @ '' bytes; a PUSH2 label reference cannot address past '' @
     dec_nat MAX_LABEL_OFFSET"

subsection \<open>The assembler\<close>

record asm =
  asm_fork :: fork
  asm_code :: "byte list"
  asm_labels :: "label \<rightharpoonup> nat"
  asm_fixups :: "fixup list"
  asm_next_label :: "32 word"
  asm_error :: "asm_error option"

definition asm_new :: "fork \<Rightarrow> asm" where
  "asm_new f =
     \<lparr>asm_fork = f, asm_code = [], asm_labels = Map.empty, asm_fixups = [],
      asm_next_label = 0, asm_error = None\<rparr>"

definition asm_offset :: "asm \<Rightarrow> nat" where
  "asm_offset a = length (asm_code a)"

definition is_deployable :: "asm \<Rightarrow> bool" where
  "is_deployable a \<longleftrightarrow> length (asm_code a) \<le> MAX_CONTRACT_SIZE"

subsection \<open>Internals\<close>

definition asm_fail :: "asm_error \<Rightarrow> asm \<Rightarrow> asm" where
  "asm_fail e a = (case asm_error a of None \<Rightarrow> a\<lparr>asm_error := Some e\<rparr> | Some _ \<Rightarrow> a)"

definition emit_byte :: "byte \<Rightarrow> string \<Rightarrow> fork \<Rightarrow> asm \<Rightarrow> asm" where
  "emit_byte b mn mf a =
     (if asm_fork a < mf then asm_fail (OpcodeTooNew mn mf (asm_fork a)) a
      else a\<lparr>asm_code := asm_code a @ [b]\<rparr>)"

definition emit_family_byte :: "byte \<Rightarrow> asm \<Rightarrow> asm option" where
  "emit_family_byte b a =
     (case by_byte b of None \<Rightarrow> None
      | Some s \<Rightarrow> Some (emit_byte (byte s) (mnemonic s) (min_fork s) a))"

definition push_bytes :: "byte list \<Rightarrow> asm \<Rightarrow> asm option" where
  "push_bytes bs a =
     (let b = 0x5f + of_nat (length bs) in
      case by_byte b of None \<Rightarrow> None
      | Some s \<Rightarrow>
          let a' = emit_byte (byte s) (mnemonic s) (min_fork s) a in
          Some (if asm_error a' = None then a'\<lparr>asm_code := asm_code a' @ bs\<rparr> else a'))"

subsection \<open>Methods\<close>

definition op_helper :: "opform \<Rightarrow> string option" where
  "op_helper f =
     (case f of Simple \<Rightarrow> None | Push _ \<Rightarrow> Some ''push'' | Dup _ \<Rightarrow> Some ''dup''
      | Swap _ \<Rightarrow> Some ''swap'')"

definition asm_op :: "string \<Rightarrow> asm \<Rightarrow> asm" where
  "asm_op mn a =
     (if asm_error a \<noteq> None then a
      else case by_mnemonic mn of
          None \<Rightarrow> asm_fail (UnknownMnemonic mn) a
        | Some s \<Rightarrow>
            (case op_helper (op_form s) of
               Some h \<Rightarrow> asm_fail (UseHelperInstead (mnemonic s) h) a
             | None \<Rightarrow> emit_byte (byte s) (mnemonic s) (min_fork s) a))"

definition asm_push :: "immediate \<Rightarrow> asm \<Rightarrow> asm option" where
  "asm_push imm a =
     (if asm_error a \<noteq> None then Some a
      else
        let w = width imm in
        if w = 0 \<and> asm_fork a < Shanghai then push_bytes [0] a
        else if w = 0 then Some (emit_byte 0x5f ''PUSH0'' Shanghai a)
        else push_bytes (drop (32 - w) (imm_bytes imm)) a)"

definition asm_dup :: "byte \<Rightarrow> asm \<Rightarrow> asm option" where
  "asm_dup n a =
     (if asm_error a \<noteq> None then Some a
      else if \<not> (1 \<le> n \<and> n \<le> 16) then Some (asm_fail (BadStackDepth ''dup'' n) a)
      else emit_family_byte (0x7f + n) a)"

definition asm_swap :: "byte \<Rightarrow> asm \<Rightarrow> asm option" where
  "asm_swap n a =
     (if asm_error a \<noteq> None then Some a
      else if \<not> (1 \<le> n \<and> n \<le> 16) then Some (asm_fail (BadStackDepth ''swap'' n) a)
      else emit_family_byte (0x8f + n) a)"

definition asm_label :: "asm \<Rightarrow> (label \<times> asm) option" where
  "asm_label a =
     (if asm_next_label a = -1 then None
      else Some (Label (asm_next_label a), a\<lparr>asm_next_label := asm_next_label a + 1\<rparr>))"

definition asm_bind :: "label \<Rightarrow> asm \<Rightarrow> asm" where
  "asm_bind l a =
     (if asm_error a \<noteq> None then a
      else if asm_labels a l \<noteq> None then asm_fail (LabelAlreadyBound l) a
      else emit_byte 0x5b ''JUMPDEST'' Frontier
             (a\<lparr>asm_labels := (asm_labels a)(l \<mapsto> length (asm_code a))\<rparr>))"

definition asm_push_label :: "label \<Rightarrow> asm \<Rightarrow> asm" where
  "asm_push_label l a =
     (if asm_error a \<noteq> None then a
      else
        let code = asm_code a @ [0x61] in
        a\<lparr>asm_code := code @ [0, 0],
          asm_fixups := asm_fixups a @ [\<lparr>fx_label = l, fx_at = length code\<rparr>]\<rparr>)"

text \<open>The patch loop of \<open>finish\<close>, then \<open>finish\<close>.\<close>

fun patch_fixups :: "(label \<rightharpoonup> nat) \<Rightarrow> fixup list \<Rightarrow> byte list \<Rightarrow> (asm_error, byte list) rust" where
  "patch_fixups ls [] code = Ok code"
| "patch_fixups ls (fx # fxs) code =
     (case ls (fx_label fx) of
        None \<Rightarrow> Err (UnboundLabel (fx_label fx))
      | Some target \<Rightarrow>
          let bytes = be_bytes 2 (unat (of_nat target :: 16 word)) in
          (case copy_at (fx_at fx) bytes code of
             None \<Rightarrow> Panic
           | Some code' \<Rightarrow> patch_fixups ls fxs code'))"

definition asm_finish :: "asm \<Rightarrow> (asm_error, byte list) rust" where
  "asm_finish a =
     (case asm_error a of
        Some e \<Rightarrow> Err e
      | None \<Rightarrow>
          if MAX_LABEL_OFFSET < length (asm_code a) \<and> asm_fixups a \<noteq> []
          then Err (CodeTooLargeToAddress (length (asm_code a)))
          else patch_fixups (asm_labels a) (asm_fixups a) (asm_code a))"

subsection \<open>Sequences of calls\<close>

datatype asm_call =
  COp string | CPush immediate | CDup byte | CSwap byte | CLabel | CBind label | CPushLabel label

fun asm_step :: "asm_call \<Rightarrow> asm \<Rightarrow> asm option" where
  "asm_step (COp mn) a = Some (asm_op mn a)"
| "asm_step (CPush imm) a = asm_push imm a"
| "asm_step (CDup n) a = asm_dup n a"
| "asm_step (CSwap n) a = asm_swap n a"
| "asm_step CLabel a = map_option snd (asm_label a)"
| "asm_step (CBind l) a = Some (asm_bind l a)"
| "asm_step (CPushLabel l) a = Some (asm_push_label l a)"

fun asm_run :: "asm_call list \<Rightarrow> asm \<Rightarrow> asm option" where
  "asm_run [] a = Some a"
| "asm_run (c # cs) a = Option.bind (asm_step c a) (asm_run cs)"

lemma asm_run_append: "asm_run (cs @ ds) a = Option.bind (asm_run cs a) (asm_run ds)"
  by (induction cs arbitrary: a) (auto simp: Option.bind_eq_Some_conv split: Option.bind_splits)

text \<open>The arguments Rust's types allow: an immediate is 32 bytes.\<close>

fun call_ok :: "asm_call \<Rightarrow> bool" where
  "call_ok (CPush imm) = wf_immediate imm"
| "call_ok _ = True"

end
