(* ===== verification/Asm_Correct.thy ===== *)
theory Asm_Correct
  imports Asm
begin

text \<open>
  Correctness of the assembler. The reference is a two-pass assembler over \<open>item\<close>s: the first
  pass turns each call into an instruction, a label reference or a label binding (with the
  checks of the instruction set), the second encodes them with the label addresses known. The
  one-pass assembler with back-patching refines it: on every sequence of calls it never
  panics and \<open>finish\<close> returns exactly what the reference does, errors included.
\<close>

subsection \<open>The reference assembler\<close>

datatype item = Raw byte "byte list" | Ref label | Dest label

fun item_size :: "item \<Rightarrow> nat" where
  "item_size (Raw b bs) = 1 + length bs"
| "item_size (Ref l) = 3"
| "item_size (Dest l) = 1"

fun item_addr :: "nat \<Rightarrow> item list \<Rightarrow> label \<Rightarrow> nat option" where
  "item_addr p [] l = None"
| "item_addr p (it # its) l = (if it = Dest l then Some p else item_addr (p + item_size it) its l)"

fun nat_width :: "nat \<Rightarrow> nat" where
  "nat_width v = (if v = 0 then 0 else Suc (nat_width (v div 256)))"

declare nat_width.simps [simp del]

definition spec_push :: "fork \<Rightarrow> nat \<Rightarrow> item" where
  "spec_push f v =
     (if v = 0 then (if f < Shanghai then Raw 0x60 [0] else Raw 0x5f [])
      else Raw (0x5f + of_nat (nat_width v)) (be_bytes (nat_width v) v))"

fun spec_item :: "fork \<Rightarrow> item list \<Rightarrow> asm_call \<Rightarrow> asm_error + item list" where
  "spec_item f its (COp mn) =
     (case by_mnemonic mn of
        None \<Rightarrow> Inl (UnknownMnemonic mn)
      | Some s \<Rightarrow>
          if 0x5f \<le> unat (byte s) \<and> unat (byte s) \<le> 0x7f then Inl (UseHelperInstead mn ''push'')
          else if 0x80 \<le> unat (byte s) \<and> unat (byte s) \<le> 0x8f
          then Inl (UseHelperInstead mn ''dup'')
          else if 0x90 \<le> unat (byte s) \<and> unat (byte s) \<le> 0x9f
          then Inl (UseHelperInstead mn ''swap'')
          else if min_fork s \<le> f then Inr [Raw (byte s) []]
          else Inl (OpcodeTooNew mn (min_fork s) f))"
| "spec_item f its (CPush imm) = Inr [spec_push f (imm_val imm)]"
| "spec_item f its (CDup n) =
     (if 1 \<le> unat n \<and> unat n \<le> 16 then Inr [Raw (0x7f + n) []] else Inl (BadStackDepth ''dup'' n))"
| "spec_item f its (CSwap n) =
     (if 1 \<le> unat n \<and> unat n \<le> 16 then Inr [Raw (0x8f + n) []] else Inl (BadStackDepth ''swap'' n))"
| "spec_item f its CLabel = Inr []"
| "spec_item f its (CBind l) =
     (if Dest l \<in> set its then Inl (LabelAlreadyBound l) else Inr [Dest l])"
| "spec_item f its (CPushLabel l) = Inr [Ref l]"

fun spec_items :: "fork \<Rightarrow> item list \<Rightarrow> asm_call list \<Rightarrow> asm_error + item list" where
  "spec_items f its [] = Inr its"
| "spec_items f its (c # cs) =
     (case spec_item f its c of Inl e \<Rightarrow> Inl e | Inr new \<Rightarrow> spec_items f (its @ new) cs)"

fun enc_items :: "(label \<rightharpoonup> nat) \<Rightarrow> item list \<Rightarrow> (asm_error, byte list) rust" where
  "enc_items addr [] = Ok []"
| "enc_items addr (Raw b bs # its) = map_ok (\<lambda>r. b # bs @ r) (enc_items addr its)"
| "enc_items addr (Dest l # its) = map_ok (\<lambda>r. 0x5b # r) (enc_items addr its)"
| "enc_items addr (Ref l # its) =
     (case addr l of None \<Rightarrow> Err (UnboundLabel l)
      | Some t \<Rightarrow> map_ok (\<lambda>r. 0x61 # be_bytes 2 t @ r) (enc_items addr its))"

definition has_ref :: "item list \<Rightarrow> bool" where
  "has_ref its \<longleftrightarrow> list_ex (\<lambda>it. case it of Ref _ \<Rightarrow> True | _ \<Rightarrow> False) its"

definition link_items :: "item list \<Rightarrow> (asm_error, byte list) rust" where
  "link_items its =
     (let size = sum_list (map item_size its) in
      if MAX_LABEL_OFFSET < size \<and> has_ref its then Err (CodeTooLargeToAddress size)
      else enc_items (item_addr 0 its) its)"

definition assemble_spec :: "fork \<Rightarrow> asm_call list \<Rightarrow> (asm_error, byte list) rust" where
  "assemble_spec f cs = (case spec_items f [] cs of Inl e \<Rightarrow> Err e | Inr its \<Rightarrow> link_items its)"

subsection \<open>Simulation\<close>

text \<open>The bytes an item occupies before its label is known, and the fixups of a list of items.\<close>

fun blank :: "item \<Rightarrow> byte list" where
  "blank (Raw b bs) = b # bs"
| "blank (Ref l) = [0x61, 0, 0]"
| "blank (Dest l) = [0x5b]"

fun refs :: "nat \<Rightarrow> item list \<Rightarrow> fixup list" where
  "refs p [] = []"
| "refs p (Ref l # its) = \<lparr>fx_label = l, fx_at = p + 1\<rparr> # refs (p + 3) its"
| "refs p (it # its) = refs (p + item_size it) its"

definition sim :: "fork \<Rightarrow> item list \<Rightarrow> asm \<Rightarrow> bool" where
  "sim f its a \<longleftrightarrow>
     asm_error a = None \<and> asm_fork a = f \<and> asm_code a = concat (map blank its) \<and>
     asm_labels a = item_addr 0 its \<and> asm_fixups a = refs 0 its"

lemma length_blank [simp]: "length (blank it) = item_size it"
  by (cases it) auto

lemma length_blanks: "length (concat (map blank its)) = sum_list (map item_size its)"
  by (induction its) auto

lemma item_addr_append:
  "item_addr p (xs @ ys) l =
     (case item_addr p xs l of None \<Rightarrow> item_addr (p + sum_list (map item_size xs)) ys l
      | Some t \<Rightarrow> Some t)"
  by (induction xs arbitrary: p) (auto simp: add.assoc split: option.split)

lemma item_addr_None_iff: "item_addr p its l = None \<longleftrightarrow> Dest l \<notin> set its"
  by (induction its arbitrary: p) auto

lemma refs_append: "refs p (xs @ ys) = refs p xs @ refs (p + sum_list (map item_size xs)) ys"
proof (induction xs arbitrary: p)
  case (Cons it xs)
  then show ?case by (cases it) (auto simp: algebra_simps)
qed simp

lemma refs_Nil_iff: "refs p its = [] \<longleftrightarrow> \<not> has_ref its"
proof (induction its arbitrary: p)
  case (Cons it its)
  then show ?case by (cases it) (auto simp: has_ref_def)
qed (simp add: has_ref_def)

lemma sim_new: "sim f [] (asm_new f)"
  by (simp add: sim_def asm_new_def fun_eq_iff)

lemma sim_raw:
  "sim f its a \<Longrightarrow> sim f (its @ [Raw b bs]) (a\<lparr>asm_code := asm_code a @ b # bs\<rparr>)"
  by (auto simp: sim_def item_addr_append refs_append split: option.splits)

lemma sim_frame:
  "sim f its a \<Longrightarrow> sim f its (a\<lparr>asm_next_label := n\<rparr>)"
  by (simp add: sim_def)

lemma emit_byte_ok: "mf \<le> asm_fork a \<Longrightarrow> emit_byte b mn mf a = a\<lparr>asm_code := asm_code a @ [b]\<rparr>"
  by (simp add: emit_byte_def)

lemma asm_fail_error: "asm_error a = None \<Longrightarrow> asm_error (asm_fail e a) = Some e"
  by (simp add: asm_fail_def)

lemma emit_family_byte_ok:
  assumes "0x60 \<le> unat b" and "unat b \<le> 0x9f"
  shows "emit_family_byte b a = Some (a\<lparr>asm_code := asm_code a @ [b]\<rparr>)"
proof -
  obtain s where s: "by_byte b = Some s" "byte s = b"
    using assms family_row [of b] by auto
  moreover from this assms have "min_fork s = Frontier"
    by (auto intro: family_min_fork simp: word_le_nat_alt)
  ultimately show ?thesis by (simp add: emit_family_byte_def emit_byte_ok)
qed

lemma push_bytes_ok:
  assumes "asm_error a = None" and "1 \<le> length bs" and "length bs \<le> 32"
  shows "push_bytes bs a =
    Some (a\<lparr>asm_code := asm_code a @ (0x5f + of_nat (length bs)) # bs\<rparr>)"
proof -
  define b :: byte where "b = 0x5f + of_nat (length bs)"
  have b: "unat b = 0x5f + length bs"
    using assms by (simp add: b_def unat_word_ariths unat_of_nat_byte)
  then obtain s where s: "by_byte b = Some s" "byte s = b"
    using assms b family_row [of b] by auto
  moreover from this b assms have "min_fork s = Frontier"
    by (auto intro: family_min_fork simp: word_le_nat_alt)
  ultimately show ?thesis
    using assms(1) by (simp add: push_bytes_def Let_def emit_byte_ok flip: b_def)
qed

text \<open>The immediate of \<open>push\<close>: the significant bytes are the shortest string of the value.\<close>

lemma nat_width_bounds: "v < 256 ^ nat_width v \<and> (v \<noteq> 0 \<longrightarrow> 256 ^ (nat_width v - 1) \<le> v)"
proof (induction v rule: nat_width.induct)
  case (1 v)
  show ?case
  proof (cases "v = 0")
    case True
    then show ?thesis by (simp add: nat_width.simps)
  next
    case False
    with 1 have "v div 256 < 256 ^ nat_width (v div 256)"
      and lo: "v div 256 \<noteq> 0 \<longrightarrow> 256 ^ (nat_width (v div 256) - 1) \<le> v div 256" by auto
    then have "v < 256 ^ Suc (nat_width (v div 256))"
      by (simp add: div_less_iff_less_mult mult.commute)
    moreover have "256 ^ nat_width (v div 256) \<le> v"
    proof (cases "v div 256 = 0")
      case True
      with False show ?thesis by (simp add: nat_width.simps)
    next
      case nz: False
      then have "nat_width (v div 256) = Suc (nat_width (v div 256) - 1)"
        by (simp add: nat_width.simps [of "v div 256"])
      then have "256 ^ nat_width (v div 256) = (256 :: nat) * 256 ^ (nat_width (v div 256) - 1)"
        by (metis power_Suc)
      also have "\<dots> \<le> 256 * (v div 256)" using lo nz by simp
      also have "\<dots> \<le> v" by simp
      finally show ?thesis .
    qed
    ultimately show ?thesis using False by (simp add: nat_width.simps [of v])
  qed
qed

lemma nat_width_least: "nat_width v \<le> n \<longleftrightarrow> v < 256 ^ n"
proof
  assume "nat_width v \<le> n"
  then have "(256 :: nat) ^ nat_width v \<le> 256 ^ n" by (intro power_increasing) auto
  with nat_width_bounds [of v] show "v < 256 ^ n" by linarith
next
  assume v: "v < 256 ^ n"
  show "nat_width v \<le> n"
  proof (rule ccontr)
    assume "\<not> nat_width v \<le> n"
    then have "n \<le> nat_width v - 1" and "v \<noteq> 0"
      by (linarith, auto simp: nat_width.simps [of v] split: if_splits)
    then have "(256 :: nat) ^ n \<le> 256 ^ (nat_width v - 1)" by (intro power_increasing) auto
    with nat_width_bounds [of v] v \<open>v \<noteq> 0\<close> show False by linarith
  qed
qed

lemma width_nat_width:
  assumes "wf_immediate imm"
  shows "width imm = nat_width (imm_val imm)"
proof (rule antisym)
  show "width imm \<le> nat_width (imm_val imm)"
    using assms nat_width_bounds by (simp add: width_least)
  show "nat_width (imm_val imm) \<le> width imm"
    using assms by (simp add: nat_width_least width_upper)
qed

lemma significant_be_bytes:
  assumes "wf_immediate imm"
  shows "drop (32 - width imm) (imm_bytes imm) = be_bytes (nat_width (imm_val imm)) (imm_val imm)"
proof -
  have "drop (32 - width imm) (imm_bytes imm) =
      be_bytes (length (drop (32 - width imm) (imm_bytes imm)))
        (be_val (drop (32 - width imm) (imm_bytes imm)))"
    by (rule be_bytes_be_val [symmetric])
  then show ?thesis
    unfolding imm_significant_bytes(1,2) [OF assms] by (simp only: width_nat_width [OF assms])
qed

lemma imm_val_bound: "wf_immediate imm \<Longrightarrow> imm_val imm < 256 ^ 32"
  using width_least [of imm 32] width_le_32 by simp

lemma sim_push:
  assumes "sim f its a" and "wf_immediate imm"
  shows "\<exists>a'. asm_push imm a = Some a' \<and> sim f (its @ [spec_push f (imm_val imm)]) a'"
proof -
  have a: "asm_error a = None" "asm_fork a = f" using assms(1) by (auto simp: sim_def)
  consider "width imm = 0" "f < Shanghai" | "width imm = 0" "Shanghai \<le> f" | "width imm \<noteq> 0"
    by fastforce
  then show ?thesis
  proof cases
    case 1
    then show ?thesis
      using assms a sim_raw [OF assms(1), of "0x60" "[0]"]
      by (auto simp: asm_push_def push_bytes_ok spec_push_def width_eq_0_iff)
  next
    case 2
    then show ?thesis
      using assms a sim_raw [OF assms(1), of "0x5f" "[]"]
      by (auto simp: asm_push_def emit_byte_ok spec_push_def width_eq_0_iff)
  next
    case 3
    let ?bs = "drop (32 - width imm) (imm_bytes imm)"
    have len: "1 \<le> length ?bs" "length ?bs \<le> 32"
      using 3 assms(2) width_le_32 [of imm] by (simp_all only: imm_significant_bytes Suc_le_eq One_nat_def neq0_conv)
    have "imm_val imm \<noteq> 0" using 3 assms(2) by (simp add: width_eq_0_iff)
    then have "spec_push f (imm_val imm) = Raw (0x5f + of_nat (length ?bs)) ?bs"
      using assms(2)
      by (simp only: spec_push_def significant_be_bytes length_be_bytes if_False)
    then show ?thesis
      using 3 a sim_raw [OF assms(1), of "0x5f + of_nat (length ?bs)" ?bs]
        push_bytes_ok [OF a(1) len]
      by (simp only: asm_push_def Let_def) simp
  qed
qed

text \<open>Each call: the state advances as the item list does, or records the reference's error.\<close>

lemma sim_bound: "sim f its a \<Longrightarrow> asm_labels a l = None \<longleftrightarrow> Dest l \<notin> set its"
  by (simp add: sim_def item_addr_None_iff)

lemma asm_op_family:
  "op_helper (op_form s) =
     (if 0x5f \<le> unat (byte s) \<and> unat (byte s) \<le> 0x7f then Some ''push''
      else if 0x80 \<le> unat (byte s) \<and> unat (byte s) \<le> 0x8f then Some ''dup''
      else if 0x90 \<le> unat (byte s) \<and> unat (byte s) \<le> 0x9f then Some ''swap'' else None)"
  by (auto simp: op_helper_def op_form_def Let_def word_le_nat_alt unat_eq_iff_byte [symmetric])

lemma sim_op:
  assumes "sim f its a"
  shows "case spec_item f its (COp mn) of
      Inl e \<Rightarrow> asm_error (asm_op mn a) = Some e
    | Inr new \<Rightarrow> sim f (its @ new) (asm_op mn a)"
proof (cases "by_mnemonic mn")
  case None
  then show ?thesis using assms by (simp add: asm_op_def sim_def asm_fail_error)
next
  case (Some s)
  then have "mnemonic s = mn" by (auto dest: by_mnemonic_SomeD)
  then show ?thesis
    using Some assms sim_raw [OF assms, of "byte s" "[]"]
    by (auto simp: asm_op_def sim_def asm_fail_error asm_op_family emit_byte_def not_less
        dest: leD)
qed

lemma sim_bind:
  assumes "sim f its a"
  shows "case spec_item f its (CBind l) of
      Inl e \<Rightarrow> asm_error (asm_bind l a) = Some e
    | Inr new \<Rightarrow> sim f (its @ new) (asm_bind l a)"
proof (cases "Dest l \<in> set its")
  case True
  with sim_bound [OF assms, of l] assms show ?thesis
    by (simp add: asm_bind_def sim_def asm_fail_error)
next
  case False
  then have n: "item_addr 0 its l = None" by (simp add: item_addr_None_iff)
  have "(item_addr 0 its)(l \<mapsto> sum_list (map item_size its)) = item_addr 0 (its @ [Dest l])"
    using n by (auto simp: fun_eq_iff item_addr_append split: option.split)
  with False n assms show ?thesis
    by (simp add: asm_bind_def sim_def emit_byte_def length_blanks refs_append)
qed

lemma sim_push_label:
  assumes "sim f its a"
  shows "sim f (its @ [Ref l]) (asm_push_label l a)"
proof -
  have "item_addr 0 (its @ [Ref l]) = item_addr 0 its"
    by (auto simp: fun_eq_iff item_addr_append split: option.split)
  with assms show ?thesis
    by (simp add: asm_push_label_def sim_def Let_def length_blanks refs_append)
qed

lemma sim_family:
  assumes "sim f its a" and "1 \<le> unat n \<and> unat n \<le> 16"
  shows "\<exists>a'. asm_dup n a = Some a' \<and> sim f (its @ [Raw (0x7f + n) []]) a'"
    and "\<exists>a'. asm_swap n a = Some a' \<and> sim f (its @ [Raw (0x8f + n) []]) a'"
proof -
  have e: "asm_error a = None" using assms(1) by (simp add: sim_def)
  have n: "1 \<le> n \<and> n \<le> 16" using assms(2) by (simp add: word_le_nat_alt)
  have u: "unat (0x7f + n) = 0x7f + unat n" "unat (0x8f + n) = 0x8f + unat n"
    using assms(2) by (simp_all add: unat_word_ariths)
  show "\<exists>a'. asm_dup n a = Some a' \<and> sim f (its @ [Raw (0x7f + n) []]) a'"
    using assms n u e sim_raw [OF assms(1), of "0x7f + n" "[]"] by (simp add: asm_dup_def emit_family_byte_ok)
  show "\<exists>a'. asm_swap n a = Some a' \<and> sim f (its @ [Raw (0x8f + n) []]) a'"
    using assms n u e sim_raw [OF assms(1), of "0x8f + n" "[]"] by (simp add: asm_swap_def emit_family_byte_ok)
qed

lemma sim_step:
  assumes "sim f its a" and "call_ok c" and "c = CLabel \<Longrightarrow> asm_next_label a \<noteq> -1"
  shows "\<exists>a'. asm_step c a = Some a' \<and>
    (case spec_item f its c of Inl e \<Rightarrow> asm_error a' = Some e | Inr new \<Rightarrow> sim f (its @ new) a')"
proof (cases c)
  case (COp mn)
  then show ?thesis using sim_op [OF assms(1)] by simp
next
  case (CPush imm)
  then show ?thesis using sim_push [OF assms(1)] assms(2) by simp
next
  case (CDup n)
  then show ?thesis
    using sim_family(1) [OF assms(1), of n] assms(1)
    by (cases "1 \<le> unat n \<and> unat n \<le> 16")
       (auto simp: asm_dup_def sim_def asm_fail_error word_le_nat_alt)
next
  case (CSwap n)
  then show ?thesis
    using sim_family(2) [OF assms(1), of n] assms(1)
    by (cases "1 \<le> unat n \<and> unat n \<le> 16")
       (auto simp: asm_swap_def sim_def asm_fail_error word_le_nat_alt)
next
  case CLabel
  then show ?thesis using assms by (simp add: asm_label_def sim_frame)
next
  case (CBind l)
  then show ?thesis using sim_bind [OF assms(1), of l] by simp
next
  case (CPushLabel l)
  then show ?thesis using sim_push_label [OF assms(1)] by simp
qed

text \<open>Errors are sticky: after the first, every call leaves code, labels and error alone.\<close>

lemma asm_step_sticky:
  assumes "asm_error a = Some e" and "c = CLabel \<Longrightarrow> asm_next_label a \<noteq> -1"
  shows "\<exists>n. asm_step c a = Some (a\<lparr>asm_next_label := n\<rparr>)"
proof (cases c)
  case CLabel
  then show ?thesis using assms by (auto simp: asm_label_def)
qed (use assms in \<open>auto simp: asm_op_def asm_push_def asm_dup_def asm_swap_def asm_bind_def
      asm_push_label_def intro!: exI [of _ "asm_next_label a"]\<close>)

lemma emit_byte_next_label [simp]: "asm_next_label (emit_byte b mn mf a) = asm_next_label a"
  by (simp add: emit_byte_def asm_fail_def split: option.splits)

lemma asm_step_next_label:
  assumes "asm_step c a = Some a'"
  shows "asm_next_label a' = asm_next_label a + (if c = CLabel then 1 else 0)"
  using assms
  by (cases c)
     (auto simp: asm_op_def asm_push_def asm_dup_def asm_swap_def asm_bind_def asm_push_label_def
      asm_label_def push_bytes_def emit_family_byte_def asm_fail_def Let_def
      split: if_splits option.splits)

subsection \<open>Runs\<close>

abbreviation label_calls :: "asm_call list \<Rightarrow> nat" where
  "label_calls cs \<equiv> length (filter (\<lambda>c. c = CLabel) cs)"

lemma next_label_room:
  assumes "unat (asm_next_label a) + label_calls (c # cs) < 2 ^ 32" and "asm_step c a = Some a'"
  shows "unat (asm_next_label a') + label_calls cs < 2 ^ 32"
proof (cases "c = CLabel")
  case True
  then have "unat (asm_next_label a') \<le> unat (asm_next_label a) + 1"
    using asm_step_next_label [OF assms(2)] by (simp add: unat_word_ariths)
  with True assms(1) show ?thesis by simp
next
  case False
  with assms asm_step_next_label [OF assms(2)] show ?thesis by simp
qed

lemma next_label_ok:
  "unat (asm_next_label a) + label_calls (c # cs) < 2 ^ 32 \<Longrightarrow> c = CLabel \<Longrightarrow>
     asm_next_label a \<noteq> -1"
  by (auto simp: unsigned_minus_1_eq_mask mask_eq_exp_minus_1)

lemma run_sticky:
  "asm_error a = Some e \<Longrightarrow> unat (asm_next_label a) + label_calls cs < 2 ^ 32 \<Longrightarrow>
     \<exists>n. asm_run cs a = Some (a\<lparr>asm_next_label := n\<rparr>)"
proof (induction cs arbitrary: a)
  case Nil
  then show ?case by (auto intro!: exI [of _ "asm_next_label a"])
next
  case (Cons c cs)
  obtain n where n: "asm_step c a = Some (a\<lparr>asm_next_label := n\<rparr>)"
    using asm_step_sticky [OF Cons.prems(1) next_label_ok [OF Cons.prems(2)]] by auto
  with Cons.IH [of "a\<lparr>asm_next_label := n\<rparr>"] Cons.prems next_label_room [OF Cons.prems(2) n]
  show ?case by auto
qed

lemma sim_run:
  "sim f its a \<Longrightarrow> list_all call_ok cs \<Longrightarrow> unat (asm_next_label a) + label_calls cs < 2 ^ 32 \<Longrightarrow>
     \<exists>a'. asm_run cs a = Some a' \<and>
       (case spec_items f its cs of Inl e \<Rightarrow> asm_error a' = Some e | Inr its' \<Rightarrow> sim f its' a')"
proof (induction cs arbitrary: its a)
  case Nil
  then show ?case by simp
next
  case (Cons c cs)
  obtain a1 where a1: "asm_step c a = Some a1"
    and r: "case spec_item f its c of Inl e \<Rightarrow> asm_error a1 = Some e | Inr new \<Rightarrow> sim f (its @ new) a1"
    using sim_step [OF Cons.prems(1) _ next_label_ok [OF Cons.prems(3)]] Cons.prems(2) by auto
  note room = next_label_room [OF Cons.prems(3) a1]
  show ?case
  proof (cases "spec_item f its c")
    case (Inl e)
    with r run_sticky [OF _ room] a1 show ?thesis by fastforce
  next
    case (Inr new)
    with r Cons.IH [of "its @ new" a1] Cons.prems(2) room a1 show ?thesis by simp
  qed
qed

subsection \<open>Back-patching is linking\<close>

lemma copy_at_middle:
  "i = length pre \<Longrightarrow> length src = length mid \<Longrightarrow>
     copy_at i src (pre @ mid @ post) = Some (pre @ src @ post)"
  by (simp add: copy_at_def)

lemma patch_items:
  assumes "\<And>l t. ls l = Some t \<Longrightarrow> Ref l \<in> set its \<Longrightarrow> t < 2 ^ 16" and "length pre = p"
  shows "patch_fixups ls (refs p its) (pre @ concat (map blank its)) =
    map_ok (\<lambda>r. pre @ r) (enc_items ls its)"
  using assms
proof (induction its arbitrary: pre p)
  case Nil
  then show ?case by simp
next
  case (Cons it its)
  have IH: "patch_fixups ls (refs (p + length b) its) ((pre @ b) @ concat (map blank its)) =
      map_ok (\<lambda>r. (pre @ b) @ r) (enc_items ls its)" for b
    by (rule Cons.IH) (use Cons.prems in auto)
  have assoc: "map_ok (\<lambda>r. (pre @ b) @ r) x = map_ok (\<lambda>r. pre @ r) (map_ok (\<lambda>r. b @ r) x)"
    for b and x :: "(asm_error, byte list) rust" by (cases x) auto
  show ?case
  proof (cases it)
    case (Raw b bs)
    then show ?thesis using IH [of "b # bs"] assoc [of "b # bs"] by simp
  next
    case (Dest l)
    then show ?thesis using IH [of "[0x5b]"] assoc [of "[0x5b]"] by simp
  next
    case (Ref l)
    show ?thesis
    proof (cases "ls l")
      case None
      then show ?thesis using Ref by simp
    next
      case (Some t)
      then have t: "unat (of_nat t :: 16 word) = t"
        using Cons.prems(1) Ref by (simp add: unat_of_nat take_bit_eq_mod)
      have "copy_at (p + 1) (be_bytes 2 t) ((pre @ [0x61]) @ [0, 0] @ concat (map blank its)) =
          Some ((pre @ [0x61]) @ be_bytes 2 t @ concat (map blank its))"
        by (rule copy_at_middle) (use Cons.prems in auto)
      then show ?thesis
        using Ref Some t IH [of "0x61 # be_bytes 2 t"] assoc [of "0x61 # be_bytes 2 t"]
        by (simp del: be_bytes.simps)
    qed
  qed
qed

lemma item_addr_bound: "item_addr p its l = Some t \<Longrightarrow> t < p + sum_list (map item_size its)"
proof (induction its arbitrary: p)
  case (Cons it its)
  then show ?case by (cases "it = Dest l") (auto dest: Cons.IH)
qed simp

lemma has_ref_iff: "has_ref its \<longleftrightarrow> (\<exists>l. Ref l \<in> set its)"
proof -
  have "(case it of Ref _ \<Rightarrow> True | _ \<Rightarrow> False) \<longleftrightarrow> (\<exists>l. it = Ref l)" for it by (cases it) auto
  then show ?thesis by (auto simp: has_ref_def list_ex_iff)
qed

lemma sim_finish:
  assumes "sim f its a"
  shows "asm_finish a = link_items its"
proof (cases "MAX_LABEL_OFFSET < sum_list (map item_size its) \<and> has_ref its")
  case True
  with assms show ?thesis
    by (simp add: asm_finish_def link_items_def sim_def length_blanks refs_Nil_iff)
next
  case False
  have "t < 2 ^ 16" if "item_addr 0 its l = Some t" "Ref l \<in> set its" for l t
    using item_addr_bound [OF that(1)] that(2) False
    by (auto simp: has_ref_iff MAX_LABEL_OFFSET_def)
  then have "patch_fixups (item_addr 0 its) (refs 0 its) ([] @ concat (map blank its)) =
      map_ok (\<lambda>r. [] @ r) (enc_items (item_addr 0 its) its)"
    by (rule patch_items) auto
  moreover have "map_ok (\<lambda>r. [] @ r) x = x" for x :: "(asm_error, byte list) rust"
    by (cases x) auto
  ultimately show ?thesis
    using assms False
    by (auto simp: asm_finish_def link_items_def sim_def length_blanks refs_Nil_iff)
qed

subsection \<open>What the output decodes to\<close>

text \<open>The instructions a list of items stands for, from offset \<open>p\<close>.\<close>

fun item_instrs :: "(label \<rightharpoonup> nat) \<Rightarrow> nat \<Rightarrow> item list \<Rightarrow> instruction list" where
  "item_instrs addr p [] = []"
| "item_instrs addr p (it # its) =
     (let (b, imm) = (case it of Raw b bs \<Rightarrow> (b, bs) | Dest l \<Rightarrow> (0x5b, [])
                      | Ref l \<Rightarrow> (0x61, be_bytes 2 (the (addr l))))
      in \<lparr>ins_pc = p, ins_opcode = b, ins_spec = by_byte b, ins_immediate = imm,
          ins_truncated = False\<rparr> # item_instrs addr (p + item_size it) its)"

fun item_ok :: "fork \<Rightarrow> item \<Rightarrow> bool" where
  "item_ok f (Raw b bs) \<longleftrightarrow> imm_width b = length bs \<and> (\<exists>s. by_byte b = Some s \<and> min_fork s \<le> f)"
| "item_ok f _ \<longleftrightarrow> True"

lemma imm_width_0x5b [simp]: "imm_width 0x5b = 0"
  by (simp add: imm_width_eq)

lemma imm_width_0x61 [simp]: "imm_width 0x61 = 2"
  by (simp add: imm_width_eq)

lemma family_byte_ok:
  assumes "0x60 \<le> unat b" and "unat b \<le> 0x9f"
  shows "\<exists>s. by_byte b = Some s \<and> min_fork s \<le> f"
  using assms family_row [of b] family_min_fork [of b] by (auto simp: word_le_nat_alt)

definition push0_row :: op_spec where
  "push0_row = op ''PUSH0'' 0x5f 0 1 False (GasFixed 2) CatStackManip Shanghai"

lemma by_byte_push0: "by_byte 0x5f = Some push0_row"
proof -
  have "push0_row \<in> set OPCODES"
    by (simp add: push0_row_def OPCODES_def opcodes_stack_memory_flow_def)
  from by_byte_row [OF this] show ?thesis by (simp add: push0_row_def op_def)
qed

lemma spec_push_ok:
  assumes "v < 256 ^ 32"
  shows "item_ok f (spec_push f v)"
proof (cases "v = 0")
  case True
  then show ?thesis
    using family_byte_ok [of "0x60" f] by_byte_push0
    by (auto simp: spec_push_def imm_width_eq push0_row_def op_def not_less)
next
  case False
  have w: "1 \<le> nat_width v" "nat_width v \<le> 32"
    using assms False nat_width_least [of v 32] by (auto simp: nat_width.simps [of v])
  then have u: "unat (0x5f + of_nat (nat_width v) :: byte) = 0x5f + nat_width v"
    by (simp add: unat_word_ariths unat_of_nat_byte)
  then show ?thesis
    using False w family_byte_ok [of "0x5f + of_nat (nat_width v)" f]
    by (simp add: spec_push_def imm_width_eq)
qed

lemma spec_item_ok:
  assumes "spec_item f its c = Inr new" and "call_ok c"
  shows "list_all (item_ok f) new"
proof (cases c)
  case (COp mn)
  with assms obtain s where "by_mnemonic mn = Some s" "min_fork s \<le> f" "new = [Raw (byte s) []]"
    and "\<not> (0x60 \<le> unat (byte s) \<and> unat (byte s) \<le> 0x7f)"
    by (auto split: option.splits if_splits)
  then show ?thesis by (auto simp: imm_width_eq dest!: by_mnemonic_SomeD by_byte_row)
next
  case (CPush imm)
  with assms show ?thesis using spec_push_ok [OF imm_val_bound, of imm f] by auto
next
  case (CDup n)
  with assms have n: "1 \<le> unat n" "unat n \<le> 16" "new = [Raw (0x7f + n) []]"
    by (auto split: if_splits)
  then have "unat (0x7f + n) = 0x7f + unat n" by (simp add: unat_word_ariths)
  with n family_byte_ok [of "0x7f + n" f] show ?thesis by (simp add: imm_width_eq)
next
  case (CSwap n)
  with assms have n: "1 \<le> unat n" "unat n \<le> 16" "new = [Raw (0x8f + n) []]"
    by (auto split: if_splits)
  then have "unat (0x8f + n) = 0x8f + unat n" by (simp add: unat_word_ariths)
  with n family_byte_ok [of "0x8f + n" f] show ?thesis by (simp add: imm_width_eq)
qed (use assms in \<open>auto split: if_splits\<close>)

lemma spec_items_ok:
  "spec_items f its cs = Inr its' \<Longrightarrow> list_all (item_ok f) its \<Longrightarrow> list_all call_ok cs \<Longrightarrow>
     list_all (item_ok f) its'"
proof (induction cs arbitrary: its)
  case (Cons c cs)
  then show ?case
    by (cases "spec_item f its c") (auto dest: spec_item_ok intro: Cons.IH)
qed simp

lemma decode_items:
  "enc_items addr its = Ok code \<Longrightarrow> list_all (item_ok f) its \<Longrightarrow>
     decode p code = item_instrs addr p its"
proof (induction its arbitrary: p code)
  case Nil
  then show ?case by simp
next
  case (Cons it its)
  then show ?case
    by (cases it)
       (auto simp: map_ok_Ok_iff numeral_3_eq_3 simp del: be_bytes.simps split: option.splits)
qed

lemma item_instrs_ref:
  "fx \<in> set (refs p its) \<Longrightarrow>
     \<exists>i \<in> set (item_instrs addr p its). ins_pc i + 1 = fx_at fx \<and> ins_opcode i = 0x61 \<and>
       ins_immediate i = be_bytes 2 (the (addr (fx_label fx))) \<and> Ref (fx_label fx) \<in> set its"
proof (induction its arbitrary: p)
  case (Cons it its)
  then show ?case by (cases it) (auto simp del: be_bytes.simps)
qed simp

lemma item_instrs_dest:
  "item_addr p its l = Some t \<Longrightarrow>
     \<exists>i \<in> set (item_instrs addr p its). ins_pc i = t \<and> ins_opcode i = 0x5b \<and>
       ins_spec i = by_byte 0x5b"
proof (induction its arbitrary: p)
  case (Cons it its)
  then show ?case by (cases it) (auto split: if_splits)
qed simp

lemma item_instrs_forks:
  "list_all (item_ok f) its \<Longrightarrow>
     list_all (\<lambda>i. \<not> ins_truncated i \<and> (\<exists>s. ins_spec i = Some s \<and> min_fork s \<le> f))
       (item_instrs addr p its)"
proof (induction its arbitrary: p)
  case (Cons it its)
  have "\<exists>s. by_byte 0x5b = Some s \<and> min_fork s \<le> f"
    using by_byte_row [OF jumpdest_row(1)] jumpdest_row by auto
  then show ?case
    using Cons family_byte_ok [of "0x61" f] by (cases it) (auto simp: Let_def)
qed simp

lemma enc_items_refs: "enc_items addr its = Ok code \<Longrightarrow> Ref l \<in> set its \<Longrightarrow> addr l \<noteq> None"
proof (induction its arbitrary: code)
  case (Cons it its)
  then show ?case
    by (cases it) (auto simp: map_ok_Ok_iff split: option.splits)
qed simp

lemma enc_items_no_panic: "enc_items addr its \<noteq> Panic"
proof (induction its)
  case (Cons it its)
  then show ?case by (cases it; cases "enc_items addr its") (auto split: option.splits)
qed simp

lemma assembled:
  assumes "list_all call_ok cs" and "label_calls cs < 2 ^ 32"
    and "asm_run cs (asm_new f) = Some a" and "asm_finish a = Ok code"
  obtains its where "spec_items f [] cs = Inr its" "sim f its a" "link_items its = Ok code"
    "enc_items (item_addr 0 its) its = Ok code" "list_all (item_ok f) its"
    "disassemble code = item_instrs (item_addr 0 its) 0 its"
proof -
  have "\<exists>a'. asm_run cs (asm_new f) = Some a' \<and>
      (case spec_items f [] cs of Inl e \<Rightarrow> asm_error a' = Some e | Inr its' \<Rightarrow> sim f its' a')"
    by (rule sim_run [OF sim_new assms(1)]) (use assms(2) in \<open>simp add: asm_new_def\<close>)
  with assms(3,4) obtain its where its: "spec_items f [] cs = Inr its" and sim: "sim f its a"
    by (auto simp: asm_finish_def split: sum.splits)
  have link: "link_items its = Ok code" using sim_finish [OF sim] assms(4) by simp
  then have enc: "enc_items (item_addr 0 its) its = Ok code"
    by (auto simp: link_items_def Let_def split: if_splits)
  have ok: "list_all (item_ok f) its" using spec_items_ok [OF its] assms(1) by simp
  show ?thesis
    by (rule that [OF its sim link enc ok])
       (simp add: disassemble_decode decode_items [OF enc ok])
qed

text \<open>Any sequence of calls, run and finished, against the reference.\<close>

lemma asm_run_spec:
  assumes "list_all call_ok cs" and "label_calls cs < 2 ^ 32"
  shows "\<exists>a. asm_run cs (asm_new f) = Some a \<and> asm_finish a = assemble_spec f cs \<and>
    asm_finish a \<noteq> Panic"
proof -
  have "\<exists>a'. asm_run cs (asm_new f) = Some a' \<and>
      (case spec_items f [] cs of Inl e \<Rightarrow> asm_error a' = Some e | Inr its' \<Rightarrow> sim f its' a')"
    by (rule sim_run [OF sim_new assms(1)]) (use assms(2) in \<open>simp add: asm_new_def\<close>)
  then obtain a where a: "asm_run cs (asm_new f) = Some a"
    and r: "case spec_items f [] cs of Inl e \<Rightarrow> asm_error a = Some e | Inr its' \<Rightarrow> sim f its' a"
    by auto
  have "asm_finish a = assemble_spec f cs"
  proof (cases "spec_items f [] cs")
    case (Inl e)
    with r show ?thesis by (simp add: assemble_spec_def asm_finish_def)
  next
    case (Inr its)
    with r sim_finish [of f its a] show ?thesis by (simp add: assemble_spec_def)
  qed
  moreover have "assemble_spec f cs \<noteq> Panic"
    by (auto simp: assemble_spec_def link_items_def Let_def enc_items_no_panic split: sum.splits)
  ultimately show ?thesis using a by auto
qed

subsection \<open>Properties of the assembler\<close>

text \<open>C1 The one-pass assembler with back-patching refines the two-pass reference: on every
  sequence of fewer than \<open>2 ^ 32\<close> label reservations it never panics, and \<open>finish\<close> returns the
  reference's bytes, or the reference's first error.\<close>

theorem asm_refines_two_pass:
  assumes "list_all call_ok cs" and "label_calls cs < 2 ^ 32"
  shows "\<exists>a. asm_run cs (asm_new f) = Some a \<and> asm_finish a = assemble_spec f cs \<and>
    asm_finish a \<noteq> Panic"
  by (rule asm_run_spec [OF assms])

text \<open>A program used by the witnesses: a forward jump over a push.\<close>

definition jump_calls :: "asm_call list" where
  "jump_calls =
     [CLabel, CPushLabel (Label 0), COp ''JUMP'', CPush (imm_from_u16 0x5b01), CBind (Label 0),
      COp ''STOP'']"

lemma jump_calls_ok: "list_all call_ok jump_calls" "label_calls jump_calls < 2 ^ 32"
  by (simp_all add: jump_calls_def)

theorem asm_refines_two_pass_witness:
  "\<exists>a. asm_run jump_calls (asm_new Cancun) = Some a \<and>
     asm_finish a = assemble_spec Cancun jump_calls \<and> asm_finish a \<noteq> Panic"
  by (rule asm_refines_two_pass [OF jump_calls_ok])

lemma by_mnemonic_JUMP:
  "by_mnemonic ''JUMP'' = Some (op ''JUMP'' 0x56 1 0 False (GasFixed 8) CatControl Frontier)"
  by (rule by_mnemonic_eval) (simp add: set_OPCODES opcodes_stack_memory_flow_def)

lemma by_mnemonic_STOP:
  "by_mnemonic ''STOP'' = Some (op ''STOP'' 0x00 0 0 True GasZero CatTerminating Frontier)"
  by (rule by_mnemonic_eval) (simp add: set_OPCODES opcodes_stop_arith_def)

lemma spec_push_5b01: "spec_push f 0x5b01 = Raw 0x61 [0x5b, 0x01]"
proof -
  have "nat_width 0x5b01 = Suc (Suc 0)"
    by (simp add: nat_width.simps [of 23297] nat_width.simps [of 91] nat_width.simps [of 0])
  then show ?thesis by (simp add: spec_push_def)
qed

lemma jump_calls_run:
  obtains a where "asm_run jump_calls (asm_new Cancun) = Some a"
    and "asm_finish a = Ok [0x61, 0, 7, 0x56, 0x61, 0x5b, 0x01, 0x5b, 0x00]"
    and "\<lparr>fx_label = Label 0, fx_at = 1\<rparr> \<in> set (asm_fixups a)"
proof -
  have "\<exists>a'. asm_run jump_calls (asm_new Cancun) = Some a' \<and>
      (case spec_items Cancun [] jump_calls of
         Inl e \<Rightarrow> asm_error a' = Some e | Inr its' \<Rightarrow> sim Cancun its' a')"
    by (rule sim_run [OF sim_new jump_calls_ok(1)]) (use jump_calls_ok(2) in \<open>simp add: asm_new_def\<close>)
  moreover have "spec_items Cancun [] jump_calls =
      Inr [Ref (Label 0), Raw 0x56 [], Raw 0x61 [0x5b, 0x01], Dest (Label 0), Raw 0x00 []]"
    by (simp add: jump_calls_def by_mnemonic_JUMP by_mnemonic_STOP imm_from_uint_val spec_push_5b01
        op_def)
  ultimately obtain a where a: "asm_run jump_calls (asm_new Cancun) = Some a"
    and sim: "sim Cancun
      [Ref (Label 0), Raw 0x56 [], Raw 0x61 [0x5b, 0x01], Dest (Label 0), Raw 0x00 []] a"
    by auto
  have "link_items [Ref (Label 0), Raw 0x56 [], Raw 0x61 [0x5b, 0x01], Dest (Label 0), Raw 0x00 []]
      = Ok [0x61, 0, 7, 0x56, 0x61, 0x5b, 0x01, 0x5b, 0x00]"
    by code_simp
  with sim_finish [OF sim] have "asm_finish a = Ok [0x61, 0, 7, 0x56, 0x61, 0x5b, 0x01, 0x5b, 0x00]"
    by simp
  moreover have "\<lparr>fx_label = Label 0, fx_at = 1\<rparr> \<in> set (asm_fixups a)"
    using sim by (simp add: sim_def)
  ultimately show ?thesis using that a by blast
qed

text \<open>C15 Every label reference of a finished program is a PUSH2 whose immediate is the offset its
  label is bound at, and that offset is a legal jump target of the finished code: a bound label
  cannot fail to be one, whatever bytes the program holds.\<close>

theorem finished_jumps_are_legal:
  assumes "list_all call_ok cs" and "label_calls cs < 2 ^ 32"
    and "asm_run cs (asm_new f) = Some a" and "asm_finish a = Ok code"
    and "fx \<in> set (asm_fixups a)"
  shows "\<exists>t i. asm_labels a (fx_label fx) = Some t \<and> t \<in> set (jumpdests code) \<and>
    i \<in> set (disassemble code) \<and> ins_pc i + 1 = fx_at fx \<and> ins_opcode i = 0x61 \<and>
    be_val (ins_immediate i) = t"
proof (rule assembled [OF assms(1-4)])
  fix its
  assume sim: "sim f its a" and link: "link_items its = Ok code"
    and enc: "enc_items (item_addr 0 its) its = Ok code"
    and dis: "disassemble code = item_instrs (item_addr 0 its) 0 its"
  from sim assms(5) have fx: "fx \<in> set (refs 0 its)" by (simp add: sim_def)
  from item_instrs_ref [OF this, of "item_addr 0 its"] obtain i where
    i: "i \<in> set (disassemble code)" "ins_pc i + 1 = fx_at fx" "ins_opcode i = 0x61"
      "ins_immediate i = be_bytes 2 (the (item_addr 0 its (fx_label fx)))"
    and ref: "Ref (fx_label fx) \<in> set its"
    unfolding dis by blast
  from enc_items_refs [OF enc ref] obtain t where t: "item_addr 0 its (fx_label fx) = Some t"
    by auto
  from item_instrs_dest [OF t, of "item_addr 0 its"] obtain d where
    d: "d \<in> set (disassemble code)" "ins_pc d = t" "ins_opcode d = 0x5b"
      "ins_spec d = by_byte 0x5b"
    unfolding dis by blast
  then have "t \<in> set (jumpdests code)"
    by (auto simp: jumpdests_def mnemonic_JUMPDEST_iff)
  moreover have "be_val (ins_immediate i) = t"
    using link ref item_addr_bound [OF t] i(4) t
    by (auto simp: link_items_def Let_def be_val_be_bytes MAX_LABEL_OFFSET_def has_ref_iff
        simp del: be_bytes.simps split: if_splits)
  ultimately show ?thesis using sim t i by (auto simp: sim_def)
qed

theorem finished_jumps_are_legal_witness:
  "\<exists>a t (i :: instruction). asm_run jump_calls (asm_new Cancun) = Some a \<and>
     asm_labels a (Label 0) = Some t \<and>
     t \<in> set (jumpdests [0x61, 0, 7, 0x56, 0x61, 0x5b, 0x01, 0x5b, 0x00]) \<and>
     be_val (ins_immediate i) = t"
proof (rule jump_calls_run)
  fix a
  assume a: "asm_run jump_calls (asm_new Cancun) = Some a"
    "asm_finish a = Ok [0x61, 0, 7, 0x56, 0x61, 0x5b, 0x01, 0x5b, 0x00]"
    "\<lparr>fx_label = Label 0, fx_at = 1\<rparr> \<in> set (asm_fixups a)"
  from finished_jumps_are_legal [OF jump_calls_ok a] a(1) show ?thesis by simp blast
qed

text \<open>C17 A finished program disassembles to exactly the instructions that were requested, every one
  of which exists on the target fork and carries its whole immediate.\<close>

theorem finished_disassembles_to_request:
  assumes "list_all call_ok cs" and "label_calls cs < 2 ^ 32"
    and "asm_run cs (asm_new f) = Some a" and "asm_finish a = Ok code"
  shows "\<exists>its. spec_items f [] cs = Inr its \<and>
    disassemble code = item_instrs (asm_labels a) 0 its \<and>
    list_all (\<lambda>i. \<not> ins_truncated i \<and> (\<exists>s. ins_spec i = Some s \<and> min_fork s \<le> f))
      (disassemble code)"
  by (rule assembled [OF assms]) (simp add: sim_def item_instrs_forks)

theorem finished_disassembles_to_request_witness:
  "\<exists>(a :: asm) its. spec_items Cancun [] jump_calls = Inr its \<and>
     disassemble [0x61, 0, 7, 0x56, 0x61, 0x5b, 0x01, 0x5b, 0x00] =
       item_instrs (asm_labels a) 0 its"
proof (rule jump_calls_run)
  fix a
  assume a: "asm_run jump_calls (asm_new Cancun) = Some a"
    "asm_finish a = Ok [0x61, 0, 7, 0x56, 0x61, 0x5b, 0x01, 0x5b, 0x00]"
  from finished_disassembles_to_request [OF jump_calls_ok a] show ?thesis by blast
qed

text \<open>C23 Errors are sticky: once a call has failed, no later call panics or changes the code or the
  labels, and \<open>finish\<close> reports that first error.\<close>

theorem asm_first_error_wins:
  assumes "asm_error a = Some e" and "unat (asm_next_label a) + label_calls cs < 2 ^ 32"
  shows "\<exists>a'. asm_run cs a = Some a' \<and> asm_finish a' = Err e \<and> asm_code a' = asm_code a \<and>
    asm_labels a' = asm_labels a \<and> asm_fixups a' = asm_fixups a"
proof -
  obtain n where "asm_run cs a = Some (a\<lparr>asm_next_label := n\<rparr>)"
    using run_sticky [OF assms] by auto
  with assms(1) show ?thesis by (simp add: asm_finish_def)
qed

theorem asm_first_error_wins_witness:
  "\<exists>a'. asm_run [COp ''ADD'', CDup 99] (asm_fail (UnknownMnemonic ''NOPE'') (asm_new London)) =
      Some a' \<and> asm_finish a' = Err (UnknownMnemonic ''NOPE'')"
  using asm_first_error_wins [of "asm_fail (UnknownMnemonic ''NOPE'') (asm_new London)"
      "UnknownMnemonic ''NOPE''" "[COp ''ADD'', CDup 99]"]
  by (auto simp: asm_fail_def asm_new_def)

end
