(* ===== verification/Asm_Exec.thy ===== *)
theory Asm_Exec
  imports Asm_Correct
begin

text \<open>
  What an assembled program does. Two machines execute it: the byte machine walks the finished bytes
  as the EVM does (operands read past the end as zeros, jumps checked against the Yellow Paper's valid
  destinations), the request machine walks the requested items, with labels. What a single instruction
  does is the parameter \<open>sem\<close>: any function of the opcode, the operand and the state. The machines run in
  lockstep, so \<open>asm.rs\<close> preserves the meaning of a program, jumps and label addresses included.
\<close>

subsection \<open>The byte machine\<close>

datatype 's effect = Next 's | Jump nat 's | Stop 's

text \<open>The machine is at a position, has ended with a state, or has jumped to an invalid target.\<close>

datatype 's config = At nat 's | Done 's | BadJump

type_synonym 's semantics = "byte \<Rightarrow> byte list \<Rightarrow> 's \<Rightarrow> 's effect"

definition byte_or_zero :: "byte list \<Rightarrow> nat \<Rightarrow> byte" where
  "byte_or_zero code i = (if i < length code then code ! i else 0)"

definition operand :: "byte list \<Rightarrow> nat \<Rightarrow> byte list" where
  "operand code pc =
     map (\<lambda>i. byte_or_zero code (pc + 1 + i)) [0..<yp_next pc (byte_or_zero code pc) - (pc + 1)]"

fun byte_step :: "'s semantics \<Rightarrow> byte list \<Rightarrow> 's config \<Rightarrow> 's config" where
  "byte_step sem code (At pc s) =
     (if length code \<le> pc then Done s
      else case sem (code ! pc) (operand code pc) s of
        Next s' \<Rightarrow> At (yp_next pc (code ! pc)) s'
      | Jump d s' \<Rightarrow> if d \<in> set (yp_jumpdests code 0) then At d s' else BadJump
      | Stop s' \<Rightarrow> Done s')"
| "byte_step sem code c = c"

text \<open>The machine at an instruction whose operand bytes are all there.\<close>

lemma at_split:
  assumes "code = pre @ b # imm @ rest" and "imm_width b = length imm"
  shows "length pre < length code" and "code ! length pre = b"
    and "operand code (length pre) = imm"
    and "yp_next (length pre) b = length pre + Suc (length imm)"
proof -
  show "length pre < length code" and b: "code ! length pre = b" by (simp_all add: assms(1))
  show y: "yp_next (length pre) b = length pre + Suc (length imm)" using assms(2) by (simp add: yp_next_width)
  have "byte_or_zero code (length pre) = b" by (simp add: byte_or_zero_def assms(1))
  then show "operand code (length pre) = imm"
    by (intro nth_equalityI) (simp_all add: operand_def y, simp add: byte_or_zero_def assms(1) nth_append)
qed

lemma byte_step_split:
  assumes "code = pre @ b # imm @ rest" and "imm_width b = length imm" and "pc = length pre"
  shows "sem b imm s = Next s' \<Longrightarrow> pc' = pc + Suc (length imm) \<Longrightarrow> byte_step sem code (At pc s) = At pc' s'"
    and "sem b imm s = Stop s' \<Longrightarrow> byte_step sem code (At pc s) = Done s'"
  using at_split [OF assms(1,2)] by (simp_all add: assms(3))

subsection \<open>The request machine\<close>

text \<open>The position is the index of an item. A label reference pushes the label's address; a jump goes to
  the item at the address, if that item binds a label or is a requested \<open>JUMPDEST\<close>.\<close>

definition item_offset :: "item list \<Rightarrow> nat \<Rightarrow> nat" where
  "item_offset its k = sum_list (map item_size (take k its))"

fun is_target :: "item \<Rightarrow> bool" where
  "is_target (Dest l) = True"
| "is_target (Raw b bs) = (b = 0x5b)"
| "is_target (Ref l) = False"

definition target :: "item list \<Rightarrow> nat \<Rightarrow> nat option" where
  "target its d = List.find (\<lambda>k. item_offset its k = d \<and> is_target (its ! k)) [0..<length its]"

fun item_sem :: "'s semantics \<Rightarrow> item list \<Rightarrow> item \<Rightarrow> 's \<Rightarrow> 's effect" where
  "item_sem sem its (Raw b bs) s = sem b bs s"
| "item_sem sem its (Dest l) s = sem 0x5b [] s"
| "item_sem sem its (Ref l) s = sem 0x61 (be_bytes 2 (the (item_addr 0 its l))) s"

fun item_step :: "'s semantics \<Rightarrow> item list \<Rightarrow> 's config \<Rightarrow> 's config" where
  "item_step sem its (At k s) =
     (if length its \<le> k then Done s
      else case item_sem sem its (its ! k) s of
        Next s' \<Rightarrow> At (k + 1) s'
      | Jump d s' \<Rightarrow> (case target its d of Some j \<Rightarrow> At j s' | None \<Rightarrow> BadJump)
      | Stop s' \<Rightarrow> Done s')"
| "item_step sem its c = c"

text \<open>The configuration of the byte machine a configuration of the request machine stands for.\<close>

fun at_offset :: "item list \<Rightarrow> 's config \<Rightarrow> 's config" where
  "at_offset its (At k s) = At (item_offset its k) s"
| "at_offset its (Done s) = Done s"
| "at_offset its BadJump = BadJump"

subsection \<open>The bytes of the items\<close>

fun item_bytes :: "(label \<rightharpoonup> nat) \<Rightarrow> item \<Rightarrow> byte list" where
  "item_bytes addr (Raw b bs) = b # bs"
| "item_bytes addr (Dest l) = [0x5b]"
| "item_bytes addr (Ref l) = 0x61 # be_bytes 2 (the (addr l))"

lemma length_item_bytes [simp]: "length (item_bytes addr it) = item_size it"
  by (cases it) (simp_all del: be_bytes.simps)

lemma enc_items_bytes: "enc_items addr its = Ok code \<Longrightarrow> code = concat (map (item_bytes addr) its)"
proof (induction its arbitrary: code)
  case (Cons it its)
  then show ?case
    by (cases it) (auto simp: map_ok_Ok_iff simp del: be_bytes.simps split: option.splits)
qed simp

lemma length_items_bytes: "length (concat (map (item_bytes addr) its)) = sum_list (map item_size its)"
  by (induction its) simp_all

lemma item_size_pos: "0 < item_size it"
  by (cases it) simp_all

lemma item_offset_Suc: "k < length its \<Longrightarrow> item_offset its (Suc k) = item_offset its k + item_size (its ! k)"
  by (simp add: item_offset_def take_Suc_conv_app_nth)

lemma item_offset_mono: "j < k \<Longrightarrow> k \<le> length its \<Longrightarrow> item_offset its j < item_offset its k"
proof (induction k)
  case (Suc k)
  have "item_offset its k < item_offset its (Suc k)"
    using Suc.prems(2) item_size_pos [of "its ! k"] by (simp add: item_offset_Suc)
  then show ?case using Suc by (cases "j = k") auto
qed simp

lemma item_offset_inject: "j \<le> length its \<Longrightarrow> k \<le> length its \<Longrightarrow> item_offset its j = item_offset its k \<longleftrightarrow> j = k"
  using item_offset_mono [of j k its] item_offset_mono [of k j its] by (cases j k rule: linorder_cases) auto

lemma item_offset_end: "length its \<le> k \<Longrightarrow> item_offset its k = sum_list (map item_size its)"
  by (simp add: item_offset_def)

text \<open>A finished program: its items, encoded at the addresses of their labels.\<close>

definition finished :: "fork \<Rightarrow> item list \<Rightarrow> byte list \<Rightarrow> bool" where
  "finished f its code \<longleftrightarrow> enc_items (item_addr 0 its) its = Ok code \<and> list_all (item_ok f) its"

lemma finished_drop:
  assumes "finished f its code" "k < length its"
  shows "drop (item_offset its k) code =
    item_bytes (item_addr 0 its) (its ! k) @ drop (item_offset its (Suc k)) code"
proof -
  let ?b = "\<lambda>xs. concat (map (item_bytes (item_addr 0 its)) xs)"
  have c: "code = ?b its" using assms(1) by (simp add: finished_def enc_items_bytes)
  have d: "drop (item_offset its j) code = ?b (drop j its)" for j
  proof -
    have "code = ?b (take j its) @ ?b (drop j its)"
      unfolding c by (metis append_take_drop_id concat_append map_append)
    then show ?thesis using length_items_bytes [of "item_addr 0 its" "take j its"]
      by (simp add: item_offset_def)
  qed
  show ?thesis using assms(2) by (simp add: d Cons_nth_drop_Suc [symmetric])
qed

lemma finished_length: "finished f its code \<Longrightarrow> length code = sum_list (map item_size its)"
  by (auto simp: finished_def length_items_bytes dest: enc_items_bytes)

subsection \<open>Lockstep\<close>

lemma item_bytes_opcode:
  assumes "item_ok f it"
  shows "\<exists>b imm. item_bytes (item_addr 0 its) it = b # imm \<and> imm_width b = length imm
    \<and> item_size it = Suc (length imm) \<and> (is_target it \<longleftrightarrow> b = 0x5b) \<and> item_sem sem its it s = sem b imm s"
proof (cases it)
  case (Ref l)
  show ?thesis
    by (rule exI [of _ "0x61"], rule exI [of _ "be_bytes 2 (the (item_addr 0 its l))"])
       (simp add: Ref del: be_bytes.simps)
qed (use assms in simp_all)

lemma at_item:
  assumes "finished f its code" "k < length its"
  shows "item_offset its k < length code"
    and "item_sem sem its (its ! k) s = sem (code ! item_offset its k) (operand code (item_offset its k)) s"
    and "yp_next (item_offset its k) (code ! item_offset its k) = item_offset its (k + 1)"
    and "is_target (its ! k) \<longleftrightarrow> code ! item_offset its k = 0x5b"
proof -
  let ?p = "item_offset its k"
  have "item_ok f (its ! k)" using assms by (simp add: finished_def list_all_length)
  from item_bytes_opcode [OF this, of its sem s]
  obtain b imm where b: "item_bytes (item_addr 0 its) (its ! k) = b # imm" "imm_width b = length imm"
    "item_size (its ! k) = Suc (length imm)" "is_target (its ! k) \<longleftrightarrow> b = 0x5b"
    "item_sem sem its (its ! k) s = sem b imm s"
    by blast
  obtain rest where d: "drop ?p code = b # imm @ rest"
    using finished_drop [OF assms] b(1) by simp
  then have p: "?p < length code" by (cases "?p < length code") simp_all
  then have "code = take ?p code @ b # imm @ rest" and "length (take ?p code) = ?p"
    using d by (simp_all flip: d)
  note at = at_split [OF this(1) b(2), unfolded this(2)]
  show "?p < length code" by (rule p)
  show "item_sem sem its (its ! k) s = sem (code ! ?p) (operand code ?p) s"
    and "yp_next ?p (code ! ?p) = item_offset its (k + 1)" and "is_target (its ! k) \<longleftrightarrow> code ! ?p = 0x5b"
    using at b(3-5) assms(2) by (simp_all add: item_offset_Suc)
qed

text \<open>The valid destinations are the targets among the items.\<close>

lemma item_instrs_pcs: "map ins_pc (item_instrs addr p its) = map (\<lambda>k. p + item_offset its k) [0..<length its]"
proof (induction its arbitrary: p)
  case (Cons it its)
  have "[0..<length (it # its)] = 0 # map Suc [0..<length its]" by (simp add: map_Suc_upt upt_conv_Cons del: upt_Suc)
  then show ?case using Cons by (simp add: item_offset_def add.assoc del: upt_Suc split: prod.split)
qed simp

lemma finished_destinations:
  assumes "finished f its code"
  shows "d \<in> set (yp_jumpdests code 0) \<longleftrightarrow> (\<exists>k < length its. item_offset its k = d \<and> is_target (its ! k))"
proof -
  have "disassemble code = item_instrs (item_addr 0 its) 0 its"
    using assms decode_items [of "item_addr 0 its" its code f 0] by (simp add: finished_def disassemble_decode)
  then have "starts code = map (item_offset its) [0..<length its]"
    using item_instrs_pcs [of "item_addr 0 its" 0 its] by (simp add: starts_def)
  then have "d \<in> set (jumpdests code) \<longleftrightarrow> (\<exists>k < length its. item_offset its k = d \<and> code ! d = 0x5b)"
    by (auto simp: jumpdests_iff)
  also have "\<dots> \<longleftrightarrow> (\<exists>k < length its. item_offset its k = d \<and> is_target (its ! k))"
    using at_item(4) [OF assms] by auto
  finally show ?thesis
    using yp_jumpdests_decode [of code 0 code] by (simp add: jumpdests_def disassemble_decode)
qed

lemma target_Some_iff:
  "target its d = Some k \<longleftrightarrow> k < length its \<and> item_offset its k = d \<and> is_target (its ! k)"
proof
  assume "target its d = Some k"
  then show "k < length its \<and> item_offset its k = d \<and> is_target (its ! k)"
    using find_Some_set [of _ "[0..<length its]" k] by (fastforce simp: target_def)
next
  assume k: "k < length its \<and> item_offset its k = d \<and> is_target (its ! k)"
  then obtain j where j: "target its d = Some j"
    by (cases "target its d") (auto simp: target_def find_None_iff)
  then have "j < length its \<and> item_offset its j = d"
    using find_Some_set [of _ "[0..<length its]" j] by (fastforce simp: target_def)
  then show "target its d = Some k" using j k item_offset_inject [of j its k] by simp
qed

lemma target_None_iff:
  "target its d = None \<longleftrightarrow> \<not> (\<exists>k < length its. item_offset its k = d \<and> is_target (its ! k))"
  by (auto simp: target_def find_None_iff)

lemma step_lockstep:
  assumes "finished f its code"
  shows "byte_step sem code (at_offset its c) = at_offset its (item_step sem its c)"
proof (cases c)
  case (At k s)
  show ?thesis
  proof (cases "k < length its")
    case False
    then show ?thesis using finished_length [OF assms] by (simp add: At item_offset_end)
  next
    case True
    note i = at_item [OF assms True]
    note e = i(2) [of sem s, symmetric]
    show ?thesis
    proof (cases "item_sem sem its (its ! k) s")
      case (Jump d s')
      have "d \<in> set (yp_jumpdests code 0) \<longleftrightarrow> target its d \<noteq> None"
        by (simp only: finished_destinations [OF assms] target_None_iff not_not)
      moreover have "item_offset its j = d" if "target its d = Some j" for j
        using that by (simp add: target_Some_iff)
      ultimately show ?thesis
        using True i(1) by (cases "target its d") (simp_all add: At e Jump)
    qed (use True i(1,3) in \<open>simp_all add: At e\<close>)
  qed
qed simp_all

lemma run_lockstep:
  assumes "finished f its code"
  shows "(byte_step sem code ^^ n) (at_offset its c) = at_offset its ((item_step sem its ^^ n) c)"
  by (induction n) (simp_all add: step_lockstep [OF assms])

text \<open>A label's address leads to the item that binds it.\<close>

lemma item_addr_offset:
  "item_addr p its l = Some t \<Longrightarrow> \<exists>k < length its. its ! k = Dest l \<and> t = p + item_offset its k"
proof (induction its arbitrary: p)
  case (Cons it its)
  show ?case
  proof (cases "it = Dest l")
    case False
    then obtain k where "k < length its" "its ! k = Dest l" "t = p + item_size it + item_offset its k"
      using Cons.IH [of "p + item_size it"] Cons.prems by auto
    then show ?thesis by (intro exI [of _ "Suc k"]) (simp add: item_offset_def)
  qed (use Cons.prems in \<open>auto simp: item_offset_def\<close>)
qed simp

lemma label_target: "item_addr 0 its l = Some t \<Longrightarrow> \<exists>k. target its t = Some k \<and> its ! k = Dest l"
  using item_addr_offset [of 0 its l t] by (auto simp: target_Some_iff)

subsection \<open>The property\<close>

text \<open>C2 Running a finished program on the EVM's bytes is running the request: for every meaning of the
  single instructions and every number of steps, the byte machine is at the offset of the item the
  request machine is at, with the same state, or has ended alike; and the address every label
  reference pushes is a jump target that leads to the item binding the label.\<close>

theorem assembled_program_runs:
  assumes "list_all call_ok cs" and "label_calls cs < 2 ^ 32"
    and "asm_run cs (asm_new f) = Some a" and "asm_finish a = Ok code"
  shows "\<exists>its. spec_items f [] cs = Inr its \<and>
    (\<forall>sem n s. (byte_step sem code ^^ n) (At 0 s) = at_offset its ((item_step sem its ^^ n) (At 0 s))) \<and>
    (\<forall>l t. asm_labels a l = Some t \<longrightarrow> (\<exists>k. target its t = Some k \<and> its ! k = Dest l))"
proof (rule assembled [OF assms])
  fix its
  assume its: "spec_items f [] cs = Inr its" and sim: "sim f its a"
    and "enc_items (item_addr 0 its) its = Ok code" "list_all (item_ok f) its"
  then have "finished f its code" by (simp add: finished_def)
  from run_lockstep [OF this] have "\<forall>sem n s. (byte_step sem code ^^ n) (At 0 s) =
      at_offset its ((item_step sem its ^^ n) (At 0 s))"
    by (metis at_offset.simps(1) item_offset_def take_0 list.map(1) sum_list.Nil)
  then show ?thesis using its sim label_target by (auto simp: sim_def)
qed

text \<open>A meaning for the instructions of the sample program: a stack of numbers.\<close>

definition demo_sem :: "nat list semantics" where
  "demo_sem b imm st =
     (if 0x5f \<le> b \<and> b \<le> 0x7f then Next (be_val imm # st)
      else if b = 0x56 then (case st of d # st' \<Rightarrow> Jump d st' | [] \<Rightarrow> Stop [])
      else if b = 0x5b then Next st
      else Stop (99 # st))"

theorem assembled_program_runs_witness:
  "\<exists>its. spec_items Cancun [] jump_calls = Inr its \<and>
     at_offset its ((item_step demo_sem its ^^ 4) (At 0 [])) = Done [99]"
proof (rule jump_calls_run)
  fix a
  assume a: "asm_run jump_calls (asm_new Cancun) = Some a"
    "asm_finish a = Ok [0x61, 0, 7, 0x56, 0x61, 0x5b, 0x01, 0x5b, 0x00]"
  have "(byte_step demo_sem [0x61, 0, 7, 0x56, 0x61, 0x5b, 0x01, 0x5b, 0x00] ^^ 4) (At 0 []) = Done [99]"
    by code_simp
  with assembled_program_runs [OF jump_calls_ok a] show ?thesis by metis
qed

end
