(* ===== verification/Link.thy ===== *)
theory Link
  imports Asm_Exec
begin

text \<open>
  \<open>evm-testkit/src/link.rs\<close>: wrapping runtime code in initcode. \<open>deployer\<close> assembles a prologue
  that contains its own length, and searches that length by iterating to a fixpoint;
  \<open>deploy_loop\<close> is that loop, as a partial function so that not ending would be \<open>None\<close>. The
  lemmas show that it ends after at most three rounds, without an error on any fork, and that
  the byte machine of \<open>Asm_Exec\<close>, executing the initcode with the effect of the seven instructions
  the source states in its comment, returns the runtime code.
\<close>

subsection \<open>The code\<close>

definition prologue_calls :: "nat \<Rightarrow> nat \<Rightarrow> asm_call list" where
  "prologue_calls len offset =
     [CPush (imm_from_u64 (of_nat len)), CDup 1, CPush (imm_from_u64 (of_nat offset)),
      CPush (imm_from_u8 0), COp ''CODECOPY'', CPush (imm_from_u8 0), COp ''RETURN'']"

definition assemble_prologue :: "nat \<Rightarrow> nat \<Rightarrow> fork \<Rightarrow> (asm_error, byte list) rust" where
  "assemble_prologue len offset f =
     (case asm_run (prologue_calls len offset) (asm_new f) of
        None \<Rightarrow> Panic
      | Some a \<Rightarrow> asm_finish a)"

partial_function (option) deploy_loop ::
    "byte list \<Rightarrow> fork \<Rightarrow> nat \<Rightarrow> (asm_error, byte list) rust option" where
  "deploy_loop runtime f offset =
     (case assemble_prologue (length runtime) offset f of
        Panic \<Rightarrow> Some Panic
      | Err e \<Rightarrow> Some (Err e)
      | Ok prologue \<Rightarrow>
          if length prologue = offset then Some (Ok (prologue @ runtime))
          else deploy_loop runtime f (length prologue))"

definition deployer :: "byte list \<Rightarrow> fork \<Rightarrow> (asm_error, byte list) rust option" where
  "deployer runtime f = deploy_loop runtime f 0"

subsection \<open>The prologue\<close>

fun raw_bytes :: "item \<Rightarrow> byte list" where
  "raw_bytes (Raw b bs) = b # bs"
| "raw_bytes _ = []"

definition is_raw :: "item \<Rightarrow> bool" where
  "is_raw it \<longleftrightarrow> (case it of Raw _ _ \<Rightarrow> True | _ \<Rightarrow> False)"

lemma link_raw:
  "list_all is_raw its \<Longrightarrow> link_items its = Ok (concat (map raw_bytes its))"
proof -
  assume raw: "list_all is_raw its"
  then have "enc_items addr its = Ok (concat (map raw_bytes its))" for addr
    by (induction its) (auto simp: is_raw_def split: item.splits)
  moreover have "\<not> has_ref its"
    using raw by (auto simp: has_ref_def is_raw_def list_all_iff list_ex_iff split: item.splits)
  ultimately show ?thesis by (simp add: link_items_def)
qed

lemma is_raw_spec_push [simp]: "is_raw (spec_push f v)" "is_raw (Raw b bs)"
  by (simp_all add: is_raw_def spec_push_def)

definition push_size :: "fork \<Rightarrow> nat \<Rightarrow> nat" where
  "push_size f v = length (raw_bytes (spec_push f v))"

lemma push_size: "push_size f v = (if v = 0 then if f < Shanghai then 2 else 1 else 1 + nat_width v)"
  by (simp add: push_size_def spec_push_def)

definition prologue_items :: "fork \<Rightarrow> nat \<Rightarrow> nat \<Rightarrow> item list" where
  "prologue_items f len offset =
     [spec_push f len, Raw 0x80 [], spec_push f offset, spec_push f 0, Raw 0x39 [], spec_push f 0,
      Raw 0xf3 []]"

definition prologue_bytes :: "fork \<Rightarrow> nat \<Rightarrow> nat \<Rightarrow> byte list" where
  "prologue_bytes f len offset = concat (map raw_bytes (prologue_items f len offset))"

lemma by_mnemonic_prologue:
  "by_mnemonic ''CODECOPY'' = Some (op ''CODECOPY'' 0x39 3 0 False (GasPerWord 3) CatContext Frontier)"
  "by_mnemonic ''RETURN'' = Some (op ''RETURN'' 0xf3 2 0 True GasZero CatTerminating Frontier)"
  by (rule by_mnemonic_eval,
      simp add: set_OPCODES opcodes_environment_def opcodes_system_def)+


lemma assemble_prologue_eq:
  assumes "len < 2 ^ 64" and "offset < 2 ^ 64"
  shows "assemble_prologue len offset f = Ok (prologue_bytes f len offset)"
proof -
  let ?cs = "prologue_calls len offset"
  have "spec_items f [] ?cs = Inr (prologue_items f len offset)"
    using assms
    by (simp add: prologue_calls_def prologue_items_def by_mnemonic_prologue op_def
        imm_from_uint_val unat_of_nat take_bit_nat_eq_self less_eq_fork_def)
  moreover have "link_items (prologue_items f len offset) = Ok (prologue_bytes f len offset)"
    by (simp add: link_raw prologue_items_def prologue_bytes_def)
  ultimately have "assemble_spec f ?cs = Ok (prologue_bytes f len offset)"
    by (simp add: assemble_spec_def)
  moreover have "list_all call_ok ?cs" and "label_calls ?cs < 2 ^ 32"
    by (simp_all add: prologue_calls_def)
  ultimately show ?thesis
    using asm_run_spec [of ?cs f] by (auto simp: assemble_prologue_def)
qed

definition fixed_size :: "fork \<Rightarrow> nat \<Rightarrow> nat" where
  "fixed_size f len = push_size f len + 2 * push_size f 0 + 3"

lemma length_prologue: "length (prologue_bytes f len offset) = fixed_size f len + push_size f offset"
  by (simp add: prologue_bytes_def prologue_items_def fixed_size_def flip: push_size_def)

lemma nat_width_u64: "v < 2 ^ 64 \<Longrightarrow> nat_width v \<le> 8"
proof (rule ccontr)
  assume v: "v < 2 ^ 64" and "\<not> nat_width v \<le> 8"
  then have "v \<noteq> 0" and "8 \<le> nat_width v - 1"
    by (cases "v = 0"; simp add: nat_width.simps [of 0])+
  then have "(256 :: nat) ^ 8 \<le> 256 ^ (nat_width v - 1)" by (intro power_increasing) auto
  with nat_width_bounds [of v] \<open>v \<noteq> 0\<close> have "256 ^ 8 \<le> v" by linarith
  with v show False by simp
qed

lemma push_size_byte: "0 < v \<Longrightarrow> v < 256 \<Longrightarrow> push_size f v = 2"
  by (simp add: push_size nat_width.simps [of v] nat_width.simps [of 0])

lemma push_size_bounds:
  "v < 2 ^ 64 \<Longrightarrow> 1 \<le> push_size f v \<and> push_size f v \<le> 9"
  using nat_width_u64 [of v] by (simp add: push_size)

lemma fixed_size_bounds: "len < 2 ^ 64 \<Longrightarrow> 6 \<le> fixed_size f len \<and> fixed_size f len \<le> 16"
  using push_size_bounds [of len f] by (auto simp: fixed_size_def push_size)

text \<open>The loop visits the offsets \<open>0\<close>, \<open>fixed_size + push_size 0\<close> and \<open>fixed_size + 2\<close>, where
  it stops.\<close>

lemma deploy_loop_fixpoint:
  assumes "length runtime < 2 ^ 64"
  shows "deployer runtime f =
    Some (Ok (prologue_bytes f (length runtime) (fixed_size f (length runtime) + 2) @ runtime))"
proof -
  let ?n = "length runtime" and ?k = "fixed_size f (length runtime)"
  note b = fixed_size_bounds [OF assms, of f]
  have step: "deploy_loop runtime f off =
      (let p = prologue_bytes f ?n off in
       if ?k + push_size f off = off then Some (Ok (p @ runtime))
       else deploy_loop runtime f (?k + push_size f off))" if "off < 2 ^ 64" for off
    using assemble_prologue_eq [OF assms that, of f]
    by (simp add: deploy_loop.simps [of _ _ off] length_prologue Let_def)
  have z: "push_size f 0 = 1 \<or> push_size f 0 = 2" by (simp add: push_size)
  have last: "deploy_loop runtime f (?k + 2) = Some (Ok (prologue_bytes f ?n (?k + 2) @ runtime))"
    by (subst step) (use b push_size_byte [of "?k + 2" f] in auto)
  have "deploy_loop runtime f (?k + 1) = deploy_loop runtime f (?k + 2)"
    by (subst step) (use b push_size_byte [of "?k + 1" f] in auto)
  with z have "deploy_loop runtime f (?k + push_size f 0) = deploy_loop runtime f (?k + 2)"
    by auto
  then show ?thesis
    using b last by (simp add: deployer_def step [of 0])
qed

subsection \<open>Executing the initcode\<close>

text \<open>
  The effect of the prologue's instructions on a stack of 256-bit words (top first, at most 1024) and
  the memory, as the comment of \<open>deployer\<close> and the bindings of \<open>evm-sys\<close> state it: \<open>CODECOPY\<close> copies
  code bytes to memory, zeros past the end of the code; \<open>RETURN\<close> ends the execution with a slice of
  memory. Any other instruction, \<open>PUSH0\<close> on a fork before Shanghai, a missing operand or a full stack
  ends it without an output.
\<close>

record frame =
  vstack :: "word256 list"
  memory :: "nat \<Rightarrow> byte"
  returned :: "byte list option"

definition push_word :: "word256 \<Rightarrow> frame \<Rightarrow> frame effect" where
  "push_word x s = (if length (vstack s) < 1024 then Next (s\<lparr>vstack := x # vstack s\<rparr>) else Stop s)"

definition initcode_sem :: "fork \<Rightarrow> byte list \<Rightarrow> frame semantics" where
  "initcode_sem f code b imm s =
     (if b = 0x5f \<and> f < Shanghai then Stop s
      else if 0x5f \<le> b \<and> b \<le> 0x7f then push_word (of_nat (be_val imm)) s
      else if b = 0x80 then (case vstack s of x # st \<Rightarrow> push_word x s | _ \<Rightarrow> Stop s)
      else if b = 0x39
      then (case vstack s of dst # src # len # st \<Rightarrow>
              Next (s\<lparr>vstack := st, memory :=
                (\<lambda>a. if unat dst \<le> a \<and> a < unat dst + unat len
                     then byte_or_zero code (unat src + (a - unat dst)) else memory s a)\<rparr>)
            | _ \<Rightarrow> Stop s)
      else if b = 0xf3
      then (case vstack s of off # len # st \<Rightarrow>
              Stop (s\<lparr>returned := Some (map (memory s) [unat off..<unat off + unat len])\<rparr>)
            | _ \<Rightarrow> Stop s)
      else Stop s)"

text \<open>The output after \<open>n\<close> steps of the byte machine, from an empty stack and any memory.\<close>

definition run_initcode :: "fork \<Rightarrow> nat \<Rightarrow> (nat \<Rightarrow> byte) \<Rightarrow> byte list \<Rightarrow> byte list option" where
  "run_initcode f n mem code =
     (case (byte_step (initcode_sem f code) code ^^ n) (At 0 \<lparr>vstack = [], memory = mem, returned = None\<rparr>) of
        Done s \<Rightarrow> returned s
      | _ \<Rightarrow> None)"

lemma spec_push_run:
  assumes "v < 2 ^ 64"
  obtains b bs where "spec_push f v = Raw b bs" "0x5f \<le> b" "b \<le> 0x7f" "be_val bs = v"
    "imm_width b = length bs" "\<not> (b = 0x5f \<and> f < Shanghai)"
proof (cases "v = 0")
  case True
  then show ?thesis
    using that [of "0x60" "[0]"] that [of "0x5f" "[]"]
    by (cases "f < Shanghai") (simp_all add: spec_push_def imm_width_eq)
next
  case False
  let ?w = "nat_width v"
  have w: "?w \<le> 8" "0 < ?w"
    using nat_width_u64 [OF assms] False by (simp_all add: nat_width.simps [of v])
  then have u: "unat (0x5f + of_nat ?w :: byte) = 0x5f + ?w"
    by (simp add: unat_word_ariths unat_of_nat take_bit_eq_mod)
  show ?thesis
    by (rule that [of "0x5f + of_nat ?w" "be_bytes ?w v"])
       (use False w u nat_width_bounds [of v] in
         \<open>auto simp: spec_push_def be_val_be_bytes word_le_nat_alt imm_width_eq\<close>)
qed

lemma initcode_push:
  "0x5f \<le> b \<Longrightarrow> b \<le> 0x7f \<Longrightarrow> \<not> (b = 0x5f \<and> f < Shanghai) \<Longrightarrow> length st < 1024 \<Longrightarrow>
   initcode_sem f code b imm \<lparr>vstack = st, memory = mem, returned = out\<rparr> =
     Next \<lparr>vstack = of_nat (be_val imm) # st, memory = mem, returned = out\<rparr>"
  by (simp add: initcode_sem_def push_word_def)

lemma unat_u64: "n < 2 ^ 64 \<Longrightarrow> unat (of_nat n :: word256) = n"
  by (simp add: unat_of_nat take_bit_nat_eq_self)

lemma run_prologue:
  assumes n: "length runtime < 2 ^ 64" and offset: "offset < 2 ^ 64"
    and p: "p = prologue_bytes f (length runtime) offset" and "length p = offset"
  shows "run_initcode f 7 mem (p @ runtime) = Some runtime"
proof -
  let ?n = "length runtime" and ?c = "p @ runtime"
  let ?len = "of_nat ?n :: word256" and ?off = "of_nat offset :: word256"
  let ?step = "byte_step (initcode_sem f ?c) ?c"
  let ?at = "\<lambda>pc st m. At pc \<lparr>vstack = st, memory = m, returned = None\<rparr>"
  obtain b1 bs1 where len: "spec_push f ?n = Raw b1 bs1" "0x5f \<le> b1" "b1 \<le> 0x7f" "be_val bs1 = ?n"
    "imm_width b1 = length bs1" "\<not> (b1 = 0x5f \<and> f < Shanghai)" using spec_push_run [OF n] by blast
  obtain b2 bs2 where off: "spec_push f offset = Raw b2 bs2" "0x5f \<le> b2" "b2 \<le> 0x7f"
    "be_val bs2 = offset" "imm_width b2 = length bs2" "\<not> (b2 = 0x5f \<and> f < Shanghai)" using spec_push_run [OF offset] by blast
  obtain b0 bs0 where zero: "spec_push f 0 = Raw b0 bs0" "0x5f \<le> b0" "b0 \<le> 0x7f" "be_val bs0 = 0"
    "imm_width b0 = length bs0" "\<not> (b0 = 0x5f \<and> f < Shanghai)" using spec_push_run [of 0 f] by auto
  have c: "?c = b1 # bs1 @ 0x80 # b2 # bs2 @ b0 # bs0 @ 0x39 # b0 # bs0 @ 0xf3 # runtime"
    unfolding p by (simp add: prologue_bytes_def prologue_items_def len(1) off(1) zero(1))
  have w: "imm_width 0x80 = 0" "imm_width 0x39 = 0" "imm_width 0xf3 = 0"
    by (simp_all add: imm_width_eq)
  note step = byte_step_split [of ?c _ _ _ _ _ "initcode_sem f ?c"]
  define k1 k2 k3 k4 k5 k6 where k:
    "k1 = length (b1 # bs1)"
    "k2 = length (b1 # bs1 @ [0x80])"
    "k3 = length (b1 # bs1 @ 0x80 # b2 # bs2)"
    "k4 = length (b1 # bs1 @ 0x80 # b2 # bs2 @ b0 # bs0)"
    "k5 = length (b1 # bs1 @ 0x80 # b2 # bs2 @ b0 # bs0 @ [0x39])"
    "k6 = length (b1 # bs1 @ 0x80 # b2 # bs2 @ b0 # bs0 @ 0x39 # b0 # bs0)"
  define m where "m a = (if a < ?n then byte_or_zero ?c (offset + a) else mem a)" for a
  have 1: "?step (?at 0 [] mem) = ?at k1 [?len] mem"
    by (rule step(1) [where pre = "[]" and b = "b1" and imm = "bs1"]) (simp_all add: c k len initcode_push)
  have 2: "?step (?at k1 [?len] mem) = ?at k2 [?len, ?len] mem"
    by (rule step(1) [where pre = "b1 # bs1" and b = "0x80" and imm = "[]"]) (simp_all add: c k w initcode_sem_def push_word_def)
  have 3: "?step (?at k2 [?len, ?len] mem) = ?at k3 [?off, ?len, ?len] mem"
    by (rule step(1) [where pre = "b1 # bs1 @ [0x80]" and b = "b2" and imm = "bs2"]) (simp_all add: c k off initcode_push)
  have 4: "?step (?at k3 [?off, ?len, ?len] mem) = ?at k4 [0, ?off, ?len, ?len] mem"
    by (rule step(1) [where pre = "b1 # bs1 @ 0x80 # b2 # bs2" and b = "b0" and imm = "bs0"]) (simp_all add: c k zero initcode_push)
  have 5: "?step (?at k4 [0, ?off, ?len, ?len] mem) = ?at k5 [?len] m"
    by (rule step(1) [where pre = "b1 # bs1 @ 0x80 # b2 # bs2 @ b0 # bs0" and b = "0x39" and imm = "[]"]) (simp_all add: c k w initcode_sem_def unat_u64 [OF n] unat_u64 [OF offset] m_def fun_eq_iff)
  have 6: "?step (?at k5 [?len] m) = ?at k6 [0, ?len] m"
    by (rule step(1) [where pre = "b1 # bs1 @ 0x80 # b2 # bs2 @ b0 # bs0 @ [0x39]" and b = "b0" and imm = "bs0"]) (simp_all add: c k zero initcode_push)
  have 7: "?step (?at k6 [0, ?len] m) = Done \<lparr>vstack = [0, ?len], memory = m, returned = Some (map m [0..<?n])\<rparr>"
    by (rule step(2) [where pre = "b1 # bs1 @ 0x80 # b2 # bs2 @ b0 # bs0 @ 0x39 # b0 # bs0" and b = "0xf3" and imm = "[]"]) (simp_all add: c k w initcode_sem_def unat_u64 [OF n])
  have "map m [0..<?n] = runtime"
    by (rule nth_equalityI) (simp_all add: m_def byte_or_zero_def nth_append flip: assms(4))
  with 1 2 3 4 5 6 7 show ?thesis
    by (simp add: run_initcode_def numeral_eq_Suc funpow_Suc_right del: funpow.simps)
qed

subsection \<open>Properties\<close>

lemma deployer_runs:
  assumes "length runtime < 2 ^ 64"
  shows "\<exists>p. deployer runtime f = Some (Ok (p @ runtime)) \<and> length p \<le> 18 \<and>
    run_initcode f 7 mem (p @ runtime) = Some runtime"
proof -
  let ?k = "fixed_size f (length runtime)"
  let ?p = "prologue_bytes f (length runtime) (?k + 2)"
  note b = fixed_size_bounds [OF assms, of f]
  have len: "length ?p = ?k + 2"
    using b push_size_byte [of "?k + 2" f] by (simp add: length_prologue)
  have "run_initcode f 7 mem (?p @ runtime) = Some runtime"
    by (rule run_prologue [OF assms _ refl len]) (use b in simp)
  with deploy_loop_fixpoint [OF assms] len b show ?thesis by auto
qed

text \<open>C11 \<open>deployer\<close> returns on every runtime code and every fork, without an error: its fixpoint
  iteration ends, the initcode is a prologue of at most 18 bytes followed by the runtime code, and
  the byte machine of the fork ends after seven steps from an empty stack with the runtime code as its output.\<close>

theorem deployer_deploys:
  assumes "length runtime < 2 ^ 64"
  shows "\<exists>p. deployer runtime f = Some (Ok (p @ runtime)) \<and> length p \<le> 18 \<and>
    run_initcode f 7 mem (p @ runtime) = Some runtime"
  by (rule deployer_runs [OF assms])

theorem deployer_deploys_witness:
  "\<exists>p. deployer [0x60, 0x00, 0x56] London = Some (Ok (p @ [0x60, 0x00, 0x56])) \<and>
     run_initcode London 7 (\<lambda>_. 0xff) (p @ [0x60, 0x00, 0x56]) =
       Some [0x60, 0x00, 0x56]"
  using deployer_deploys [of "[0x60, 0x00, 0x56]" London "\<lambda>_. 0xff"] by auto

end
