(* ===== verification/Ir_Types.thy ===== *)
theory Ir_Types
  imports Disasm
begin

text \<open>
  \<open>evm-codegen/src/ir/types.rs\<close>: integer types, the width repair of an instruction and
  signatures. A \<open>u16\<close> width is only ever compared, so it is a \<open>nat\<close> here. The representation
  invariant the module states for the 256-bit stack word is \<open>wf_val\<close>, the meaning of a repair
  \<open>apply_repair\<close>; the lemmas show that the repair chosen for a conversion restores the
  invariant, keeps the value modulo the width, and is left out exactly when it is not needed.
\<close>

subsection \<open>Types\<close>

definition WORD_BITS :: nat where "WORD_BITS = 256"

datatype int_ty = IntTy (bits: nat) (signed: bool)

datatype ty = TInt int_ty | TPtr

definition ty_uint :: "nat \<Rightarrow> ty" where "ty_uint n = TInt (IntTy n False)"
definition ty_sint :: "nat \<Rightarrow> ty" where "ty_sint n = TInt (IntTy n True)"

definition ty_bool :: ty where "ty_bool = ty_uint 1"
definition ty_u8 :: ty where "ty_u8 = ty_uint 8"
definition ty_i8 :: ty where "ty_i8 = ty_sint 8"
definition ty_u16 :: ty where "ty_u16 = ty_uint 16"
definition ty_i16 :: ty where "ty_i16 = ty_sint 16"
definition ty_u32 :: ty where "ty_u32 = ty_uint 32"
definition ty_i32 :: ty where "ty_i32 = ty_sint 32"
definition ty_u64 :: ty where "ty_u64 = ty_uint 64"
definition ty_i64 :: ty where "ty_i64 = ty_sint 64"
definition ty_u128 :: ty where "ty_u128 = ty_uint 128"
definition ty_i128 :: ty where "ty_i128 = ty_sint 128"
definition ty_u256 :: ty where "ty_u256 = ty_uint 256"
definition ty_i256 :: ty where "ty_i256 = ty_sint 256"

lemmas ty_defs = ty_uint_def ty_sint_def ty_bool_def ty_u8_def ty_i8_def ty_u16_def ty_i16_def
  ty_u32_def ty_i32_def ty_u64_def ty_i64_def ty_u128_def ty_i128_def ty_u256_def ty_i256_def

fun as_int :: "ty \<Rightarrow> int_ty" where
  "as_int (TInt i) = i"
| "as_int TPtr = IntTy 32 False"

definition ty_bits :: "ty \<Rightarrow> nat" where "ty_bits t = bits (as_int t)"

definition ty_is_signed :: "ty \<Rightarrow> bool" where "ty_is_signed t = signed (as_int t)"

definition is_well_formed :: "ty \<Rightarrow> bool" where
  "is_well_formed t \<longleftrightarrow> ty_bits t \<ge> 1 \<and> ty_bits t \<le> WORD_BITS"

fun ty_display :: "ty \<Rightarrow> string" where
  "ty_display TPtr = ''ptr''"
| "ty_display (TInt (IntTy n s)) = (if s then ''i'' else ''u'') @ dec_nat n"

text \<open>The derived orders: fields in order, constructors in order.\<close>

instantiation int_ty :: linorder
begin

definition less_eq_int_ty :: "int_ty \<Rightarrow> int_ty \<Rightarrow> bool" where
  "less_eq_int_ty a b \<longleftrightarrow> bits a < bits b \<or> bits a = bits b \<and> signed a \<le> signed b"

definition less_int_ty :: "int_ty \<Rightarrow> int_ty \<Rightarrow> bool" where
  "less_int_ty a b \<longleftrightarrow> bits a < bits b \<or> bits a = bits b \<and> signed a < signed b"

instance
  by standard (auto simp: less_eq_int_ty_def less_int_ty_def int_ty.expand)

end

instantiation ty :: linorder
begin

fun less_eq_ty :: "ty \<Rightarrow> ty \<Rightarrow> bool" where
  "less_eq_ty (TInt a) (TInt b) = (a \<le> b)"
| "less_eq_ty (TInt a) TPtr = True"
| "less_eq_ty TPtr (TInt b) = False"
| "less_eq_ty TPtr TPtr = True"

definition less_ty :: "ty \<Rightarrow> ty \<Rightarrow> bool" where
  "less_ty a b \<longleftrightarrow> a \<le> b \<and> \<not> b \<le> a"

instance
proof
  fix x y z :: ty
  show "(x < y) = (x \<le> y \<and> \<not> y \<le> x)" by (rule less_ty_def)
  show "x \<le> x" by (cases x) auto
  show "x \<le> y \<Longrightarrow> y \<le> z \<Longrightarrow> x \<le> z" by (cases x; cases y; cases z) auto
  show "x \<le> y \<Longrightarrow> y \<le> x \<Longrightarrow> x = y" by (cases x; cases y) auto
  show "x \<le> y \<or> y \<le> x" by (cases x; cases y) auto
qed

end

subsection \<open>Repairs\<close>

datatype repair = RepairNone | RepairMask nat | RepairSext nat

definition repair_mask :: "nat \<Rightarrow> repair" where
  "repair_mask n = (if n \<ge> WORD_BITS then RepairNone else RepairMask n)"

definition repair_sext :: "nat \<Rightarrow> repair" where
  "repair_sext n = (if n \<ge> WORD_BITS then RepairNone else RepairSext n)"

definition for_convert :: "ty \<Rightarrow> ty \<Rightarrow> repair" where
  "for_convert from to =
     (let from = as_int from; to = as_int to in
      if signed to then
        let already = (if signed from then bits from \<le> bits to else bits from < bits to) in
        if already then RepairNone else repair_sext (bits to)
      else if \<not> signed from \<and> bits from \<le> bits to then RepairNone
      else repair_mask (bits to))"

fun repair_display :: "repair \<Rightarrow> string" where
  "repair_display RepairNone = ''norepair''"
| "repair_display (RepairMask n) = ''mask'' @ dec_nat n"
| "repair_display (RepairSext n) = ''sext'' @ dec_nat n"

subsection \<open>Signatures\<close>

record signature =
  sig_params :: "ty list"
  sig_returns :: "ty list"

definition signature_new :: "ty list \<Rightarrow> ty list \<Rightarrow> signature" where
  "signature_new ps rs = \<lparr>sig_params = ps, sig_returns = rs\<rparr>"

fun comma_separated :: "string list \<Rightarrow> string" where
  "comma_separated [] = []"
| "comma_separated [s] = s"
| "comma_separated (s # ss) = s @ '', '' @ comma_separated ss"

definition signature_display :: "signature \<Rightarrow> string" where
  "signature_display s =
     ''('' @ comma_separated (map ty_display (sig_params s)) @ '')'' @
     (case sig_returns s of
        [] \<Rightarrow> []
      | [one] \<Rightarrow> '' -> '' @ ty_display one
      | many \<Rightarrow> '' -> ('' @ comma_separated (map ty_display many) @ '')'')"

subsection \<open>The representation invariant\<close>

definition wf_val :: "ty \<Rightarrow> word256 \<Rightarrow> bool" where
  "wf_val t v \<longleftrightarrow> (\<forall>i \<in> {ty_bits t..<256}. bit v i = (ty_is_signed t \<and> bit v (ty_bits t - 1)))"

fun apply_repair :: "repair \<Rightarrow> word256 \<Rightarrow> word256" where
  "apply_repair RepairNone v = v"
| "apply_repair (RepairMask n) v = v AND mask n"
| "apply_repair (RepairSext n) v = signed_take_bit (n - 1) v"

definition ty_val :: "ty \<Rightarrow> word256 \<Rightarrow> int" where
  "ty_val t v = (if ty_is_signed t then sint v else uint v)"

definition ty_wrap :: "ty \<Rightarrow> int \<Rightarrow> int" where
  "ty_wrap t k = (if ty_is_signed t then signed_take_bit (ty_bits t - 1) k else take_bit (ty_bits t) k)"

definition ty_repair :: "ty \<Rightarrow> repair" where
  "ty_repair t = (if ty_is_signed t then repair_sext (ty_bits t) else repair_mask (ty_bits t))"

lemma word_of_ty_val [simp]: "word_of_int (ty_val t v) = v"
  by (simp add: ty_val_def)

lemma ty_val_inject: "ty_val t v = ty_val t w \<longleftrightarrow> v = w"
  by (metis word_of_ty_val)

lemma sint_signed_take_bit:
  "n \<le> 255 \<Longrightarrow> sint (signed_take_bit n (v :: word256)) = signed_take_bit n (sint v)"
  by (rule bit_eqI) (auto simp: bit_sint_iff bit_signed_take_bit_iff bit_simps min_def)

lemma uint_take_bit_word: "uint (take_bit n (v :: word256)) = take_bit n (uint v)"
  by (rule bit_eqI) (auto simp: bit_simps bit_uint_iff bit_take_bit_iff dest: bit_imp_le_length)

lemma wf_val_iff:
  assumes "is_well_formed t"
  shows "wf_val t v \<longleftrightarrow> ty_wrap t (ty_val t v) = ty_val t v"
proof (cases "ty_is_signed t")
  case True
  have b: "1 \<le> ty_bits t" "ty_bits t \<le> 256" using assms by (simp_all add: is_well_formed_def WORD_BITS_def)
  have "wf_val t v \<longleftrightarrow> signed_take_bit (ty_bits t - 1) v = v"
  proof
    assume wf: "wf_val t v"
    show "signed_take_bit (ty_bits t - 1) v = v"
    proof (rule bit_word_eqI)
      fix n assume n: "n < LENGTH(256)"
      then have "bit (signed_take_bit (ty_bits t - 1) v) n = bit v (min (ty_bits t - 1) n)"
        by (simp add: bit_signed_take_bit_iff)
      also have "\<dots> = bit v n"
      proof (cases "ty_bits t \<le> n")
        case True
        with wf \<open>ty_is_signed t\<close> n show ?thesis by (simp add: wf_val_def)
      next
        case False
        then have "min (ty_bits t - 1) n = n" using b by simp
        then show ?thesis by simp
      qed
      finally show "bit (signed_take_bit (ty_bits t - 1) v) n = bit v n" .
    qed
  next
    assume e: "signed_take_bit (ty_bits t - 1) v = v"
    have "bit v i = bit v (ty_bits t - 1)" if "i \<in> {ty_bits t..<256}" for i
    proof -
      have m: "min (ty_bits t - 1) i = ty_bits t - 1" "i < 256" using that by auto
      have "bit v i = bit (signed_take_bit (ty_bits t - 1) v) i" by (simp only: e)
      also have "\<dots> = bit v (ty_bits t - 1)" using m by (simp only: bit_signed_take_bit_iff) simp
      finally show ?thesis .
    qed
    then show "wf_val t v" using True by (simp add: wf_val_def)
  qed
  also have "\<dots> \<longleftrightarrow> sint (signed_take_bit (ty_bits t - 1) v) = sint v" by (auto dest: signed_word_eqI)
  finally show ?thesis using True b by (simp add: ty_wrap_def ty_val_def sint_signed_take_bit)
next
  case False
  have "wf_val t v \<longleftrightarrow> take_bit (ty_bits t) v = v"
  proof
    assume wf: "wf_val t v"
    show "take_bit (ty_bits t) v = v"
    proof (rule bit_word_eqI)
      fix n assume "n < LENGTH(256)"
      with wf False show "bit (take_bit (ty_bits t) v) n = bit v n"
        by (auto simp: wf_val_def bit_take_bit_iff)
    qed
  next
    assume e: "take_bit (ty_bits t) v = v"
    have "\<not> bit v i" if "i \<in> {ty_bits t..<256}" for i
      using that by (subst e [symmetric]) (simp add: bit_take_bit_iff)
    then show "wf_val t v" using False by (simp add: wf_val_def)
  qed
  also have "\<dots> \<longleftrightarrow> uint (take_bit (ty_bits t) v) = uint v" by (auto dest: unsigned_word_eqI)
  finally show ?thesis using False by (simp add: ty_wrap_def ty_val_def uint_take_bit_word)
qed

lemma ty_val_repair:
  assumes "is_well_formed t"
  shows "ty_val t (apply_repair (ty_repair t) (word_of_int k)) = ty_wrap t k"
proof -
  have b: "1 \<le> ty_bits t" "ty_bits t \<le> 256" using assms by (simp_all add: is_well_formed_def WORD_BITS_def)
  show ?thesis
  proof (cases "ty_is_signed t")
    case True
    have "sint (signed_take_bit (ty_bits t - 1) (word_of_int k :: word256)) = signed_take_bit (ty_bits t - 1) k"
      using b by (simp add: sint_signed_take_bit sint_sbintrunc' min.absorb1)
    moreover have "sint (word_of_int k :: word256) = signed_take_bit 255 k"
      by (simp add: sint_sbintrunc')
    ultimately show ?thesis using True b
      by (auto simp: ty_repair_def repair_sext_def WORD_BITS_def ty_val_def ty_wrap_def)
  next
    case False
    have "uint (take_bit (ty_bits t) (word_of_int k :: word256)) = take_bit (ty_bits t) k"
      using b by (simp add: uint_take_bit_word uint_word_of_int_eq min.absorb1)
    moreover have "uint (word_of_int k :: word256) = take_bit 256 k"
      by (simp add: uint_word_of_int_eq)
    ultimately show ?thesis using False b
      by (auto simp: ty_repair_def repair_mask_def WORD_BITS_def ty_val_def ty_wrap_def take_bit_eq_mask)
  qed
qed

lemma wf_val_range:
  assumes "is_well_formed t"
  shows "wf_val t v \<longleftrightarrow>
    (if ty_is_signed t then - (2 ^ (ty_bits t - 1)) \<le> sint v \<and> sint v < 2 ^ (ty_bits t - 1)
     else uint v < 2 ^ ty_bits t)"
  by (simp add: wf_val_iff [OF assms] ty_wrap_def ty_val_def signed_take_bit_int_eq_self_iff
      take_bit_int_eq_self_iff)

lemma wf_val_full: "ty_bits t = 256 \<Longrightarrow> wf_val t v"
  by (simp add: wf_val_def)

lemma wf_ty_wrap: "is_well_formed t \<Longrightarrow> ty_val t v = ty_wrap t k \<Longrightarrow> wf_val t v"
  by (simp add: wf_val_iff ty_wrap_def)

text \<open>The conversions that need no repair.\<close>

definition subtype :: "ty \<Rightarrow> ty \<Rightarrow> bool" where
  "subtype from to \<longleftrightarrow>
     (if ty_is_signed to
      then if ty_is_signed from then ty_bits from \<le> ty_bits to else ty_bits from < ty_bits to
      else \<not> ty_is_signed from \<and> ty_bits from \<le> ty_bits to)"

lemma for_convert_cases:
  "for_convert from to = (if subtype from to then RepairNone else ty_repair to)"
  by (simp add: for_convert_def subtype_def ty_repair_def ty_is_signed_def ty_bits_def Let_def)

lemma subtype_val:
  assumes "is_well_formed from" "is_well_formed to" "wf_val from v" "subtype from to"
  shows "ty_val to v = ty_wrap to (ty_val from v)"
proof -
  have b: "1 \<le> ty_bits from" "1 \<le> ty_bits to" "ty_bits to \<le> 256"
    using assms(1,2) by (simp_all add: is_well_formed_def WORD_BITS_def)
  have k: "ty_wrap from (ty_val from v) = ty_val from v"
    using assms(1,3) by (simp add: wf_val_iff)
  show ?thesis
  proof (cases "ty_is_signed to")
    case True
    show ?thesis
    proof (cases "ty_is_signed from")
      case signed: True
      then have "signed_take_bit (ty_bits from - 1) (sint v) = sint v"
        using k by (simp add: ty_wrap_def ty_val_def)
      moreover have "(2 :: int) ^ (ty_bits from - 1) \<le> 2 ^ (ty_bits to - 1)"
        using True signed assms(4) by (intro power_increasing) (auto simp: subtype_def)
      ultimately have "signed_take_bit (ty_bits to - 1) (sint v) = sint v"
        unfolding signed_take_bit_int_eq_self_iff by linarith
      then show ?thesis using True signed by (simp add: ty_wrap_def ty_val_def)
    next
      case unsigned: False
      then have u: "take_bit (ty_bits from) (uint v) = uint v" and lt: "ty_bits from < ty_bits to"
        using k True assms(4) by (simp_all add: ty_wrap_def ty_val_def subtype_def)
      have "signed_take_bit n (uint v) = uint v" if "ty_bits from \<le> n" for n
      proof -
        have "signed_take_bit n (take_bit (ty_bits from) (uint v)) = take_bit (ty_bits from) (uint v)"
          using that by (simp add: signed_take_bit_take_bit)
        then show ?thesis by (simp only: u)
      qed
      then show ?thesis using True unsigned lt b
        by (simp add: ty_wrap_def ty_val_def sint_uint)
    qed
  next
    case False
    then have u: "\<not> ty_is_signed from" "ty_bits from \<le> ty_bits to"
      using assms(4) by (simp_all add: subtype_def)
    then have "uint v < 2 ^ ty_bits from" using assms(1,3) by (simp add: wf_val_range)
    also have "(2 :: int) ^ ty_bits from \<le> 2 ^ ty_bits to" using u by (intro power_increasing) auto
    finally have "take_bit (ty_bits to) (uint v) = uint v" by (simp add: take_bit_int_eq_self_iff)
    then show ?thesis using False u by (simp add: ty_wrap_def ty_val_def)
  qed
qed


lemma for_convert_val:
  assumes "is_well_formed from" "is_well_formed to" "wf_val from v"
  shows "ty_val to (apply_repair (for_convert from to) v) = ty_wrap to (ty_val from v)"
proof (cases "subtype from to")
  case True
  then show ?thesis using subtype_val [OF assms True] by (simp add: for_convert_cases)
next
  case False
  then show ?thesis
    using ty_val_repair [OF assms(2), of "ty_val from v"] by (simp add: for_convert_cases)
qed

lemma ty_val_of_int:
  assumes "is_well_formed t" and "ty_wrap t k = k"
  shows "ty_val t (word_of_int k) = k"
proof -
  have "1 \<le> ty_bits t" "ty_bits t \<le> 256"
    using assms(1) by (simp_all add: is_well_formed_def WORD_BITS_def)
  moreover from this have "(2 :: int) ^ (ty_bits t - 1) \<le> 2 ^ 255"
    by (intro power_increasing) auto
  moreover from calculation have "(2 :: int) ^ ty_bits t \<le> 2 ^ 256"
    by (intro power_increasing) auto
  ultimately show ?thesis
    using assms(2)
    by (auto simp: ty_wrap_def ty_val_def sint_sbintrunc' uint_word_of_int_eq
        signed_take_bit_int_eq_self_iff take_bit_int_eq_self_iff split: if_splits)
qed

lemma not_subtype_counterexample:
  assumes "is_well_formed from" "is_well_formed to" "\<not> subtype from to" "ty_bits to < 256"
  obtains v where "wf_val from v" "\<not> wf_val to v"
proof -
  let ?n = "ty_bits from" and ?m = "ty_bits to"
  have b: "1 \<le> ?n" "1 \<le> ?m" "?n \<le> 256"
    using assms(1,2) by (simp_all add: is_well_formed_def WORD_BITS_def)
  define k :: int where
    "k = (if ty_is_signed to then 2 ^ (?m - 1) else if ty_is_signed from then - 1 else 2 ^ ?m)"
  have pm: "- (2 ^ (?n - 1)) \<le> (2 :: int) ^ (?m - 1)" "- 1 < (2 :: int) ^ (?n - 1)"
    by (rule order_trans [of _ 0]) (simp_all add: less_le_trans [of "- 1" 0])
  have from_k: "ty_wrap from k = k"
  proof (cases "ty_is_signed from")
    case signed: True
    have "(2 :: int) ^ (?m - 1) < 2 ^ (?n - 1)" if "ty_is_signed to"
      using that signed assms(3) b by (intro power_strict_increasing) (auto simp: subtype_def)
    with signed pm show ?thesis
      by (auto simp: k_def ty_wrap_def signed_take_bit_int_eq_self_iff)
  next
    case unsigned: False
    have "(2 :: int) ^ (?m - 1) < 2 ^ ?n" if "ty_is_signed to"
      using that unsigned assms(3) b by (intro power_strict_increasing) (auto simp: subtype_def)
    moreover have "(2 :: int) ^ ?m < 2 ^ ?n" if "\<not> ty_is_signed to"
      using that unsigned assms(3) b by (intro power_strict_increasing) (auto simp: subtype_def)
    ultimately show ?thesis using unsigned
      by (auto simp: k_def ty_wrap_def take_bit_int_eq_self_iff)
  qed
  have fk: "ty_val from (word_of_int k) = k" by (rule ty_val_of_int [OF assms(1) from_k])
  have "wf_val from (word_of_int k)" by (simp add: wf_val_iff [OF assms(1)] fk from_k)
  moreover have "\<not> wf_val to (word_of_int k)"
  proof (cases "ty_is_signed to")
    case True
    have "(2 :: int) ^ (?m - 1) < 2 ^ 255" using assms(4) b by (intro power_strict_increasing) auto
    moreover have k: "k = 2 ^ (?m - 1)" and "0 \<le> k" using True by (simp_all add: k_def)
    ultimately have "signed_take_bit 255 k = k"
      unfolding signed_take_bit_int_eq_self_iff by linarith
    then have "sint (word_of_int k :: word256) = k" by (simp add: sint_sbintrunc')
    then show ?thesis using True k by (simp only: wf_val_range [OF assms(2)]) simp
  next
    case False
    have lt: "(2 :: int) ^ ?m < 2 ^ 256" using assms(4) by (intro power_strict_increasing) auto
    then have "uint (word_of_int k :: word256) = (if ty_is_signed from then 2 ^ 256 - 1 else 2 ^ ?m)"
      using False by (simp add: k_def uint_word_of_int_eq take_bit_int_eq_self_iff mask_eq_exp_minus_1
          assms(4))
    with lt have "\<not> uint (word_of_int k :: word256) < 2 ^ ?m" by auto
    then show ?thesis using False by (simp add: wf_val_range [OF assms(2)])
  qed
  ultimately show ?thesis by (rule that)
qed

text \<open>C12 A conversion preserves the representation invariant and the value modulo the destination
  width: of a well-formed value of the source type it makes the well-formed value of the
  destination type that the Rust cast has.\<close>

theorem for_convert_sound:
  assumes "is_well_formed from" "is_well_formed to" "wf_val from v"
  shows "wf_val to (apply_repair (for_convert from to) v) \<and>
    ty_val to (apply_repair (for_convert from to) v) = ty_wrap to (ty_val from v)"
  using for_convert_val [OF assms] wf_ty_wrap [OF assms(2)] by blast

theorem for_convert_sound_witness:
  "wf_val ty_i8 (apply_repair (for_convert ty_u8 ty_i8) 0xff) \<and>
   ty_val ty_i8 (apply_repair (for_convert ty_u8 ty_i8) 0xff) = - 1"
proof -
  have "wf_val ty_u8 0xff"
    by (simp add: wf_val_range is_well_formed_def WORD_BITS_def ty_defs ty_bits_def ty_is_signed_def)
  moreover have "ty_wrap ty_i8 (ty_val ty_u8 0xff) = - 1"
    by (simp add: ty_wrap_def ty_val_def ty_defs ty_bits_def ty_is_signed_def)
  ultimately show ?thesis
    using for_convert_sound [of ty_u8 ty_i8 "0xff"]
    by (simp add: is_well_formed_def WORD_BITS_def ty_defs ty_bits_def ty_is_signed_def)
qed

text \<open>C19 A conversion emits nothing exactly when nothing is needed: \<open>for_convert\<close> chooses no repair
  if and only if every well-formed value of the source type already is one of the destination
  type.\<close>

theorem for_convert_minimal:
  assumes "is_well_formed from" "is_well_formed to"
  shows "for_convert from to = RepairNone \<longleftrightarrow> (\<forall>v. wf_val from v \<longrightarrow> wf_val to v)"
proof (cases "subtype from to \<or> ty_bits to = 256")
  case True
  then have "for_convert from to = RepairNone"
    by (auto simp: for_convert_cases ty_repair_def repair_mask_def repair_sext_def WORD_BITS_def)
  then show ?thesis
    using for_convert_val [OF assms] wf_ty_wrap [OF assms(2)] by auto
next
  case False
  then have lt: "ty_bits to < 256" using assms(2) by (simp add: is_well_formed_def WORD_BITS_def)
  then have "for_convert from to \<noteq> RepairNone"
    using False
    by (simp add: for_convert_cases ty_repair_def repair_mask_def repair_sext_def WORD_BITS_def)
  with False lt show ?thesis using not_subtype_counterexample [OF assms] by blast
qed

theorem for_convert_minimal_witness:
  "for_convert ty_u8 ty_i32 = RepairNone \<longleftrightarrow> (\<forall>v. wf_val ty_u8 v \<longrightarrow> wf_val ty_i32 v)"
  by (rule for_convert_minimal)
     (simp_all add: is_well_formed_def WORD_BITS_def ty_defs ty_bits_def)

end
