(* ===== verification/Effects.thy ===== *)
theory Effects
  imports Isa
begin

text \<open>
  \<open>evm-codegen/src/ir/effect.rs\<close>: what an operation can observe or disturb, a set of nine flags
  in a \<open>u16\<close>. \<open>of_opcode\<close> derives the effects of a raw opcode from the instruction table. The
  lemmas show that the bit operations are those of the sets of flags, and that on every row of
  the table the answer agrees with the table's predicates.
\<close>

subsection \<open>The set of flags\<close>

datatype effects = Effects (eff_bits: "16 word")

definition PURE :: effects where "PURE = Effects 0"
definition READS_MEMORY :: effects where "READS_MEMORY = Effects (push_bit 0 1)"
definition WRITES_MEMORY :: effects where "WRITES_MEMORY = Effects (push_bit 1 1)"
definition READS_STORAGE :: effects where "READS_STORAGE = Effects (push_bit 2 1)"
definition WRITES_STORAGE :: effects where "WRITES_STORAGE = Effects (push_bit 3 1)"
definition READS_TRANSIENT :: effects where "READS_TRANSIENT = Effects (push_bit 4 1)"
definition WRITES_TRANSIENT :: effects where "WRITES_TRANSIENT = Effects (push_bit 5 1)"
definition READS_CONTEXT :: effects where "READS_CONTEXT = Effects (push_bit 6 1)"
definition LOGS :: effects where "LOGS = Effects (push_bit 7 1)"
definition EXTERNAL :: effects where "EXTERNAL = Effects (push_bit 8 1)"
definition EFF_ALL :: effects where "EFF_ALL = Effects 0x01ff"

lemmas effect_defs = PURE_def READS_MEMORY_def WRITES_MEMORY_def READS_STORAGE_def
  WRITES_STORAGE_def READS_TRANSIENT_def WRITES_TRANSIENT_def READS_CONTEXT_def LOGS_def
  EXTERNAL_def EFF_ALL_def

definition eff_union :: "effects \<Rightarrow> effects \<Rightarrow> effects" where
  "eff_union a b = Effects (eff_bits a OR eff_bits b)"

definition eff_contains :: "effects \<Rightarrow> effects \<Rightarrow> bool" where
  "eff_contains a b \<longleftrightarrow> eff_bits a AND eff_bits b = eff_bits b"

definition eff_intersects :: "effects \<Rightarrow> effects \<Rightarrow> bool" where
  "eff_intersects a b \<longleftrightarrow> eff_bits a AND eff_bits b \<noteq> 0"

definition eff_is_pure :: "effects \<Rightarrow> bool" where
  "eff_is_pure a \<longleftrightarrow> eff_bits a = 0"

definition is_removable :: "effects \<Rightarrow> bool" where
  "is_removable a \<longleftrightarrow> eff_is_pure a"

subsection \<open>Effects of a raw opcode\<close>

definition of_opcode :: "op_spec \<Rightarrow> effects" where
  "of_opcode s =
     (let b = byte s in
      if b = 0x20 then READS_MEMORY
      else if b = 0x51 then READS_MEMORY
      else if b = 0x52 \<or> b = 0x53 then WRITES_MEMORY
      else if b = 0x59 then READS_MEMORY
      else if b = 0x5e then eff_union READS_MEMORY WRITES_MEMORY
      else if b = 0x37 \<or> b = 0x39 \<or> b = 0x3c \<or> b = 0x3e then eff_union READS_CONTEXT WRITES_MEMORY
      else if b = 0x54 then READS_STORAGE
      else if b = 0x55 then WRITES_STORAGE
      else if b = 0x5c then READS_TRANSIENT
      else if b = 0x5d then WRITES_TRANSIENT
      else case category s of
          CatArithmetic \<Rightarrow> PURE | CatComparison \<Rightarrow> PURE | CatBitwise \<Rightarrow> PURE
        | CatStackManip \<Rightarrow> PURE
        | CatContext \<Rightarrow> READS_CONTEXT | CatBlock \<Rightarrow> READS_CONTEXT
        | CatMemory \<Rightarrow> eff_union READS_MEMORY WRITES_MEMORY
        | CatStorage \<Rightarrow> eff_union READS_STORAGE WRITES_STORAGE
        | CatLog \<Rightarrow> eff_union LOGS READS_MEMORY
        | CatCall \<Rightarrow> eff_union (eff_union EXTERNAL READS_MEMORY) WRITES_MEMORY
        | CatControl \<Rightarrow> EFF_ALL | CatTerminating \<Rightarrow> EFF_ALL)"

subsection \<open>Display\<close>

definition effect_names :: "(effects \<times> string) list" where
  "effect_names =
     [(READS_MEMORY, ''rmem''), (WRITES_MEMORY, ''wmem''), (READS_STORAGE, ''rsto''),
      (WRITES_STORAGE, ''wsto''), (READS_TRANSIENT, ''rtra''), (WRITES_TRANSIENT, ''wtra''),
      (READS_CONTEXT, ''rctx''), (LOGS, ''log''), (EXTERNAL, ''extern'')]"

fun effects_loop :: "effects \<Rightarrow> bool \<Rightarrow> (effects \<times> string) list \<Rightarrow> string" where
  "effects_loop e first [] = []"
| "effects_loop e first ((f, name) # fs) =
     (if eff_contains e f then (if first then [] else ''|'') @ name @ effects_loop e False fs
      else effects_loop e first fs)"

definition effects_display :: "effects \<Rightarrow> string" where
  "effects_display e = (if eff_is_pure e then ''pure'' else effects_loop e True effect_names)"

subsection \<open>The flags as a set\<close>

definition flags :: "effects \<Rightarrow> nat set" where
  "flags e = {i. i < 16 \<and> bit (eff_bits e) i}"

lemma flags_union [simp]: "flags (eff_union a b) = flags a \<union> flags b"
  by (auto simp: flags_def eff_union_def bit_simps)

lemma flags_contains: "eff_contains a b \<longleftrightarrow> flags b \<subseteq> flags a"
  by (auto simp: flags_def eff_contains_def bit_eq_iff bit_simps)

lemma flags_intersects: "eff_intersects a b \<longleftrightarrow> flags a \<inter> flags b \<noteq> {}"
  by (auto simp: flags_def eff_intersects_def bit_eq_iff bit_simps)

lemma flags_pure: "eff_is_pure a \<longleftrightarrow> flags a = {}"
  by (auto simp: flags_def eff_is_pure_def bit_eq_iff)

lemma flags_inject: "flags a = flags b \<longleftrightarrow> a = b"
  by (cases a; cases b) (auto simp: flags_def bit_eq_iff)


subsection \<open>Agreement with the table\<close>

text \<open>The effects that change something outside the operand stack.\<close>

definition writes :: effects where
  "writes = eff_union (eff_union WRITES_MEMORY WRITES_STORAGE)
     (eff_union WRITES_TRANSIENT (eff_union LOGS EXTERNAL))"

definition storage_reads :: effects where "storage_reads = eff_union READS_STORAGE READS_TRANSIENT"

definition storage_writes :: effects where
  "storage_writes = eff_union WRITES_STORAGE WRITES_TRANSIENT"

text \<open>What the classification of one row has to satisfy.\<close>

definition effects_ok :: "op_spec \<Rightarrow> bool" where
  "effects_ok s \<longleftrightarrow>
     (is_removable (of_opcode s) \<longleftrightarrow> is_pure_op s \<or> is_stack_manip s) \<and>
     (reads_storage s \<longrightarrow> eff_intersects (of_opcode s) storage_reads \<and>
        \<not> eff_intersects (of_opcode s) writes) \<and>
     (writes_storage s \<longrightarrow> eff_intersects (of_opcode s) storage_writes) \<and>
     (stack_out s = 0 \<and> \<not> is_stack_manip s \<longrightarrow> eff_intersects (of_opcode s) writes) \<and>
     (category s = CatCall \<longrightarrow> eff_contains (of_opcode s) EXTERNAL) \<and>
     (terminating s \<longrightarrow> of_opcode s = EFF_ALL) \<and>
     eff_contains EFF_ALL (of_opcode s)"

lemmas effects_eval = effects_ok_def of_opcode_def is_removable_def eff_is_pure_def eff_union_def
  eff_intersects_def eff_contains_def effect_defs writes_def storage_reads_def storage_writes_def
  is_pure_op_def is_stack_manip_def reads_storage_def writes_storage_def

lemma effects_ok_rows:
  "list_all effects_ok opcodes_stop_arith" "list_all effects_ok opcodes_comparison_bitwise"
  "list_all effects_ok opcodes_keccak" "list_all effects_ok opcodes_environment"
  "list_all effects_ok opcodes_block_info" "list_all effects_ok opcodes_stack_memory_flow"
  "list_all effects_ok opcodes_push" "list_all effects_ok opcodes_dup"
  "list_all effects_ok opcodes_swap" "list_all effects_ok opcodes_logging"
  "list_all effects_ok opcodes_system"
  by (simp_all add: opcode_rows row_defs effects_eval)

lemma effects_ok_OPCODES: "s \<in> set OPCODES \<Longrightarrow> effects_ok s"
  using effects_ok_rows unfolding OPCODES_def set_append list_all_iff by blast

text \<open>C35 On every row of the instruction table the classification is sound: an opcode may be removed
  exactly when it is arithmetic, a comparison, bitwise or a stack shuffle; storage readers read
  storage and disturb nothing; storage writers write it; an opcode without a result has an
  observable effect; calls are barriers; and a terminating opcode has every effect.\<close>

theorem of_opcode_sound:
  assumes "s \<in> set OPCODES"
  shows "(is_removable (of_opcode s) \<longleftrightarrow> is_pure_op s \<or> is_stack_manip s) \<and>
    (reads_storage s \<longrightarrow> eff_intersects (of_opcode s) storage_reads \<and>
       \<not> eff_intersects (of_opcode s) writes) \<and>
    (writes_storage s \<longrightarrow> eff_intersects (of_opcode s) storage_writes) \<and>
    (stack_out s = 0 \<and> \<not> is_stack_manip s \<longrightarrow> eff_intersects (of_opcode s) writes) \<and>
    (category s = CatCall \<longrightarrow> eff_contains (of_opcode s) EXTERNAL) \<and>
    (terminating s \<longrightarrow> of_opcode s = EFF_ALL)"
  using effects_ok_OPCODES [OF assms] by (simp add: effects_ok_def)

theorem of_opcode_sound_witness:
  "is_removable (of_opcode (op ''ADD'' 0x01 2 1 False (GasFixed 3) CatArithmetic Frontier))"
proof -
  let ?s = "op ''ADD'' 0x01 2 1 False (GasFixed 3) CatArithmetic Frontier"
  have "?s \<in> set OPCODES" by (simp add: set_OPCODES opcodes_stop_arith_def)
  from of_opcode_sound [OF this] show ?thesis by (simp add: is_pure_op_def op_def)
qed

text \<open>The effects form the lattice of sets of the nine flags: \<open>union\<close>, \<open>contains\<close>,
  \<open>intersects\<close> and \<open>is_removable\<close> on the bits are union, inclusion, overlap and emptiness of the
  sets they stand for, and \<open>contains\<close> decides whether \<open>union\<close> adds anything.\<close>

theorem effects_are_sets:
  "flags (eff_union a b) = flags a \<union> flags b \<and>
   (eff_contains a b \<longleftrightarrow> flags b \<subseteq> flags a) \<and>
   (eff_intersects a b \<longleftrightarrow> flags a \<inter> flags b \<noteq> {}) \<and>
   (is_removable a \<longleftrightarrow> flags a = {}) \<and>
   (eff_contains a b \<longleftrightarrow> eff_union a b = a)"
  by (auto simp: flags_union flags_contains flags_intersects flags_pure is_removable_def
      simp flip: flags_inject)

end
