(* ===== verification/Ir_Inst.thy ===== *)
theory Ir_Inst
  imports Ir_Types Effects "HOL-Library.Signed_Division"
begin

text \<open>
  \<open>evm-codegen/src/ir/entity.rs\<close> and \<open>ir/inst.rs\<close>: entity references, operations, instructions
  and terminators. The lemmas show that an entity is its arena index modulo \<open>2 ^ 32\<close>, and that
  the repair \<open>default_repair\<close> chooses for an operation restores the representation invariant:
  the repaired stack word is the mathematical result wrapped to the type. The 256-bit
  operations the EVM performs are \<open>raw_op\<close>, as \<open>inst.rs\<close> and the bindings of \<open>evm-sys\<close> state
  them; the lowering itself (the stackifier) is not in the repository.
\<close>

subsection \<open>Entities (entity.rs)\<close>

datatype vref = Value "32 word"
datatype iref = Inst "32 word"
datatype bref = Block "32 word"
datatype fref = Func "32 word"

definition value_new :: "nat \<Rightarrow> vref" where "value_new i = Value (of_nat i)"
definition inst_new :: "nat \<Rightarrow> iref" where "inst_new i = Inst (of_nat i)"
definition block_new :: "nat \<Rightarrow> bref" where "block_new i = Block (of_nat i)"
definition func_new :: "nat \<Rightarrow> fref" where "func_new i = Func (of_nat i)"

primrec value_index :: "vref \<Rightarrow> nat" where "value_index (Value w) = unat w"
primrec inst_index :: "iref \<Rightarrow> nat" where "inst_index (Inst w) = unat w"
primrec block_index :: "bref \<Rightarrow> nat" where "block_index (Block w) = unat w"
primrec func_index :: "fref \<Rightarrow> nat" where "func_index (Func w) = unat w"

definition value_display :: "vref \<Rightarrow> string" where "value_display v = ''v'' @ dec_nat (value_index v)"
definition inst_display :: "iref \<Rightarrow> string" where "inst_display i = ''i'' @ dec_nat (inst_index i)"
definition block_display :: "bref \<Rightarrow> string" where
  "block_display b = ''block'' @ dec_nat (block_index b)"
definition func_display :: "fref \<Rightarrow> string" where "func_display f = ''@f'' @ dec_nat (func_index f)"

text \<open>What the \<open>entity!\<close> macro promises of the newtypes it declares.\<close>

locale entity =
  fixes mk :: "nat \<Rightarrow> 'e" and idx :: "'e \<Rightarrow> nat"
  assumes idx_mk: "idx (mk i) = i mod 2 ^ 32"
    and mk_idx: "mk (idx e) = e"
begin

lemma idx_bound: "idx e < 2 ^ 32"
  by (metis idx_mk mk_idx mod_less_divisor zero_less_numeral zero_less_power)

lemma idx_mk_id: "i < 2 ^ 32 \<Longrightarrow> idx (mk i) = i"
  by (simp add: idx_mk)

lemma idx_inject: "idx a = idx b \<longleftrightarrow> a = b"
  by (metis mk_idx)

lemma mk_inject: "i < 2 ^ 32 \<Longrightarrow> j < 2 ^ 32 \<Longrightarrow> mk i = mk j \<longleftrightarrow> i = j"
  by (metis idx_mk_id)

lemma distinct_mk: "n \<le> 2 ^ 32 \<Longrightarrow> distinct (map mk [0..<n])"
  by (auto simp: distinct_map inj_on_def mk_inject)

end

interpretation vent: entity value_new value_index
proof
  show "value_index (value_new i) = i mod 2 ^ 32" for i
    by (simp add: value_new_def unat_of_nat take_bit_eq_mod)
  show "value_new (value_index e) = e" for e
    by (cases e) (simp add: value_new_def)
qed

interpretation ient: entity inst_new inst_index
proof
  show "inst_index (inst_new i) = i mod 2 ^ 32" for i
    by (simp add: inst_new_def unat_of_nat take_bit_eq_mod)
  show "inst_new (inst_index e) = e" for e
    by (cases e) (simp add: inst_new_def)
qed

interpretation bent: entity block_new block_index
proof
  show "block_index (block_new i) = i mod 2 ^ 32" for i
    by (simp add: block_new_def unat_of_nat take_bit_eq_mod)
  show "block_new (block_index e) = e" for e
    by (cases e) (simp add: block_new_def)
qed

interpretation fent: entity func_new func_index
proof
  show "func_index (func_new i) = i mod 2 ^ 32" for i
    by (simp add: func_new_def unat_of_nat take_bit_eq_mod)
  show "func_new (func_index e) = e" for e
    by (cases e) (simp add: func_new_def)
qed

subsection \<open>Operations (inst.rs)\<close>

datatype cmp = CmpEq | CmpNe | CmpLt | CmpLe | CmpGt | CmpGe

datatype ir_op =
    OConst immediate
  | OAdd | OSub | OMul | ODiv | ORem | OAddMod | OMulMod | OExp
  | OAddOverflow | OSubOverflow | OMulOverflow
  | OAnd | OOr | OXor | ONot | OShl | OShr | OSar | OExtractByte
  | OConvert
  | OIcmp cmp
  | OSelect
  | OAlloca "32 word"
  | OLoad | OStore | OMemCopy
  | OSLoad | OSStore | OTLoad | OTStore
  | OOpcode op_spec
  | OCall fref

definition default_repair :: "ir_op \<Rightarrow> ty \<Rightarrow> repair" where
  "default_repair x t =
     (let i = as_int t;
          general = (if signed i then repair_sext (bits i) else repair_mask (bits i)) in
      case x of
        OIcmp _ \<Rightarrow> RepairNone
      | OConst _ \<Rightarrow> RepairNone
      | OSelect \<Rightarrow> RepairNone | OCall _ \<Rightarrow> RepairNone | OAlloca _ \<Rightarrow> RepairNone
      | OAnd \<Rightarrow> RepairNone | OOr \<Rightarrow> RepairNone | OXor \<Rightarrow> RepairNone
      | ONot \<Rightarrow> if signed i then RepairNone else general
      | ODiv \<Rightarrow> if \<not> signed i then RepairNone else general
      | ORem \<Rightarrow> if \<not> signed i then RepairNone else general
      | OShr \<Rightarrow> if \<not> signed i then RepairNone else general
      | _ \<Rightarrow> general)"

definition op_effects :: "ir_op \<Rightarrow> effects" where
  "op_effects x =
     (case x of
        OAlloca _ \<Rightarrow> WRITES_MEMORY
      | OLoad \<Rightarrow> READS_MEMORY
      | OStore \<Rightarrow> WRITES_MEMORY
      | OMemCopy \<Rightarrow> eff_union READS_MEMORY WRITES_MEMORY
      | OSLoad \<Rightarrow> READS_STORAGE
      | OSStore \<Rightarrow> WRITES_STORAGE
      | OTLoad \<Rightarrow> READS_TRANSIENT
      | OTStore \<Rightarrow> WRITES_TRANSIENT
      | OOpcode s \<Rightarrow> of_opcode s
      | OCall _ \<Rightarrow> EFF_ALL
      | _ \<Rightarrow> PURE)"

fun cmp_name :: "cmp \<Rightarrow> string" where
  "cmp_name CmpEq = ''eq''" | "cmp_name CmpNe = ''ne''" | "cmp_name CmpLt = ''lt''"
| "cmp_name CmpLe = ''le''" | "cmp_name CmpGt = ''gt''" | "cmp_name CmpGe = ''ge''"

fun op_name :: "ir_op \<Rightarrow> string" where
  "op_name (OConst _) = ''const''"
| "op_name OAdd = ''add''" | "op_name OSub = ''sub''" | "op_name OMul = ''mul''"
| "op_name ODiv = ''div''" | "op_name ORem = ''rem''" | "op_name OAddMod = ''addmod''"
| "op_name OMulMod = ''mulmod''" | "op_name OExp = ''exp''"
| "op_name OAddOverflow = ''add.overflow''" | "op_name OSubOverflow = ''sub.overflow''"
| "op_name OMulOverflow = ''mul.overflow''"
| "op_name OAnd = ''and''" | "op_name OOr = ''or''" | "op_name OXor = ''xor''"
| "op_name ONot = ''not''" | "op_name OShl = ''shl''" | "op_name OShr = ''shr''"
| "op_name OSar = ''sar''" | "op_name OExtractByte = ''byte''" | "op_name OConvert = ''convert''"
| "op_name (OIcmp c) = cmp_name c"
| "op_name OSelect = ''select''" | "op_name (OAlloca _) = ''alloca''" | "op_name OLoad = ''load''"
| "op_name OStore = ''store''" | "op_name OMemCopy = ''memcopy''" | "op_name OSLoad = ''sload''"
| "op_name OSStore = ''sstore''" | "op_name OTLoad = ''tload''" | "op_name OTStore = ''tstore''"
| "op_name (OOpcode s) = mnemonic s" | "op_name (OCall _) = ''call''"

text \<open>\<open>usize::MAX\<close>, the answer for a call, whose results only the callee's signature knows.\<close>

definition usize_max :: nat where "usize_max = 2 ^ 64 - 1"

definition result_count :: "ir_op \<Rightarrow> nat" where
  "result_count x =
     (case x of
        OAddOverflow \<Rightarrow> 2 | OSubOverflow \<Rightarrow> 2 | OMulOverflow \<Rightarrow> 2
      | OStore \<Rightarrow> 0 | OSStore \<Rightarrow> 0 | OTStore \<Rightarrow> 0 | OMemCopy \<Rightarrow> 0
      | OOpcode s \<Rightarrow> unat (stack_out s)
      | OCall _ \<Rightarrow> usize_max
      | _ \<Rightarrow> 1)"

subsection \<open>Instructions and terminators\<close>

record inst_data =
  id_op :: ir_op
  id_ty :: ty
  id_repair :: repair
  id_args :: "vref list"
  id_results :: "vref list"
  id_note :: "string option"

record block_call =
  bc_block :: bref
  bc_args :: "vref list"

definition block_call_new :: "bref \<Rightarrow> vref list \<Rightarrow> block_call" where
  "block_call_new b as = \<lparr>bc_block = b, bc_args = as\<rparr>"

datatype terminator =
    Jump block_call
  | Brif vref block_call block_call
  | Switch vref "(immediate \<times> block_call) list" block_call
  | Return "vref list"
  | Stop
  | ReturnData vref vref
  | Revert vref vref
  | SelfDestruct vref
  | Invalid
  | Unreachable

fun block_calls :: "terminator \<Rightarrow> block_call list" where
  "block_calls (Jump target) = [target]"
| "block_calls (Brif c t e) = [t, e]"
| "block_calls (Switch on cases def) = map snd cases @ [def]"
| "block_calls _ = []"

definition term_own_args :: "terminator \<Rightarrow> vref list" where
  "term_own_args t =
     (case t of
        Brif c _ _ \<Rightarrow> [c]
      | Switch on _ _ \<Rightarrow> [on]
      | Return vs \<Rightarrow> vs
      | ReturnData p l \<Rightarrow> [p, l]
      | Revert p l \<Rightarrow> [p, l]
      | SelfDestruct b \<Rightarrow> [b]
      | _ \<Rightarrow> [])"

definition term_args :: "terminator \<Rightarrow> vref list" where
  "term_args t = foldl (\<lambda>as c. as @ bc_args c) (term_own_args t) (block_calls t)"

definition is_halt :: "terminator \<Rightarrow> bool" where
  "is_halt t =
     (case t of Stop \<Rightarrow> True | ReturnData _ _ \<Rightarrow> True | Revert _ _ \<Rightarrow> True | SelfDestruct _ \<Rightarrow> True
      | Invalid \<Rightarrow> True | Unreachable \<Rightarrow> True | _ \<Rightarrow> False)"

subsection \<open>What the repairs achieve\<close>

text \<open>
  The stack word an operation computes before its repair, \<open>args\<close> in reading order: signed
  division, remainder and comparison when \<open>sg\<close> holds, a zero divisor giving zero, shifts by the width
  or more giving what the EVM gives, and the branch-free form of \<open>Select\<close>. The first result of a
  checked operation is the word of the plain one.
\<close>

definition raw_unary :: "ir_op \<Rightarrow> word256 \<Rightarrow> word256 option" where
  "raw_unary x a = (case x of ONot \<Rightarrow> Some (NOT a) | _ \<Rightarrow> None)"

fun raw_compare :: "cmp \<Rightarrow> bool \<Rightarrow> word256 \<Rightarrow> word256 \<Rightarrow> bool" where
  "raw_compare CmpEq sg a b = (a = b)"
| "raw_compare CmpNe sg a b = (a \<noteq> b)"
| "raw_compare CmpLt sg a b = (if sg then a <s b else a < b)"
| "raw_compare CmpLe sg a b = (\<not> (if sg then b <s a else b < a))"
| "raw_compare CmpGt sg a b = (if sg then b <s a else b < a)"
| "raw_compare CmpGe sg a b = (\<not> (if sg then a <s b else a < b))"

definition raw_binary :: "ir_op \<Rightarrow> bool \<Rightarrow> word256 \<Rightarrow> word256 \<Rightarrow> word256 option" where
  "raw_binary x sg a b =
     (case x of
        OAdd \<Rightarrow> Some (a + b) | OAddOverflow \<Rightarrow> Some (a + b)
      | OSub \<Rightarrow> Some (a - b) | OSubOverflow \<Rightarrow> Some (a - b)
      | OMul \<Rightarrow> Some (a * b) | OMulOverflow \<Rightarrow> Some (a * b)
      | ODiv \<Rightarrow> Some (if b = 0 then 0 else if sg then word_of_int (sint a sdiv sint b) else a div b)
      | ORem \<Rightarrow> Some (if b = 0 then 0 else if sg then word_of_int (sint a smod sint b) else a mod b)
      | OExp \<Rightarrow> Some (a ^ unat b)
      | OAnd \<Rightarrow> Some (a AND b)
      | OOr \<Rightarrow> Some (a OR b)
      | OXor \<Rightarrow> Some (a XOR b)
      | OShl \<Rightarrow> Some (if unat b < 256 then push_bit (unat b) a else 0)
      | OShr \<Rightarrow> Some (if unat b < 256 then drop_bit (unat b) a else 0)
      | OSar \<Rightarrow> Some (if unat b < 256 then signed_drop_bit (unat b) a else if a <s 0 then - 1 else 0)
      | OExtractByte \<Rightarrow> Some (if unat a < 32 then take_bit 8 (drop_bit (8 * (31 - unat a)) b) else 0)
      | OIcmp c \<Rightarrow> Some (of_bool (raw_compare c sg a b))
      | _ \<Rightarrow> None)"

definition raw_ternary :: "ir_op \<Rightarrow> word256 \<Rightarrow> word256 \<Rightarrow> word256 \<Rightarrow> word256 option" where
  "raw_ternary x a b c =
     (case x of
        OAddMod \<Rightarrow> Some (if c = 0 then 0 else word_of_int ((uint a + uint b) mod uint c))
      | OMulMod \<Rightarrow> Some (if c = 0 then 0 else word_of_int ((uint a * uint b) mod uint c))
      | OSelect \<Rightarrow> Some (b AND (0 - a) OR c AND NOT (0 - a))
      | _ \<Rightarrow> None)"

definition raw_op :: "ir_op \<Rightarrow> bool \<Rightarrow> word256 list \<Rightarrow> word256 option" where
  "raw_op x sg args =
     (case args of [a] \<Rightarrow> raw_unary x a | [a, b] \<Rightarrow> raw_binary x sg a b
      | [a, b, c] \<Rightarrow> raw_ternary x a b c | _ \<Rightarrow> None)"

text \<open>
  The integer the operation stands for, before wrapping. Shift amounts, exponents, byte positions and the
  operands of the modular operations and of the logical shift are read as 256-bit numbers (\<open>as_u256\<close>), the
  shifted value of the arithmetic shift as a signed one: at a type whose values lie in that range the
  reading changes nothing, and it is the meaning the operations have at the other types.
\<close>

definition as_u256 :: "int \<Rightarrow> int" where "as_u256 i = take_bit 256 i"

definition as_i256 :: "int \<Rightarrow> int" where "as_i256 i = signed_take_bit 255 i"

fun compare :: "cmp \<Rightarrow> int \<Rightarrow> int \<Rightarrow> bool" where
  "compare CmpEq i j = (i = j)" | "compare CmpNe i j = (i \<noteq> j)" | "compare CmpLt i j = (i < j)"
| "compare CmpLe i j = (i \<le> j)" | "compare CmpGt i j = (i > j)" | "compare CmpGe i j = (i \<ge> j)"

definition int_binary :: "ir_op \<Rightarrow> int \<Rightarrow> int \<Rightarrow> int option" where
  "int_binary x i j =
     (case x of
        OAdd \<Rightarrow> Some (i + j) | OAddOverflow \<Rightarrow> Some (i + j)
      | OSub \<Rightarrow> Some (i - j) | OSubOverflow \<Rightarrow> Some (i - j)
      | OMul \<Rightarrow> Some (i * j) | OMulOverflow \<Rightarrow> Some (i * j)
      | ODiv \<Rightarrow> Some (if j = 0 then 0 else i sdiv j)
      | ORem \<Rightarrow> Some (if j = 0 then 0 else i smod j)
      | OExp \<Rightarrow> Some (i ^ nat (as_u256 j))
      | OAnd \<Rightarrow> Some (i AND j)
      | OOr \<Rightarrow> Some (i OR j)
      | OXor \<Rightarrow> Some (i XOR j)
      | OShl \<Rightarrow> Some (i * 2 ^ nat (as_u256 j))
      | OShr \<Rightarrow> Some (as_u256 i div 2 ^ nat (as_u256 j))
      | OSar \<Rightarrow> Some (as_i256 i div 2 ^ nat (as_u256 j))
      | OExtractByte \<Rightarrow> Some (if as_u256 i < 32 then as_u256 j div 256 ^ (31 - nat (as_u256 i)) mod 256 else 0)
      | OIcmp c \<Rightarrow> Some (of_bool (compare c i j))
      | _ \<Rightarrow> None)"

definition int_ternary :: "ir_op \<Rightarrow> int \<Rightarrow> int \<Rightarrow> int \<Rightarrow> int option" where
  "int_ternary x i j k =
     (case x of
        OAddMod \<Rightarrow> Some (if k = 0 then 0 else (as_u256 i + as_u256 j) mod as_u256 k)
      | OMulMod \<Rightarrow> Some (if k = 0 then 0 else (as_u256 i * as_u256 j) mod as_u256 k)
      | OSelect \<Rightarrow> Some (if i = 1 then j else k)
      | _ \<Rightarrow> None)"

definition int_op :: "ir_op \<Rightarrow> int list \<Rightarrow> int option" where
  "int_op x is =
     (case is of
        [i] \<Rightarrow> (case x of ONot \<Rightarrow> Some (- 1 - i) | _ \<Rightarrow> None)
      | [i, j] \<Rightarrow> int_binary x i j
      | [i, j, k] \<Rightarrow> int_ternary x i j k
      | _ \<Rightarrow> None)"

text \<open>The operations on values, and the types of their operands for a result of type \<open>t\<close>.\<close>

definition value_op :: "ir_op \<Rightarrow> bool" where
  "value_op x \<longleftrightarrow>
     (case x of
        OConst _ \<Rightarrow> False | OConvert \<Rightarrow> False | OAlloca _ \<Rightarrow> False | OLoad \<Rightarrow> False | OStore \<Rightarrow> False
      | OMemCopy \<Rightarrow> False | OSLoad \<Rightarrow> False | OSStore \<Rightarrow> False | OTLoad \<Rightarrow> False | OTStore \<Rightarrow> False
      | OOpcode _ \<Rightarrow> False | OCall _ \<Rightarrow> False | _ \<Rightarrow> True)"

definition value_operands :: "ir_op \<Rightarrow> ty \<Rightarrow> ty list \<Rightarrow> bool" where
  "value_operands x t us \<longleftrightarrow>
     (case x of
        ONot \<Rightarrow> us = [t]
      | OIcmp _ \<Rightarrow> t = ty_bool \<and> length us = 2 \<and> us ! 0 = us ! 1
      | OShl \<Rightarrow> length us = 2 \<and> us ! 0 = t
      | OShr \<Rightarrow> length us = 2 \<and> us ! 0 = t
      | OSar \<Rightarrow> length us = 2 \<and> us ! 0 = t
      | OExp \<Rightarrow> length us = 2 \<and> us ! 0 = t
      | OExtractByte \<Rightarrow> length us = 2
      | OAddMod \<Rightarrow> us = [t, t, t]
      | OMulMod \<Rightarrow> us = [t, t, t]
      | OSelect \<Rightarrow> us = [ty_bool, t, t]
      | _ \<Rightarrow> us = [t, t])"

text \<open>Signedness comes from the type of the operands for a comparison, from that of the result otherwise.\<close>

definition op_signed :: "ir_op \<Rightarrow> ty \<Rightarrow> ty list \<Rightarrow> bool" where
  "op_signed x t us = (case x of OIcmp _ \<Rightarrow> ty_is_signed (hd us) | _ \<Rightarrow> ty_is_signed t)"

lemma default_repair_cases:
  "default_repair x t =
     (case x of
        OIcmp _ \<Rightarrow> RepairNone | OConst _ \<Rightarrow> RepairNone | OSelect \<Rightarrow> RepairNone | OCall _ \<Rightarrow> RepairNone
      | OAlloca _ \<Rightarrow> RepairNone | OAnd \<Rightarrow> RepairNone | OOr \<Rightarrow> RepairNone | OXor \<Rightarrow> RepairNone
      | ONot \<Rightarrow> if ty_is_signed t then RepairNone else ty_repair t
      | ODiv \<Rightarrow> if ty_is_signed t then ty_repair t else RepairNone
      | ORem \<Rightarrow> if ty_is_signed t then ty_repair t else RepairNone
      | OShr \<Rightarrow> if ty_is_signed t then ty_repair t else RepairNone
      | _ \<Rightarrow> ty_repair t)"
  by (simp add: default_repair_def ty_repair_def ty_is_signed_def ty_bits_def split: ir_op.split)

subsection \<open>Words and the integers they stand for\<close>

lemma sdiv_nonneg: "0 \<le> a \<Longrightarrow> 0 \<le> b \<Longrightarrow> (a :: int) sdiv b = a div b"
  by (cases "a = 0"; cases "b = 0") (auto simp: signed_divide_int_def)

lemma smod_nonneg: "0 \<le> a \<Longrightarrow> 0 \<le> b \<Longrightarrow> (a :: int) smod b = a mod b"
  by (cases "a = 0") (auto simp: signed_modulo_int_def)

lemma ty_val_0_iff [simp]: "ty_val t a = 0 \<longleftrightarrow> a = 0"
proof -
  have "ty_val t 0 = 0" by (simp add: ty_val_def)
  then show ?thesis using ty_val_inject [of t a 0] by simp
qed

lemma as_u256_val [simp]: "as_u256 (ty_val t a) = uint a"
proof -
  have "uint (word_of_int (ty_val t a) :: word256) = take_bit 256 (ty_val t a)"
    by (subst uint_word_of_int_eq) simp
  then show ?thesis by (simp add: as_u256_def)
qed

lemma as_i256_val [simp]: "as_i256 (ty_val t a) = sint a"
proof -
  have "as_i256 k = sint (word_of_int k :: word256)" for k
    by (simp add: as_i256_def sint_sbintrunc')
  then show ?thesis by simp
qed

lemma wf_bool: "wf_val ty_bool a \<longleftrightarrow> a = 0 \<or> a = 1"
proof -
  have "wf_val ty_bool a \<longleftrightarrow> uint a < 2"
    by (simp add: wf_val_range is_well_formed_def WORD_BITS_def ty_defs ty_bits_def ty_is_signed_def)
  also have "\<dots> \<longleftrightarrow> uint a = 0 \<or> uint a = 1" using uint_ge_0 [of a] by linarith
  also have "\<dots> \<longleftrightarrow> a = 0 \<or> a = 1"
    by (metis uint_0_iff uint_1 word_uint_eqI)
  finally show ?thesis .
qed

lemma bool_vals: "ty_val ty_bool 0 = 0" "ty_val ty_bool 1 = 1" "ty_wrap ty_bool 0 = 0" "ty_wrap ty_bool 1 = 1"
  by (simp_all add: ty_val_def ty_wrap_def ty_defs ty_bits_def ty_is_signed_def)

lemma raw_compare_val: "raw_compare c (ty_is_signed u) a b = compare c (ty_val u a) (ty_val u b)"
  by (cases c) (auto simp: ty_val_inject, auto simp: ty_val_def word_sless_alt word_less_def)

lemma wrap_bitwise:
  "ty_wrap t (k AND l) = ty_wrap t k AND ty_wrap t l"
  "ty_wrap t (k OR l) = ty_wrap t k OR ty_wrap t l"
  "ty_wrap t (k XOR l) = ty_wrap t k XOR ty_wrap t l"
  by (rule bit_eqI; auto simp: ty_wrap_def bit_simps)+

lemma ty_val_bitwise:
  "ty_val t (a AND b) = ty_val t a AND ty_val t b"
  "ty_val t (a OR b) = ty_val t a OR ty_val t b"
  "ty_val t (a XOR b) = ty_val t a XOR ty_val t b"
  by (rule bit_eqI; auto simp: ty_val_def bit_simps)+

lemma of_int_ty_val [simp]: "of_int (ty_val t a) = a"
  by simp

lemma raw_modular:
  "a + b = word_of_int (ty_val t a + ty_val t b)"
  "a - b = word_of_int (ty_val t a - ty_val t b)"
  "a * b = word_of_int (ty_val t a * ty_val t b)"
  "a ^ n = word_of_int (ty_val t a ^ n)"
  "a * 2 ^ n = word_of_int (ty_val t a * 2 ^ n)"
  "NOT a = word_of_int (- 1 - ty_val t a)"
  for a :: word256
  by (simp_all add: not_eq_complement)

lemma shl_word: "(if n < 256 then push_bit n a else 0) = a * 2 ^ n" for a :: word256
proof (cases "n < 256")
  case False
  then have "(2 :: word256) ^ n = 0" by (simp add: exp_eq_zero_iff)
  then show ?thesis by (simp only: False if_False mult_zero_right)
qed (simp add: push_bit_eq_mult)

lemma uint_drop_bit: "uint (drop_bit n a) = drop_bit n (uint a)" for a :: word256
  by (rule bit_eqI) (auto simp: bit_simps dest: bit_imp_le_length)

lemma shr_word: "uint (if n < 256 then drop_bit n a else 0) = uint a div 2 ^ n" for a :: word256
proof (cases "n < 256")
  case False
  have "uint a < 2 ^ 256" using unsigned_less [of a] by simp
  also have "(2 :: int) ^ 256 \<le> 2 ^ n" using False by (intro power_increasing) auto
  finally show ?thesis using False by (simp add: div_pos_pos_trivial)
qed (simp add: uint_drop_bit drop_bit_int_def)

lemma sar_word:
  "sint (if n < 256 then signed_drop_bit n a else if a <s 0 then - 1 else 0) = sint a div 2 ^ n"
  for a :: word256
proof (cases "n < 256")
  case False
  have "- (2 ^ 255) \<le> sint a" "sint a < 2 ^ 255"
    using sint_ge [of a] sint_lt [of a] by simp_all
  moreover have "(2 :: int) ^ 255 \<le> 2 ^ n" using False by (intro power_increasing) auto
  ultimately have b: "- (2 ^ n) \<le> sint a" "sint a < 2 ^ n" by linarith+
  show ?thesis
  proof (cases "sint a < 0")
    case True
    then have "sint a div 2 ^ n = - 1" using b 
      by (intro int_div_pos_eq [where r = "sint a + 2 ^ n"]) simp_all
    then show ?thesis using True False by (simp add: word_sless_alt)
  next
    case neg: False
    then show ?thesis using False b by (simp add: word_sless_alt)
  qed
next
  case True
  then show ?thesis by (simp add: sint_signed_drop_bit_eq drop_bit_eq_div)
qed

lemma byte_word:
  "word_of_int (uint a div 256 ^ n mod 256) = take_bit 8 (drop_bit (8 * n) a)" for a :: word256
proof -
  have e: "uint (take_bit 8 (drop_bit (8 * n) a)) = uint a div 256 ^ n mod 256"
    by (simp add: uint_take_bit_word uint_drop_bit drop_bit_int_def take_bit_int_def power_mult)
  then show ?thesis by (simp only: word_of_int_uint flip: e)
qed

lemma select_word:
  "c = 1 \<Longrightarrow> a AND (0 - c) OR b AND NOT (0 - c) = a" "c = 0 \<Longrightarrow> a AND (0 - c) OR b AND NOT (0 - c) = b"
  for a :: word256
  by simp_all

lemma wrap_unsigned_id: "\<not> ty_is_signed t \<Longrightarrow> 0 \<le> k \<Longrightarrow> k < 2 ^ ty_bits t \<Longrightarrow> ty_wrap t k = k"
  by (simp add: ty_wrap_def take_bit_int_eq_self_iff)

lemma wf_unsigned:
  "is_well_formed t \<Longrightarrow> wf_val t a \<Longrightarrow> \<not> ty_is_signed t \<Longrightarrow>
     0 \<le> ty_val t a \<and> ty_val t a < 2 ^ ty_bits t \<and> ty_val t a = uint a"
  by (simp add: wf_val_range ty_val_def)

subsection \<open>The repair is enough\<close>

text \<open>The repaired word of an operation stands for an integer wrapped to the type.\<close>

definition repaired_to :: "ir_op \<Rightarrow> ty \<Rightarrow> word256 \<Rightarrow> int \<Rightarrow> bool" where
  "repaired_to x t r k \<longleftrightarrow> ty_val t (apply_repair (default_repair x t) r) = ty_wrap t k"

text \<open>An operation with the general repair: its raw result need only be right modulo \<open>2 ^ 256\<close>.\<close>

lemma general_repaired:
  "is_well_formed t \<Longrightarrow> default_repair x t = ty_repair t \<Longrightarrow> r = word_of_int k \<Longrightarrow> repaired_to x t r k"
  by (simp add: repaired_to_def ty_val_repair)

lemma unsigned_repaired:
  "\<not> ty_is_signed t \<Longrightarrow> default_repair x t = RepairNone \<Longrightarrow> uint r = k \<Longrightarrow> k < 2 ^ ty_bits t \<Longrightarrow>
     repaired_to x t r k"
  using wrap_unsigned_id [of t k] uint_ge_0 [of r] by (simp add: repaired_to_def ty_val_def)

lemma not_repaired:
  assumes "is_well_formed t" "wf_val t a"
  shows "repaired_to ONot t (NOT a) (- 1 - ty_val t a)"
proof (cases "ty_is_signed t")
  case True
  have w: "ty_wrap t (ty_val t a) = ty_val t a" using assms by (simp add: wf_val_iff)
  have "ty_wrap t (NOT (ty_val t a)) = NOT (ty_wrap t (ty_val t a))"
    using True by (intro bit_eqI) (auto simp: ty_wrap_def bit_simps)
  moreover have "ty_val t (NOT a) = NOT (ty_val t a)"
    using True by (intro bit_eqI) (auto simp: ty_val_def bit_simps)
  moreover have "- 1 - ty_val t a = NOT (ty_val t a)" by (simp add: not_int_def)
  ultimately show ?thesis using True w by (simp add: repaired_to_def default_repair_cases del: not_int_def)
next
  case False
  then show ?thesis
    by (intro general_repaired [OF assms(1)] raw_modular) (simp add: default_repair_cases)
qed

lemma bitwise_repaired:
  assumes "is_well_formed t" "wf_val t a" "wf_val t b"
  shows "repaired_to OAnd t (a AND b) (ty_val t a AND ty_val t b)"
    and "repaired_to OOr t (a OR b) (ty_val t a OR ty_val t b)"
    and "repaired_to OXor t (a XOR b) (ty_val t a XOR ty_val t b)"
proof -
  have "ty_wrap t (ty_val t a) = ty_val t a" "ty_wrap t (ty_val t b) = ty_val t b"
    using assms by (simp_all add: wf_val_iff)
  then show "repaired_to OAnd t (a AND b) (ty_val t a AND ty_val t b)"
    and "repaired_to OOr t (a OR b) (ty_val t a OR ty_val t b)"
    and "repaired_to OXor t (a XOR b) (ty_val t a XOR ty_val t b)"
    by (simp_all add: repaired_to_def default_repair_cases wrap_bitwise ty_val_bitwise)
qed

lemma uint_quotients:
  fixes a b :: word256
  shows "uint a div uint b \<le> uint a" "uint a mod uint b \<le> uint a"
proof -
  have nn: "0 \<le> uint a" "0 \<le> uint b" by simp_all
  show "uint a div uint b \<le> uint a"
  proof (cases "uint b = 0")
    case False
    then have "1 \<le> uint b" using nn by linarith
    then show ?thesis using nn zdiv_mono2 [of "uint a" 1 "uint b"] by simp
  qed simp
  show "uint a mod uint b \<le> uint a" using nn by (intro zmod_le_nonneg_dividend)
qed

lemma division_repaired:
  assumes "is_well_formed t" "wf_val t a" "x \<in> {ODiv, ORem}"
  shows "\<exists>r k. raw_binary x (ty_is_signed t) a b = Some r \<and> int_binary x (ty_val t a) (ty_val t b) = Some k
    \<and> repaired_to x t r k"
proof (cases "ty_is_signed t")
  case True
  then show ?thesis using assms(3)
    by (elim insertE emptyE)
       (auto simp: int_binary_def raw_binary_def default_repair_cases ty_val_def signed_eq_0_iff
         intro!: general_repaired [OF assms(1)])
next
  case False
  note a = wf_unsigned [OF assms(1,2) False]
  have "b \<noteq> 0 \<Longrightarrow> uint a div uint b < 2 ^ ty_bits t" "b \<noteq> 0 \<Longrightarrow> uint a mod uint b < 2 ^ ty_bits t"
    using a uint_quotients [of a b] by linarith+
  then show ?thesis using assms(3) False
    by (elim insertE emptyE)
       (auto simp: int_binary_def raw_binary_def default_repair_cases ty_val_def uint_div uint_mod
         uint_0_iff sdiv_nonneg smod_nonneg intro!: unsigned_repaired)
qed

lemma shr_repaired:
  assumes "is_well_formed t" "wf_val t a"
  shows "repaired_to OShr t (if unat b < 256 then drop_bit (unat b) a else 0) (uint a div 2 ^ unat b)"
proof (cases "ty_is_signed t")
  case True
  then show ?thesis
    by (intro general_repaired [OF assms(1)]) (simp add: default_repair_cases, simp only: word_of_int_uint flip: shr_word)
next
  case False
  have "uint a div 2 ^ unat b \<le> uint a"
    using zdiv_mono2 [of "uint a" 1 "2 ^ unat b"] by simp
  then show ?thesis
    using wf_unsigned [OF assms False] False shr_word [of "unat b" a]
    by (intro unsigned_repaired) (simp_all add: default_repair_cases)
qed

lemma sar_repaired:
  assumes "is_well_formed t"
  shows "repaired_to OSar t (if unat b < 256 then signed_drop_bit (unat b) a else if a <s 0 then - 1 else 0)
    (sint a div 2 ^ unat b)"
proof (intro general_repaired [OF assms])
  show "default_repair OSar t = ty_repair t" by (simp add: default_repair_cases)
  show "(if unat b < 256 then signed_drop_bit (unat b) a else if a <s 0 then - 1 else 0) =
      word_of_int (sint a div 2 ^ unat b)"
    unfolding sar_word [symmetric] by simp
qed

text \<open>The value operations, by the number of operands.\<close>

lemma binary_repaired:
  assumes "is_well_formed t" "value_op x" "value_operands x t [u, v]" "wf_val u a" "wf_val v b"
  shows "\<exists>r k. raw_binary x (op_signed x t [u, v]) a b = Some r \<and> int_binary x (ty_val u a) (ty_val v b) = Some k
    \<and> repaired_to x t r k"
proof (cases x)
  case ODiv
  then show ?thesis using division_repaired [OF assms(1), of a x b] assms by (simp add: value_operands_def op_signed_def)
next
  case ORem
  then show ?thesis using division_repaired [OF assms(1), of a x b] assms by (simp add: value_operands_def op_signed_def)
next
  case OShr
  then show ?thesis using shr_repaired [OF assms(1), of a b] assms
    by (simp add: value_operands_def raw_binary_def int_binary_def)
next
  case OSar
  then show ?thesis using sar_repaired [OF assms(1), of b a] assms
    by (simp add: value_operands_def raw_binary_def int_binary_def)
next
  case OExtractByte
  have "uint a < 32 \<longleftrightarrow> unat a < 32" using of_nat_less_iff [where ?'a = int, of "unat a" 32] by simp
  then show ?thesis using byte_word [of b "31 - unat a"] OExtractByte
    by (auto simp: raw_binary_def int_binary_def default_repair_cases intro!: general_repaired [OF assms(1)])
next
  case (OIcmp c)
  then have "t = ty_bool" "u = v" using assms(3) by (simp_all add: value_operands_def)
  then show ?thesis
    by (simp add: OIcmp raw_binary_def int_binary_def op_signed_def raw_compare_val repaired_to_def default_repair_cases
        bool_vals)
next
  case OShl
  then show ?thesis using assms(3)
    by (auto simp: value_operands_def raw_binary_def int_binary_def default_repair_cases shl_word
        intro!: general_repaired [OF assms(1)])
qed (use assms bitwise_repaired [OF assms(1), of a b] in
  \<open>auto simp: value_op_def value_operands_def raw_binary_def int_binary_def default_repair_cases
     intro!: general_repaired\<close>)

lemma ternary_repaired:
  assumes "is_well_formed t" "value_op x" "value_operands x t [u, v, z]" "wf_val u a" "wf_val v b" "wf_val z c"
  shows "\<exists>r k. raw_ternary x a b c = Some r \<and> int_ternary x (ty_val u a) (ty_val v b) (ty_val z c) = Some k
    \<and> repaired_to x t r k"
proof (cases "x = OSelect")
  case True
  then have t: "u = ty_bool" "v = t" "z = t" using assms(3) by (simp_all add: value_operands_def)
  then have "ty_wrap t (ty_val t b) = ty_val t b" "ty_wrap t (ty_val t c) = ty_val t c"
    using assms by (simp_all add: wf_val_iff)
  moreover have "a = 0 \<or> a = 1" using assms(4) by (simp add: t wf_bool)
  ultimately show ?thesis
    using select_word [of a b c]
    by (auto simp: True t int_ternary_def raw_ternary_def default_repair_cases bool_vals repaired_to_def)
next
  case False
  with assms(2,3) have "x \<in> {OAddMod, OMulMod}" by (cases x) (simp_all add: value_op_def value_operands_def)
  then show ?thesis
    by (elim insertE emptyE)
       (auto simp: int_ternary_def raw_ternary_def default_repair_cases intro!: general_repaired [OF assms(1)])
qed

lemma default_repair_correct:
  assumes "is_well_formed t" "value_op x" "value_operands x t us" "list_all2 wf_val us args"
  obtains r k where "raw_op x (op_signed x t us) args = Some r" "int_op x (map2 ty_val us args) = Some k"
    "wf_val t (apply_repair (default_repair x t) r)" "ty_val t (apply_repair (default_repair x t) r) = ty_wrap t k"
proof -
  have "\<exists>r k. raw_op x (op_signed x t us) args = Some r \<and> int_op x (map2 ty_val us args) = Some k \<and> repaired_to x t r k"
  proof -
    have "length us = 1 \<and> x = ONot \<or> length us = 2 \<or> length us = 3"
      using assms(2,3) by (cases x) (auto simp: value_op_def value_operands_def)
    then consider u where "us = [u]" "x = ONot" | u v where "us = [u, v]" | u v z where "us = [u, v, z]"
      by (auto simp: length_Suc_conv numeral_2_eq_2 numeral_3_eq_3)
    then show ?thesis
    proof cases
      case (1 u)
      then have "u = t" using assms(3) by (simp add: value_operands_def)
      then show ?thesis
        using not_repaired [OF assms(1)] assms(4) 1 by (auto simp: list_all2_Cons1 raw_op_def raw_unary_def int_op_def)
    next
      case (2 u v)
      then show ?thesis
        using binary_repaired [OF assms(1,2), of u v] assms(3,4) by (auto simp: list_all2_Cons1 raw_op_def int_op_def)
    next
      case (3 u v z)
      then show ?thesis
        using ternary_repaired [OF assms(1,2), of u v z] assms(3,4) by (auto simp: list_all2_Cons1 raw_op_def int_op_def)
    qed
  qed
  then show ?thesis using that wf_ty_wrap [OF assms(1)] unfolding repaired_to_def by blast
qed

text \<open>C6 The repair an operation gets is enough: for every operation on values (arithmetic, the first result
  of checked arithmetic, bitwise, shifts, bytes, modular, comparison, selection), every result type and
  operands that are well formed at the types the operation takes, the raw EVM result after \<open>default_repair\<close>
  is well formed at the result type and stands for the integer result wrapped to it. The logical right
  shift and the modular operations read their operands as unsigned 256-bit numbers, the arithmetic shift
  as a signed one: at a signed type narrower than a word \<open>Shr\<close> shifts the sign extension, not the bits of
  the type (\<open>-1 >> 1\<close> at \<open>i8\<close> is -1, not 127).\<close>

theorem default_repair_sound:
  assumes "value_op x" "is_well_formed t" "value_operands x t us" "list_all2 wf_val us args"
  shows "\<exists>r k. raw_op x (op_signed x t us) args = Some r \<and> int_op x (map2 ty_val us args) = Some k \<and>
    wf_val t (apply_repair (default_repair x t) r) \<and>
    ty_val t (apply_repair (default_repair x t) r) = ty_wrap t k"
  using default_repair_correct [OF assms(2,1,3,4)] by metis

theorem default_repair_sound_witness:
  "\<exists>r. raw_op OShr True [- 1, 1] = Some r \<and> ty_val ty_i8 (apply_repair (default_repair OShr ty_i8) r) = - 1"
proof -
  note t = ty_defs ty_bits_def ty_is_signed_def
  have "is_well_formed ty_i8" "is_well_formed ty_u8" by (simp_all add: is_well_formed_def WORD_BITS_def t)
  moreover from this have "list_all2 wf_val [ty_i8, ty_u8] [- 1, 1]" by (simp add: wf_val_range t)
  moreover have "value_op OShr" "value_operands OShr ty_i8 [ty_i8, ty_u8]" "op_signed OShr ty_i8 [ty_i8, ty_u8]"
    by (simp_all add: value_op_def value_operands_def op_signed_def t)
  ultimately obtain r k where r: "raw_op OShr True [- 1, 1] = Some r"
    "int_op OShr (map2 ty_val [ty_i8, ty_u8] [- 1, 1]) = Some k"
    "ty_val ty_i8 (apply_repair (default_repair OShr ty_i8) r) = ty_wrap ty_i8 k"
    using default_repair_sound [of OShr ty_i8 "[ty_i8, ty_u8]" "[- 1, 1]"] by auto
  have "k = 2 ^ 255 - 1" using r(2) by (simp add: int_op_def int_binary_def unsigned_minus_1_eq_mask mask_eq_exp_minus_1)
  then have "ty_wrap ty_i8 k = - 1" by (simp add: ty_wrap_def t signed_take_bit_eq_take_bit_minus)
  with r show ?thesis by auto
qed

text \<open>A comparison yields 0 or 1 and gets no repair. That is well formed at every integer type
  but the one-bit signed one, where 1 is not (the type has the values 0 and -1).\<close>

theorem icmp_repair_exact:
  assumes "is_well_formed t"
  shows "wf_val t (apply_repair (default_repair (OIcmp c) t) 0) \<and>
    (wf_val t (apply_repair (default_repair (OIcmp c) t) 1) \<longleftrightarrow> as_int t \<noteq> IntTy 1 True)"
proof -
  have b: "1 \<le> ty_bits t" using assms by (simp add: is_well_formed_def)
  then have "(2 :: int) ^ 1 \<le> 2 ^ ty_bits t" by (rule power_increasing) simp
  then have p: "(1 :: int) < 2 ^ ty_bits t" by simp
  have e: "as_int t = IntTy 1 True \<longleftrightarrow> ty_bits t = 1 \<and> ty_is_signed t"
    by (cases "as_int t") (simp add: ty_bits_def ty_is_signed_def)
  have s: "(1 :: int) < 2 ^ (ty_bits t - 1) \<longleftrightarrow> ty_bits t \<noteq> 1"
    using b by (auto simp: one_less_power)
  have n: "(- (2 ^ k) :: int) \<le> 1" for k :: nat by (rule order_trans [of _ 0]) simp_all
  have "sint (1 :: word256) = 1" by simp
  then show ?thesis
    using b p s n [of "ty_bits t - 1"]
    by (auto simp: default_repair_cases wf_val_range [OF assms] e simp del: One_nat_def)
qed

theorem icmp_repair_exact_witness:
  "\<not> wf_val (ty_sint 1) (apply_repair (default_repair (OIcmp CmpEq) (ty_sint 1)) 1)"
  using icmp_repair_exact [of "ty_sint 1" CmpEq]
  by (simp add: is_well_formed_def WORD_BITS_def ty_bits_def ty_sint_def)

end
