(* ===== verification/Ir_Func.thy ===== *)
theory Ir_Func
  imports Ir_Inst "HOL-Library.Multiset"
begin

text \<open>
  \<open>evm-codegen/src/ir/func.rs\<close>: a function is three arenas (instructions, values, blocks) that
  index into each other by \<open>u32\<close> entities. Indexing an arena out of range panics, which is
  \<open>None\<close>. \<open>fn_inv\<close> is the consistency the source asks of the arenas: every value is defined
  exactly once (SSA) and its definition links back, every instruction is in exactly one block;
  every operation preserves it as long as the arenas stay below \<open>2 ^ 32\<close> entries.
\<close>

subsection \<open>Indexing\<close>

definition nth_opt :: "'a list \<Rightarrow> nat \<Rightarrow> 'a option" where
  "nth_opt xs i = (if i < length xs then Some (xs ! i) else None)"

definition update_opt :: "nat \<Rightarrow> ('a \<Rightarrow> 'a) \<Rightarrow> 'a list \<Rightarrow> 'a list option" where
  "update_opt i f xs = (if i < length xs then Some (xs[i := f (xs ! i)]) else None)"

lemma nth_opt_Some_iff: "nth_opt xs i = Some x \<longleftrightarrow> i < length xs \<and> xs ! i = x"
  by (auto simp: nth_opt_def)

lemma update_opt_Some_iff:
  "update_opt i f xs = Some ys \<longleftrightarrow> i < length xs \<and> ys = xs[i := f (xs ! i)]"
  by (auto simp: update_opt_def)

subsection \<open>Data\<close>

datatype value_def = DefResult iref "16 word" | DefParam bref "16 word"

record value_data =
  vd_ty :: ty
  vd_def :: value_def

datatype block_kind = KNormal | KPanic

record block_data =
  bd_params :: "vref list"
  bd_insts :: "iref list"
  bd_term :: "terminator option"
  bd_kind :: block_kind

definition block_default :: block_data where
  "block_default = \<lparr>bd_params = [], bd_insts = [], bd_term = None, bd_kind = KNormal\<rparr>"

record ir_function =
  fn_name :: string
  fn_sig :: signature
  fn_entry :: bref
  fn_insts :: "inst_data list"
  fn_values :: "value_data list"
  fn_blocks :: "block_data list"

subsection \<open>Construction\<close>

definition push_value :: "value_data \<Rightarrow> ir_function \<Rightarrow> vref \<times> ir_function" where
  "push_value d f = (value_new (length (fn_values f)), f\<lparr>fn_values := fn_values f @ [d]\<rparr>)"

definition fn_create_block :: "ir_function \<Rightarrow> bref \<times> ir_function" where
  "fn_create_block f =
     (block_new (length (fn_blocks f)), f\<lparr>fn_blocks := fn_blocks f @ [block_default]\<rparr>)"

definition append_param :: "bref \<Rightarrow> ty \<Rightarrow> ir_function \<Rightarrow> (vref \<times> ir_function) option" where
  "append_param b t f =
     (case nth_opt (fn_blocks f) (block_index b) of
        None \<Rightarrow> None
      | Some bd \<Rightarrow>
          let index = of_nat (length (bd_params bd));
              (v, f1) = push_value \<lparr>vd_ty = t, vd_def = DefParam b index\<rparr> f in
          (case update_opt (block_index b) (\<lambda>bd. bd\<lparr>bd_params := bd_params bd @ [v]\<rparr>) (fn_blocks f1) of
             None \<Rightarrow> None
           | Some bs \<Rightarrow> Some (v, f1\<lparr>fn_blocks := bs\<rparr>)))"

fun append_params :: "bref \<Rightarrow> ty list \<Rightarrow> ir_function \<Rightarrow> ir_function option" where
  "append_params b [] f = Some f"
| "append_params b (t # ts) f =
     (case append_param b t f of None \<Rightarrow> None | Some (v, f') \<Rightarrow> append_params b ts f')"

text \<open>The loop over the result types, \<open>index\<close> its counter.\<close>

fun append_results :: "iref \<Rightarrow> nat \<Rightarrow> ty list \<Rightarrow> ir_function \<Rightarrow> ir_function option" where
  "append_results i index [] f = Some f"
| "append_results i index (t # ts) f =
     (let (v, f1) = push_value \<lparr>vd_ty = t, vd_def = DefResult i (of_nat index)\<rparr> f in
      case update_opt (inst_index i) (\<lambda>d. d\<lparr>id_results := id_results d @ [v]\<rparr>) (fn_insts f1) of
        None \<Rightarrow> None
      | Some is \<Rightarrow> append_results i (Suc index) ts (f1\<lparr>fn_insts := is\<rparr>))"

definition append_inst ::
    "bref \<Rightarrow> inst_data \<Rightarrow> ty list \<Rightarrow> ir_function \<Rightarrow> (iref \<times> ir_function) option" where
  "append_inst b d ts f =
     (let i = inst_new (length (fn_insts f));
          f1 = f\<lparr>fn_insts := fn_insts f @ [d\<lparr>id_results := []\<rparr>]\<rparr> in
      case append_results i 0 ts f1 of
        None \<Rightarrow> None
      | Some f2 \<Rightarrow>
          (case update_opt (block_index b) (\<lambda>bd. bd\<lparr>bd_insts := bd_insts bd @ [i]\<rparr>) (fn_blocks f2) of
             None \<Rightarrow> None
           | Some bs \<Rightarrow> Some (i, f2\<lparr>fn_blocks := bs\<rparr>)))"

definition set_terminator :: "bref \<Rightarrow> terminator \<Rightarrow> ir_function \<Rightarrow> ir_function option" where
  "set_terminator b t f =
     map_option (\<lambda>bs. f\<lparr>fn_blocks := bs\<rparr>)
       (update_opt (block_index b) (\<lambda>bd. bd\<lparr>bd_term := Some t\<rparr>) (fn_blocks f))"

definition fn_set_block_kind :: "bref \<Rightarrow> block_kind \<Rightarrow> ir_function \<Rightarrow> ir_function option" where
  "fn_set_block_kind b k f =
     map_option (\<lambda>bs. f\<lparr>fn_blocks := bs\<rparr>)
       (update_opt (block_index b) (\<lambda>bd. bd\<lparr>bd_kind := k\<rparr>) (fn_blocks f))"

definition set_note :: "iref \<Rightarrow> string \<Rightarrow> ir_function \<Rightarrow> ir_function option" where
  "set_note i s f =
     map_option (\<lambda>is. f\<lparr>fn_insts := is\<rparr>)
       (update_opt (inst_index i) (\<lambda>d. d\<lparr>id_note := Some s\<rparr>) (fn_insts f))"

definition fn_new :: "string \<Rightarrow> signature \<Rightarrow> ir_function option" where
  "fn_new name s =
     (let f = \<lparr>fn_name = name, fn_sig = s, fn_entry = block_new 0, fn_insts = [], fn_values = [],
               fn_blocks = []\<rparr>;
          (entry, f1) = fn_create_block f in
      if entry \<noteq> fn_entry f1 then None else append_params entry (sig_params s) f1)"

subsection \<open>Reading\<close>

definition fn_inst :: "ir_function \<Rightarrow> iref \<Rightarrow> inst_data option" where
  "fn_inst f i = nth_opt (fn_insts f) (inst_index i)"

definition fn_inst_mut :: "iref \<Rightarrow> (inst_data \<Rightarrow> inst_data) \<Rightarrow> ir_function \<Rightarrow> ir_function option" where
  "fn_inst_mut i g f =
     map_option (\<lambda>is. f\<lparr>fn_insts := is\<rparr>) (update_opt (inst_index i) g (fn_insts f))"

definition fn_results :: "ir_function \<Rightarrow> iref \<Rightarrow> vref list option" where
  "fn_results f i = map_option id_results (nth_opt (fn_insts f) (inst_index i))"

definition fn_args :: "ir_function \<Rightarrow> iref \<Rightarrow> vref list option" where
  "fn_args f i = map_option id_args (nth_opt (fn_insts f) (inst_index i))"

definition fn_value :: "ir_function \<Rightarrow> vref \<Rightarrow> value_data option" where
  "fn_value f v = nth_opt (fn_values f) (value_index v)"

definition value_type :: "ir_function \<Rightarrow> vref \<Rightarrow> ty option" where
  "value_type f v = map_option vd_ty (nth_opt (fn_values f) (value_index v))"

definition fn_value_def :: "ir_function \<Rightarrow> vref \<Rightarrow> value_def option" where
  "fn_value_def f v = map_option vd_def (nth_opt (fn_values f) (value_index v))"

definition fn_block :: "ir_function \<Rightarrow> bref \<Rightarrow> block_data option" where
  "fn_block f b = nth_opt (fn_blocks f) (block_index b)"

definition fn_block_params :: "ir_function \<Rightarrow> bref \<Rightarrow> vref list option" where
  "fn_block_params f b = map_option bd_params (nth_opt (fn_blocks f) (block_index b))"

definition fn_terminator :: "ir_function \<Rightarrow> bref \<Rightarrow> terminator option option" where
  "fn_terminator f b = map_option bd_term (nth_opt (fn_blocks f) (block_index b))"

definition num_values :: "ir_function \<Rightarrow> nat" where "num_values f = length (fn_values f)"
definition num_blocks :: "ir_function \<Rightarrow> nat" where "num_blocks f = length (fn_blocks f)"
definition num_insts :: "ir_function \<Rightarrow> nat" where "num_insts f = length (fn_insts f)"

definition fn_all_blocks :: "ir_function \<Rightarrow> bref list" where
  "fn_all_blocks f = map block_new [0..<length (fn_blocks f)]"

definition has_value :: "ir_function \<Rightarrow> vref \<Rightarrow> bool" where
  "has_value f v \<longleftrightarrow> value_index v < length (fn_values f)"

definition has_block :: "ir_function \<Rightarrow> bref \<Rightarrow> bool" where
  "has_block f b \<longleftrightarrow> block_index b < length (fn_blocks f)"

subsection \<open>Closed forms of the loops\<close>

lemma append_results_eq:
  assumes "i = inst_new n" "n < 2 ^ 32" "n < length (fn_insts f)"
  shows "append_results i index ts f =
    Some (f\<lparr>fn_values := fn_values f @
              map (\<lambda>(k, t). \<lparr>vd_ty = t, vd_def = DefResult i (of_nat k)\<rparr>) (enumerate index ts),
            fn_insts := (fn_insts f)[n := (fn_insts f ! n)\<lparr>id_results := id_results (fn_insts f ! n) @
              map value_new [length (fn_values f)..<length (fn_values f) + length ts]\<rparr>]\<rparr>)"
  using assms(3)
proof (induction ts arbitrary: index f)
  case Nil
  then show ?case by simp
next
  case (Cons t ts)
  have n: "inst_index i = n" using assms(1,2) by (simp add: ient.idx_mk_id)
  have u: "[l..<Suc (l + k)] = l # [Suc l..<Suc (l + k)]" for l k by (simp add: upt_conv_Cons)
  show ?case
    using Cons.prems Cons.IH
    by (simp add: push_value_def Let_def update_opt_def n u del: upt_Suc)
qed

lemma append_params_eq:
  assumes "has_block f b"
  shows "append_params b ts f =
    Some (f\<lparr>fn_values := fn_values f @
              map (\<lambda>(k, t). \<lparr>vd_ty = t, vd_def = DefParam b (of_nat k)\<rparr>)
                (enumerate (length (bd_params (fn_blocks f ! block_index b))) ts),
            fn_blocks := (fn_blocks f)[block_index b := (fn_blocks f ! block_index b)\<lparr>bd_params :=
              bd_params (fn_blocks f ! block_index b) @
              map value_new [length (fn_values f)..<length (fn_values f) + length ts]\<rparr>]\<rparr>)"
  using assms
proof (induction ts arbitrary: f)
  case Nil
  then show ?case by (simp add: has_block_def)
next
  case (Cons t ts)
  have u: "[l..<Suc (l + k)] = l # [Suc l..<Suc (l + k)]" for l k by (simp add: upt_conv_Cons)
  show ?case
    using Cons.prems Cons.IH
    by (simp add: append_param_def nth_opt_def push_value_def Let_def update_opt_def has_block_def u
        del: upt_Suc)
qed

definition with_inst :: "bref \<Rightarrow> inst_data \<Rightarrow> ty list \<Rightarrow> ir_function \<Rightarrow> ir_function" where
  "with_inst b d ts f =
     (let n = length (fn_insts f); l = length (fn_values f); bd = fn_blocks f ! block_index b in
      f\<lparr>fn_insts := fn_insts f @ [d\<lparr>id_results := map value_new [l..<l + length ts]\<rparr>],
        fn_values := fn_values f @
          map (\<lambda>(k, t). \<lparr>vd_ty = t, vd_def = DefResult (inst_new n) (of_nat k)\<rparr>) (enumerate 0 ts),
        fn_blocks := (fn_blocks f)[block_index b := bd\<lparr>bd_insts := bd_insts bd @ [inst_new n]\<rparr>]\<rparr>)"

lemma append_inst_eq:
  assumes "length (fn_insts f) < 2 ^ 32"
  shows "append_inst b d ts f =
    (if has_block f b then Some (inst_new (length (fn_insts f)), with_inst b d ts f) else None)"
  using append_results_eq [OF refl assms, of "f\<lparr>fn_insts := fn_insts f @ [d\<lparr>id_results := []\<rparr>]\<rparr>" 0 ts]
  by (simp add: append_inst_def with_inst_def Let_def update_opt_def has_block_def)

subsection \<open>Consistency of the arenas\<close>

definition defined_values :: "ir_function \<Rightarrow> vref list" where
  "defined_values f =
     concat (map id_results (fn_insts f)) @ concat (map bd_params (fn_blocks f))"

definition ssa :: "ir_function \<Rightarrow> bool" where
  "ssa f \<longleftrightarrow> mset (defined_values f) = mset (map value_new [0..<length (fn_values f)])"

definition placed :: "ir_function \<Rightarrow> bool" where
  "placed f \<longleftrightarrow>
     mset (concat (map bd_insts (fn_blocks f))) = mset (map inst_new [0..<length (fn_insts f)])"

definition def_at :: "ir_function \<Rightarrow> vref \<Rightarrow> value_def \<Rightarrow> bool" where
  "def_at f v d \<longleftrightarrow>
     value_index v < length (fn_values f) \<and> vd_def (fn_values f ! value_index v) = d"

definition linked :: "ir_function \<Rightarrow> bool" where
  "linked f \<longleftrightarrow>
     (\<forall>i < length (fn_insts f). \<forall>j < length (id_results (fn_insts f ! i)).
        def_at f (id_results (fn_insts f ! i) ! j) (DefResult (inst_new i) (of_nat j))) \<and>
     (\<forall>b < length (fn_blocks f). \<forall>j < length (bd_params (fn_blocks f ! b)).
        def_at f (bd_params (fn_blocks f ! b) ! j) (DefParam (block_new b) (of_nat j)))"

definition fn_inv :: "ir_function \<Rightarrow> bool" where
  "fn_inv f \<longleftrightarrow> ssa f \<and> placed f \<and> linked f"

definition small :: "ir_function \<Rightarrow> bool" where
  "small f \<longleftrightarrow> length (fn_insts f) \<le> 2 ^ 32 \<and> length (fn_values f) \<le> 2 ^ 32 \<and>
     length (fn_blocks f) \<le> 2 ^ 32"

lemma mset_concat_update:
  "i < length xs \<Longrightarrow> g y = g (xs ! i) @ zs \<Longrightarrow>
     mset (concat (map g (xs[i := y]))) = mset (concat (map g xs)) + mset zs"
proof (induction xs arbitrary: i)
  case (Cons x xs)
  then show ?case by (cases i) auto
qed simp

lemma concat_update_same:
  "i < length xs \<Longrightarrow> g y = g (xs ! i) \<Longrightarrow> map g (xs[i := y]) = map g xs"
  by (simp add: map_update list_update_same_conv)

lemma ssa_with_inst:
  assumes "ssa f" and "has_block f b"
  shows "ssa (with_inst b d ts f)"
  using assms
  by (simp add: ssa_def defined_values_def with_inst_def Let_def has_block_def upt_add_eq_append [of 0]
      concat_update_same [where g = bd_params] del: map_update upt_Suc)

lemma placed_with_inst:
  assumes "placed f" and "has_block f b"
  shows "placed (with_inst b d ts f)"
  using assms
  by (simp add: placed_def with_inst_def Let_def has_block_def mset_concat_update [where zs = "[_]"])


definition with_params :: "bref \<Rightarrow> ty list \<Rightarrow> ir_function \<Rightarrow> ir_function" where
  "with_params b ts f =
     (let l = length (fn_values f); bd = fn_blocks f ! block_index b in
      f\<lparr>fn_values := fn_values f @
          map (\<lambda>(k, t). \<lparr>vd_ty = t, vd_def = DefParam b (of_nat k)\<rparr>)
            (enumerate (length (bd_params bd)) ts),
        fn_blocks := (fn_blocks f)[block_index b := bd\<lparr>bd_params := bd_params bd @
          map value_new [l..<l + length ts]\<rparr>]\<rparr>)"

lemma ssa_with_params:
  assumes "ssa f" and "has_block f b"
  shows "ssa (with_params b ts f)"
  using assms
  by (simp add: ssa_def defined_values_def with_params_def Let_def has_block_def upt_add_eq_append [of 0]
      mset_concat_update [where zs = "map value_new _"] del: map_update upt_Suc)

lemma def_at_append:
  "def_at f v d \<Longrightarrow> fn_values f' = fn_values f @ new \<Longrightarrow> def_at f' v d"
  by (auto simp: def_at_def nth_append)

lemma def_at_new:
  assumes "fn_values f' = fn_values f @ map (\<lambda>(k, t). \<lparr>vd_ty = t, vd_def = D k\<rparr>) (enumerate s ts)"
    and "length (fn_values f') \<le> 2 ^ 32" and "j < length ts"
  shows "def_at f' (value_new (length (fn_values f) + j)) (D (s + j))"
proof -
  have "value_index (value_new (length (fn_values f) + j)) = length (fn_values f) + j"
    using assms by (intro vent.idx_mk_id) auto
  then show ?thesis using assms by (simp add: def_at_def nth_append nth_enumerate_eq)
qed

lemma linked_with_inst:
  assumes l: "linked f" and b: "has_block f b" and s: "small (with_inst b d ts f)"
  shows "linked (with_inst b d ts f)"
proof -
  let ?f = "with_inst b d ts f" and ?n = "length (fn_insts f)"
  have v: "fn_values ?f = fn_values f @
      map (\<lambda>(k, t). \<lparr>vd_ty = t, vd_def = DefResult (inst_new ?n) (of_nat k)\<rparr>) (enumerate 0 ts)"
    and i: "fn_insts ?f = fn_insts f @
      [d\<lparr>id_results := map value_new [length (fn_values f)..<length (fn_values f) + length ts]\<rparr>]"
    by (simp_all add: with_inst_def Let_def)
  have p: "map bd_params (fn_blocks ?f) = map bd_params (fn_blocks f)"
    using b by (simp add: with_inst_def Let_def has_block_def concat_update_same [where g = bd_params]
      del: map_update)
  have lb: "length (fn_blocks ?f) = length (fn_blocks f)" by (simp add: with_inst_def Let_def)
  have pb: "bd_params (fn_blocks ?f ! k) = bd_params (fn_blocks f ! k)" if "k < length (fn_blocks f)" for k
    using p that lb by (metis nth_map)
  have "def_at ?f (id_results (fn_insts ?f ! i) ! j) (DefResult (inst_new i) (of_nat j))"
    if "i < length (fn_insts ?f)" "j < length (id_results (fn_insts ?f ! i))" for i j
  proof (cases "i < ?n")
    case True
    then show ?thesis using l that i by (auto simp: linked_def nth_append intro: def_at_append [OF _ v])
  next
    case False
    then have "i = ?n" using that i by simp
    moreover have "length (fn_values ?f) \<le> 2 ^ 32" using s by (simp add: small_def)
    ultimately show ?thesis
      using that i def_at_new [OF v, of j] by (simp add: nth_append)
  qed
  moreover have "def_at ?f (bd_params (fn_blocks ?f ! k) ! j) (DefParam (block_new k) (of_nat j))"
    if "k < length (fn_blocks ?f)" "j < length (bd_params (fn_blocks ?f ! k))" for k j
    using that l lb by (auto simp: pb linked_def intro: def_at_append [OF _ v])
  ultimately show ?thesis by (simp add: linked_def)
qed

lemma linked_with_params:
  assumes l: "linked f" and b: "has_block f b" and s: "small (with_params b ts f)"
  shows "linked (with_params b ts f)"
proof -
  let ?f = "with_params b ts f" and ?i = "block_index b"
  let ?l = "length (bd_params (fn_blocks f ! ?i))"
  have v: "fn_values ?f = fn_values f @
      map (\<lambda>(k, t). \<lparr>vd_ty = t, vd_def = DefParam b (of_nat k)\<rparr>) (enumerate ?l ts)"
    and i: "fn_insts ?f = fn_insts f" and lb: "length (fn_blocks ?f) = length (fn_blocks f)"
    by (simp_all add: with_params_def Let_def)
  have pb: "bd_params (fn_blocks ?f ! k) =
      (if k = ?i then bd_params (fn_blocks f ! k) @
         map value_new [length (fn_values f)..<length (fn_values f) + length ts]
       else bd_params (fn_blocks f ! k))" if "k < length (fn_blocks f)" for k
    using that by (simp add: with_params_def Let_def nth_list_update)
  have "def_at ?f (id_results (fn_insts ?f ! i) ! j) (DefResult (inst_new i) (of_nat j))"
    if "i < length (fn_insts ?f)" "j < length (id_results (fn_insts ?f ! i))" for i j
    using that l i by (auto simp: linked_def intro: def_at_append [OF _ v])
  moreover have "def_at ?f (bd_params (fn_blocks ?f ! k) ! j) (DefParam (block_new k) (of_nat j))"
    if k: "k < length (fn_blocks ?f)" "j < length (bd_params (fn_blocks ?f ! k))" for k j
  proof (cases "k = ?i \<and> \<not> j < ?l")
    case True
    then have "block_new k = b" by (simp add: bent.mk_idx)
    moreover obtain m where m: "j = ?l + m" using True by (metis le_iff_add not_less)
    moreover have "m < length ts" using k lb True m by (simp add: pb)
    moreover have "length (fn_values ?f) \<le> 2 ^ 32" using s by (simp add: small_def)
    ultimately show ?thesis
      using k lb True def_at_new [OF v, of m] by (simp add: pb nth_append)
  next
    case False
    then have "bd_params (fn_blocks ?f ! k) ! j = bd_params (fn_blocks f ! k) ! j"
      "j < length (bd_params (fn_blocks f ! k))"
      using k lb by (auto simp: pb nth_append split: if_splits)
    then show ?thesis using k l lb by (auto simp: linked_def intro: def_at_append [OF _ v])
  qed
  ultimately show ?thesis by (simp add: linked_def)
qed


text \<open>The other operations: a new block, and changes that touch no definition.\<close>

lemma fn_create_block_inv:
  "fn_inv f \<Longrightarrow> fn_inv (snd (fn_create_block f))"
  by (auto simp: fn_inv_def ssa_def placed_def linked_def def_at_def defined_values_def
      fn_create_block_def block_default_def nth_append less_Suc_eq)

lemma fn_inv_cong:
  assumes "map id_results (fn_insts g) = map id_results (fn_insts f)" "fn_values g = fn_values f"
    "map bd_params (fn_blocks g) = map bd_params (fn_blocks f)"
    "map bd_insts (fn_blocks g) = map bd_insts (fn_blocks f)"
  shows "fn_inv g = fn_inv f"
proof -
  have l: "length (fn_insts g) = length (fn_insts f)" "length (fn_blocks g) = length (fn_blocks f)"
    using assms(1,3) by (metis length_map)+
  have "id_results (fn_insts g ! i) = id_results (fn_insts f ! i)" if "i < length (fn_insts f)" for i
    using that l assms(1) by (metis nth_map)
  moreover have "bd_params (fn_blocks g ! b) = bd_params (fn_blocks f ! b)"
    if "b < length (fn_blocks f)" for b
    using that l assms(3) by (metis nth_map)
  ultimately show ?thesis
    using assms l
    by (simp add: fn_inv_def ssa_def placed_def linked_def def_at_def defined_values_def)
qed

lemma set_terminator_inv: "set_terminator b t f = Some g \<Longrightarrow> fn_inv g = fn_inv f"
  by (rule fn_inv_cong)
     (auto simp: set_terminator_def update_opt_Some_iff concat_update_same simp del: map_update)

lemma fn_set_block_kind_inv: "fn_set_block_kind b k f = Some g \<Longrightarrow> fn_inv g = fn_inv f"
  by (rule fn_inv_cong)
     (auto simp: fn_set_block_kind_def update_opt_Some_iff concat_update_same simp del: map_update)

lemma set_note_inv: "set_note i s f = Some g \<Longrightarrow> fn_inv g = fn_inv f"
  by (rule fn_inv_cong)
     (auto simp: set_note_def update_opt_Some_iff concat_update_same simp del: map_update)

lemma with_inst_inv:
  "fn_inv f \<Longrightarrow> has_block f b \<Longrightarrow> small (with_inst b d ts f) \<Longrightarrow> fn_inv (with_inst b d ts f)"
  by (simp add: fn_inv_def ssa_with_inst placed_with_inst linked_with_inst)

lemma with_params_inv:
  "fn_inv f \<Longrightarrow> has_block f b \<Longrightarrow> small (with_params b ts f) \<Longrightarrow> fn_inv (with_params b ts f)"
  by (simp add: fn_inv_def ssa_with_params linked_with_params)
     (simp add: placed_def with_params_def Let_def has_block_def concat_update_same [where g = bd_insts]
       del: map_update)

text \<open>A new function: never a panic, its parameters are the values \<open>0..<P\<close> with the signature's
  types.\<close>

lemma fn_new_eq:
  "fn_new name s =
     Some (with_params (block_new 0) (sig_params s)
       \<lparr>fn_name = name, fn_sig = s, fn_entry = block_new 0, fn_insts = [], fn_values = [],
        fn_blocks = [block_default]\<rparr>)"
  using append_params_eq [of "\<lparr>fn_name = name, fn_sig = s, fn_entry = block_new 0, fn_insts = [],
      fn_values = [], fn_blocks = [block_default]\<rparr>" "block_new 0" "sig_params s"]
  by (simp add: fn_new_def fn_create_block_def Let_def with_params_def has_block_def bent.idx_mk_id)

lemma fn_new_inv:
  assumes "fn_new name s = Some f" "small f"
  shows "fn_inv f"
proof -
  let ?f = "\<lparr>fn_name = name, fn_sig = s, fn_entry = block_new 0, fn_insts = [], fn_values = [],
      fn_blocks = [block_default]\<rparr>"
  have f: "f = with_params (block_new 0) (sig_params s) ?f"
    using assms(1) by (simp add: fn_new_eq)
  have "fn_inv ?f"
    by (simp add: fn_inv_def ssa_def placed_def linked_def defined_values_def block_default_def)
  moreover have "has_block ?f (block_new 0)" by (simp add: has_block_def bent.idx_mk_id)
  ultimately show ?thesis using with_params_inv assms(2) unfolding f by blast
qed

end
