(* ===== verification/Ir_Builder.thy ===== *)
theory Ir_Builder
  imports Ir_Func
begin

text \<open>
  \<open>evm-codegen/src/ir/builder.rs\<close> and the errors of \<open>ir.rs\<close>: the builder of one function, a
  state machine with a current block and a sticky error. A panic (an index out of range) is
  \<open>None\<close>. \<open>fb_call\<close> collects the methods, \<open>built\<close> is the set of states a caller can reach; the
  invariants are proved over it by rule induction.
\<close>

subsection \<open>Errors (ir.rs)\<close>

datatype ir_error =
    NoCurrentBlock
  | AlreadyTerminated bref
  | IrUnknownMnemonic string
  | ReservedOpcode string string
  | SignatureMismatch fref string
  | AlreadyDefined fref string
  | Undefined fref string
  | NoEntry

fun ir_error_display :: "ir_error \<Rightarrow> string" where
  "ir_error_display NoCurrentBlock =
     ''no block is being built '' @ em_dash @
     '' the last one was terminated; '' @ backtick ''switch_to'' @ '' another''"
| "ir_error_display (AlreadyTerminated b) = block_display b @ '' already ends in a terminator''"
| "ir_error_display (IrUnknownMnemonic m) = ''unknown opcode '' @ backtick m"
| "ir_error_display (ReservedOpcode m r) =
     backtick m @ '' cannot be emitted as a raw opcode: '' @ r"
| "ir_error_display (SignatureMismatch f n) =
     ''the body given for '' @ backtick n @ '' ('' @ func_display f @
     '') does not match its declared signature''"
| "ir_error_display (AlreadyDefined f n) =
     backtick n @ '' ('' @ func_display f @ '') is already defined''"
| "ir_error_display (Undefined f n) =
     backtick n @ '' ('' @ func_display f @ '') was declared but never defined''"
| "ir_error_display NoEntry = ''the module has no entry function''"

subsection \<open>The builder\<close>

record builder =
  fb_func :: ir_function
  fb_current :: "bref option"
  fb_last :: "iref option"
  fb_error :: "ir_error option"

definition fb_new :: "string \<Rightarrow> signature \<Rightarrow> builder option" where
  "fb_new name s =
     map_option (\<lambda>f. \<lparr>fb_func = f, fb_current = Some (fn_entry f), fb_last = None, fb_error = None\<rparr>)
       (fn_new name s)"

definition fb_fail :: "ir_error \<Rightarrow> builder \<Rightarrow> builder" where
  "fb_fail e b = (case fb_error b of None \<Rightarrow> b\<lparr>fb_error := Some e\<rparr> | Some _ \<Rightarrow> b)"

definition fb_entry :: "builder \<Rightarrow> bref" where "fb_entry b = fn_entry (fb_func b)"

definition fb_block_param :: "builder \<Rightarrow> bref \<Rightarrow> nat \<Rightarrow> vref option" where
  "fb_block_param b k n = Option.bind (fn_block_params (fb_func b) k) (\<lambda>ps. nth_opt ps n)"

definition fb_param :: "builder \<Rightarrow> nat \<Rightarrow> vref option" where
  "fb_param b n = fb_block_param b (fb_entry b) n"

definition fb_create_block :: "builder \<Rightarrow> bref \<times> builder" where
  "fb_create_block b = (let (k, f) = fn_create_block (fb_func b) in (k, b\<lparr>fb_func := f\<rparr>))"

definition fb_create_block_with :: "ty list \<Rightarrow> builder \<Rightarrow> (bref \<times> builder) option" where
  "fb_create_block_with ts b =
     (let (k, f) = fn_create_block (fb_func b) in
      map_option (\<lambda>f'. (k, b\<lparr>fb_func := f'\<rparr>)) (append_params k ts f))"

definition fb_set_block_kind :: "bref \<Rightarrow> block_kind \<Rightarrow> builder \<Rightarrow> builder option" where
  "fb_set_block_kind k kind b =
     map_option (\<lambda>f. b\<lparr>fb_func := f\<rparr>) (fn_set_block_kind k kind (fb_func b))"

definition fb_switch_to :: "bref \<Rightarrow> builder \<Rightarrow> builder" where
  "fb_switch_to k b = b\<lparr>fb_current := Some k, fb_last := None\<rparr>"

definition fb_note :: "string \<Rightarrow> builder \<Rightarrow> builder option" where
  "fb_note s b =
     (case fb_last b of
        None \<Rightarrow> Some b
      | Some i \<Rightarrow> map_option (\<lambda>f. b\<lparr>fb_func := f\<rparr>) (set_note i s (fb_func b)))"

definition fb_terminate :: "terminator \<Rightarrow> builder \<Rightarrow> builder option" where
  "fb_terminate t b =
     (if fb_error b \<noteq> None then Some b
      else case fb_current b of
          None \<Rightarrow> Some (fb_fail NoCurrentBlock b)
        | Some k \<Rightarrow>
            (case fn_terminator (fb_func b) k of
               None \<Rightarrow> None
             | Some (Some _) \<Rightarrow> Some (fb_fail (AlreadyTerminated k) b)
             | Some None \<Rightarrow>
                 map_option (\<lambda>f. b\<lparr>fb_func := f, fb_current := None, fb_last := None\<rparr>)
                   (set_terminator k t (fb_func b))))"

definition fb_jump :: "bref \<Rightarrow> vref list \<Rightarrow> builder \<Rightarrow> builder option" where
  "fb_jump to args = fb_terminate (Jump (block_call_new to args))"

definition fb_brif :: "vref \<Rightarrow> bref \<Rightarrow> vref list \<Rightarrow> bref \<Rightarrow> vref list \<Rightarrow> builder \<Rightarrow> builder option" where
  "fb_brif c t targs e eargs = fb_terminate (Brif c (block_call_new t targs) (block_call_new e eargs))"

definition fb_switch :: "vref \<Rightarrow> (immediate \<times> bref) list \<Rightarrow> bref \<Rightarrow> builder \<Rightarrow> builder option" where
  "fb_switch on cases def =
     fb_terminate (Switch on (map (\<lambda>(v, k). (v, block_call_new k [])) cases) (block_call_new def []))"

definition fb_ret :: "vref list \<Rightarrow> builder \<Rightarrow> builder option" where
  "fb_ret vs = fb_terminate (Return vs)"
definition fb_stop :: "builder \<Rightarrow> builder option" where
  "fb_stop = fb_terminate Stop"
definition fb_return_data :: "vref \<Rightarrow> vref \<Rightarrow> builder \<Rightarrow> builder option" where
  "fb_return_data p l = fb_terminate (ReturnData p l)"
definition fb_revert :: "vref \<Rightarrow> vref \<Rightarrow> builder \<Rightarrow> builder option" where
  "fb_revert p l = fb_terminate (Revert p l)"
definition fb_selfdestruct :: "vref \<Rightarrow> builder \<Rightarrow> builder option" where
  "fb_selfdestruct v = fb_terminate (SelfDestruct v)"
definition fb_invalid :: "builder \<Rightarrow> builder option" where
  "fb_invalid = fb_terminate Invalid"
definition fb_unreachable :: "builder \<Rightarrow> builder option" where
  "fb_unreachable = fb_terminate Unreachable"

definition fb_finish :: "builder \<Rightarrow> ir_error + ir_function" where
  "fb_finish b = (case fb_error b of Some e \<Rightarrow> Inl e | None \<Rightarrow> Inr (fb_func b))"

subsection \<open>Instructions\<close>

definition placeholder :: "nat \<Rightarrow> vref list" where
  "placeholder n = replicate n (value_new 0)"

definition fb_emit ::
    "ir_op \<Rightarrow> ty \<Rightarrow> repair \<Rightarrow> vref list \<Rightarrow> ty list \<Rightarrow> builder \<Rightarrow> (vref list \<times> builder) option" where
  "fb_emit x t r args ts b =
     (if fb_error b \<noteq> None then Some (placeholder (length ts), b)
      else case fb_current b of
          None \<Rightarrow> Some (placeholder (length ts), fb_fail NoCurrentBlock b)
        | Some k \<Rightarrow>
            (case fn_terminator (fb_func b) k of
               None \<Rightarrow> None
             | Some (Some _) \<Rightarrow> Some (placeholder (length ts), fb_fail (AlreadyTerminated k) b)
             | Some None \<Rightarrow>
                 let d = \<lparr>id_op = x, id_ty = t, id_repair = r, id_args = args, id_results = [],
                          id_note = None\<rparr> in
                 (case append_inst k d ts (fb_func b) of
                    None \<Rightarrow> None
                  | Some (i, f) \<Rightarrow>
                      map_option (\<lambda>rs. (rs, b\<lparr>fb_func := f, fb_last := Some i\<rparr>)) (fn_results f i))))"

text \<open>\<open>results[0]\<close> of what was emitted.\<close>

definition first_result :: "(vref list \<times> builder) option \<Rightarrow> (vref \<times> builder) option" where
  "first_result r =
     (case r of None \<Rightarrow> None | Some (vs, b) \<Rightarrow> map_option (\<lambda>v. (v, b)) (nth_opt vs 0))"

definition unary_op :: "ir_op \<Rightarrow> ty \<Rightarrow> vref list \<Rightarrow> builder \<Rightarrow> (vref \<times> builder) option" where
  "unary_op x t args b = first_result (fb_emit x t (default_repair x t) args [t] b)"

definition checked :: "ir_op \<Rightarrow> ty \<Rightarrow> vref \<Rightarrow> vref \<Rightarrow> builder \<Rightarrow> ((vref \<times> vref) \<times> builder) option" where
  "checked x t a c b =
     (case fb_emit x t (default_repair x t) [a, c] [t, ty_bool] b of
        None \<Rightarrow> None
      | Some (vs, b') \<Rightarrow>
          (case (nth_opt vs 0, nth_opt vs 1) of (Some v, Some w) \<Rightarrow> Some ((v, w), b') | _ \<Rightarrow> None))"

definition ins_iconst :: "ty \<Rightarrow> immediate \<Rightarrow> builder \<Rightarrow> (vref \<times> builder) option" where
  "ins_iconst t imm = unary_op (OConst imm) t []"
definition ins_add :: "ty \<Rightarrow> vref \<Rightarrow> vref \<Rightarrow> builder \<Rightarrow> (vref \<times> builder) option" where
  "ins_add t a c = unary_op OAdd t [a, c]"
definition ins_sub :: "ty \<Rightarrow> vref \<Rightarrow> vref \<Rightarrow> builder \<Rightarrow> (vref \<times> builder) option" where
  "ins_sub t a c = unary_op OSub t [a, c]"
definition ins_mul :: "ty \<Rightarrow> vref \<Rightarrow> vref \<Rightarrow> builder \<Rightarrow> (vref \<times> builder) option" where
  "ins_mul t a c = unary_op OMul t [a, c]"
definition ins_div :: "ty \<Rightarrow> vref \<Rightarrow> vref \<Rightarrow> builder \<Rightarrow> (vref \<times> builder) option" where
  "ins_div t a c = unary_op ODiv t [a, c]"
definition ins_rem :: "ty \<Rightarrow> vref \<Rightarrow> vref \<Rightarrow> builder \<Rightarrow> (vref \<times> builder) option" where
  "ins_rem t a c = unary_op ORem t [a, c]"
definition ins_exp :: "ty \<Rightarrow> vref \<Rightarrow> vref \<Rightarrow> builder \<Rightarrow> (vref \<times> builder) option" where
  "ins_exp t a c = unary_op OExp t [a, c]"
definition ins_add_overflow :: "ty \<Rightarrow> vref \<Rightarrow> vref \<Rightarrow> builder \<Rightarrow> ((vref \<times> vref) \<times> builder) option" where
  "ins_add_overflow t a c = checked OAddOverflow t a c"
definition ins_sub_overflow :: "ty \<Rightarrow> vref \<Rightarrow> vref \<Rightarrow> builder \<Rightarrow> ((vref \<times> vref) \<times> builder) option" where
  "ins_sub_overflow t a c = checked OSubOverflow t a c"
definition ins_mul_overflow :: "ty \<Rightarrow> vref \<Rightarrow> vref \<Rightarrow> builder \<Rightarrow> ((vref \<times> vref) \<times> builder) option" where
  "ins_mul_overflow t a c = checked OMulOverflow t a c"
definition ins_and :: "ty \<Rightarrow> vref \<Rightarrow> vref \<Rightarrow> builder \<Rightarrow> (vref \<times> builder) option" where
  "ins_and t a c = unary_op OAnd t [a, c]"
definition ins_or :: "ty \<Rightarrow> vref \<Rightarrow> vref \<Rightarrow> builder \<Rightarrow> (vref \<times> builder) option" where
  "ins_or t a c = unary_op OOr t [a, c]"
definition ins_xor :: "ty \<Rightarrow> vref \<Rightarrow> vref \<Rightarrow> builder \<Rightarrow> (vref \<times> builder) option" where
  "ins_xor t a c = unary_op OXor t [a, c]"
definition ins_shl :: "ty \<Rightarrow> vref \<Rightarrow> vref \<Rightarrow> builder \<Rightarrow> (vref \<times> builder) option" where
  "ins_shl t a c = unary_op OShl t [a, c]"
definition ins_shr :: "ty \<Rightarrow> vref \<Rightarrow> vref \<Rightarrow> builder \<Rightarrow> (vref \<times> builder) option" where
  "ins_shr t a c = unary_op OShr t [a, c]"
definition ins_sar :: "ty \<Rightarrow> vref \<Rightarrow> vref \<Rightarrow> builder \<Rightarrow> (vref \<times> builder) option" where
  "ins_sar t a c = unary_op OSar t [a, c]"
definition ins_not :: "ty \<Rightarrow> vref \<Rightarrow> builder \<Rightarrow> (vref \<times> builder) option" where
  "ins_not t a = unary_op ONot t [a]"
definition ins_icmp :: "cmp \<Rightarrow> vref \<Rightarrow> vref \<Rightarrow> builder \<Rightarrow> (vref \<times> builder) option" where
  "ins_icmp c a d = unary_op (OIcmp c) ty_bool [a, d]"
definition ins_select :: "ty \<Rightarrow> vref \<Rightarrow> vref \<Rightarrow> vref \<Rightarrow> builder \<Rightarrow> (vref \<times> builder) option" where
  "ins_select t c a d = unary_op OSelect t [c, a, d]"
definition ins_alloca :: "32 word \<Rightarrow> builder \<Rightarrow> (vref \<times> builder) option" where
  "ins_alloca n = unary_op (OAlloca n) TPtr []"
definition ins_load :: "ty \<Rightarrow> vref \<Rightarrow> builder \<Rightarrow> (vref \<times> builder) option" where
  "ins_load t p = unary_op OLoad t [p]"
definition ins_sload :: "ty \<Rightarrow> vref \<Rightarrow> builder \<Rightarrow> (vref \<times> builder) option" where
  "ins_sload t p = unary_op OSLoad t [p]"
definition ins_tload :: "ty \<Rightarrow> vref \<Rightarrow> builder \<Rightarrow> (vref \<times> builder) option" where
  "ins_tload t p = unary_op OTLoad t [p]"

definition ins_convert :: "ty \<Rightarrow> vref \<Rightarrow> builder \<Rightarrow> (vref \<times> builder) option" where
  "ins_convert to v b =
     (case value_type (fb_func b) v of
        None \<Rightarrow> None
      | Some from \<Rightarrow> first_result (fb_emit OConvert to (for_convert from to) [v] [to] b))"

definition ins_store :: "vref \<Rightarrow> vref \<Rightarrow> builder \<Rightarrow> builder option" where
  "ins_store p v b =
     (case value_type (fb_func b) v of
        None \<Rightarrow> None
      | Some t \<Rightarrow> map_option snd (fb_emit OStore t RepairNone [p, v] [] b))"

definition ins_sstore :: "vref \<Rightarrow> vref \<Rightarrow> builder \<Rightarrow> builder option" where
  "ins_sstore p v b =
     (case value_type (fb_func b) v of
        None \<Rightarrow> None
      | Some t \<Rightarrow> map_option snd (fb_emit OSStore t RepairNone [p, v] [] b))"

definition ins_tstore :: "vref \<Rightarrow> vref \<Rightarrow> builder \<Rightarrow> builder option" where
  "ins_tstore p v b =
     (case value_type (fb_func b) v of
        None \<Rightarrow> None
      | Some t \<Rightarrow> map_option snd (fb_emit OTStore t RepairNone [p, v] [] b))"

definition ins_memcopy :: "vref \<Rightarrow> vref \<Rightarrow> vref \<Rightarrow> builder \<Rightarrow> builder option" where
  "ins_memcopy dst src len b =
     map_option snd (fb_emit OMemCopy TPtr RepairNone [dst, src, len] [] b)"

definition reserved_reason :: "op_spec \<Rightarrow> string option" where
  "reserved_reason s =
     (if op_form s \<noteq> Simple \<or> category s = CatStackManip
      then Some ''the stackifier owns the operand stack''
      else if category s = CatControl then Some ''EIR owns control flow''
      else if terminating s then Some ''terminating opcodes are terminators''
      else None)"

text \<open>\<open>raw_opcode\<close>: the inner \<open>None\<close> is its \<open>None\<close>, the outer one a panic.\<close>

definition raw_opcode ::
    "string \<Rightarrow> ty \<Rightarrow> vref list \<Rightarrow> nat \<Rightarrow> builder \<Rightarrow> (vref list option \<times> builder) option" where
  "raw_opcode m t args results b =
     (case by_mnemonic m of
        None \<Rightarrow> Some (None, fb_fail (IrUnknownMnemonic m) b)
      | Some s \<Rightarrow>
          (case reserved_reason s of
             Some reason \<Rightarrow> Some (None, fb_fail (ReservedOpcode (mnemonic s) reason) b)
           | None \<Rightarrow>
               map_option (\<lambda>(vs, b'). (Some vs, b'))
                 (fb_emit (OOpcode s) t RepairNone args (replicate results t) b)))"

definition ins_opcode_value :: "string \<Rightarrow> ty \<Rightarrow> vref list \<Rightarrow> builder \<Rightarrow> (vref \<times> builder) option" where
  "ins_opcode_value m t args b =
     (case raw_opcode m t args 1 b of
        None \<Rightarrow> None
      | Some (Some vs, b') \<Rightarrow> map_option (\<lambda>v. (v, b')) (nth_opt vs 0)
      | Some (None, b') \<Rightarrow> Some (value_new 0, b'))"

definition ins_opcode_void :: "string \<Rightarrow> vref list \<Rightarrow> builder \<Rightarrow> builder option" where
  "ins_opcode_void m args b = map_option snd (raw_opcode m ty_u256 args 0 b)"

definition ins_call :: "fref \<Rightarrow> signature \<Rightarrow> vref list \<Rightarrow> builder \<Rightarrow> (vref list \<times> builder) option" where
  "ins_call callee s args b =
     (let t = (case sig_returns s of [] \<Rightarrow> ty_u256 | r # _ \<Rightarrow> r) in
      fb_emit (OCall callee) t RepairNone args (sig_returns s) b)"

subsection \<open>The methods as calls\<close>

datatype ins_method =
    IIconst ty immediate
  | IAdd ty vref vref
  | ISub ty vref vref
  | IMul ty vref vref
  | IDiv ty vref vref
  | IRem ty vref vref
  | IExp ty vref vref
  | IAnd ty vref vref
  | IOr ty vref vref
  | IXor ty vref vref
  | IShl ty vref vref
  | IShr ty vref vref
  | ISar ty vref vref
  | IAddOverflow ty vref vref
  | ISubOverflow ty vref vref
  | IMulOverflow ty vref vref
  | INot ty vref
  | IConvert ty vref
  | IIcmp cmp vref vref
  | ISelect ty vref vref vref
  | IAlloca "32 word"
  | ILoad ty vref
  | IStore vref vref
  | IMemcopy vref vref vref
  | ISload ty vref
  | ISstore vref vref
  | ITload ty vref
  | ITstore vref vref
  | IOpcode string ty "vref list"
  | IOpcodeVoid string "vref list"
  | ICall fref signature "vref list"

fun ins_run :: "ins_method \<Rightarrow> builder \<Rightarrow> builder option" where
  "ins_run (IIconst x y) b = map_option snd (ins_iconst x y b)"
| "ins_run (IAdd x y z) b = map_option snd (ins_add x y z b)"
| "ins_run (ISub x y z) b = map_option snd (ins_sub x y z b)"
| "ins_run (IMul x y z) b = map_option snd (ins_mul x y z b)"
| "ins_run (IDiv x y z) b = map_option snd (ins_div x y z b)"
| "ins_run (IRem x y z) b = map_option snd (ins_rem x y z b)"
| "ins_run (IExp x y z) b = map_option snd (ins_exp x y z b)"
| "ins_run (IAnd x y z) b = map_option snd (ins_and x y z b)"
| "ins_run (IOr x y z) b = map_option snd (ins_or x y z b)"
| "ins_run (IXor x y z) b = map_option snd (ins_xor x y z b)"
| "ins_run (IShl x y z) b = map_option snd (ins_shl x y z b)"
| "ins_run (IShr x y z) b = map_option snd (ins_shr x y z b)"
| "ins_run (ISar x y z) b = map_option snd (ins_sar x y z b)"
| "ins_run (IAddOverflow x y z) b = map_option snd (ins_add_overflow x y z b)"
| "ins_run (ISubOverflow x y z) b = map_option snd (ins_sub_overflow x y z b)"
| "ins_run (IMulOverflow x y z) b = map_option snd (ins_mul_overflow x y z b)"
| "ins_run (INot x y) b = map_option snd (ins_not x y b)"
| "ins_run (IConvert x y) b = map_option snd (ins_convert x y b)"
| "ins_run (IIcmp x y z) b = map_option snd (ins_icmp x y z b)"
| "ins_run (ISelect x y z u) b = map_option snd (ins_select x y z u b)"
| "ins_run (IAlloca x) b = map_option snd (ins_alloca x b)"
| "ins_run (ILoad x y) b = map_option snd (ins_load x y b)"
| "ins_run (IStore x y) b = ins_store x y b"
| "ins_run (IMemcopy x y z) b = ins_memcopy x y z b"
| "ins_run (ISload x y) b = map_option snd (ins_sload x y b)"
| "ins_run (ISstore x y) b = ins_sstore x y b"
| "ins_run (ITload x y) b = map_option snd (ins_tload x y b)"
| "ins_run (ITstore x y) b = ins_tstore x y b"
| "ins_run (IOpcode x y z) b = map_option snd (ins_opcode_value x y z b)"
| "ins_run (IOpcodeVoid x y) b = ins_opcode_void x y b"
| "ins_run (ICall x y z) b = map_option snd (ins_call x y z b)"

datatype fb_method =
    MCreateBlock | MCreateBlockWith "ty list" | MSetBlockKind bref block_kind | MSwitchTo bref
  | MNote string | MIns ins_method
  | MJump bref "vref list"
  | MBrif vref bref "vref list" bref "vref list"
  | MSwitch vref "(immediate \<times> bref) list" bref
  | MRet "vref list"
  | MStop
  | MReturnData vref vref
  | MRevert vref vref
  | MSelfDestruct vref
  | MInvalid
  | MUnreachable

fun fb_call :: "fb_method \<Rightarrow> builder \<Rightarrow> builder option" where
  "fb_call MCreateBlock b = Some (snd (fb_create_block b))"
| "fb_call (MCreateBlockWith ts) b = map_option snd (fb_create_block_with ts b)"
| "fb_call (MSetBlockKind k kind) b = fb_set_block_kind k kind b"
| "fb_call (MSwitchTo k) b = Some (fb_switch_to k b)"
| "fb_call (MNote s) b = fb_note s b"
| "fb_call (MIns c) b = ins_run c b"
| "fb_call (MJump x y) b = fb_jump x y b"
| "fb_call (MBrif x y z u w) b = fb_brif x y z u w b"
| "fb_call (MSwitch x y z) b = fb_switch x y z b"
| "fb_call (MRet x) b = fb_ret x b"
| "fb_call MStop b = fb_stop b"
| "fb_call (MReturnData x y) b = fb_return_data x y b"
| "fb_call (MRevert x y) b = fb_revert x y b"
| "fb_call (MSelfDestruct x) b = fb_selfdestruct x b"
| "fb_call MInvalid b = fb_invalid b"
| "fb_call MUnreachable b = fb_unreachable b"

fun fb_run :: "fb_method list \<Rightarrow> builder \<Rightarrow> builder option" where
  "fb_run [] b = Some b"
| "fb_run (c # cs) b = Option.bind (fb_call c b) (fb_run cs)"

text \<open>The states a caller can reach: \<open>FunctionBuilder::new\<close>, then any methods that return.\<close>

inductive built :: "string \<Rightarrow> signature \<Rightarrow> builder \<Rightarrow> bool" for name :: string and s :: signature where
  new: "fb_new name s = Some b \<Longrightarrow> built name s b"
| call: "built name s b \<Longrightarrow> fb_call c b = Some b' \<Longrightarrow> built name s b'"

lemmas term_defs = fb_jump_def fb_brif_def fb_switch_def fb_ret_def fb_stop_def fb_return_data_def
  fb_revert_def fb_selfdestruct_def fb_invalid_def fb_unreachable_def

lemmas ins_unary_defs = ins_iconst_def ins_add_def ins_sub_def ins_mul_def ins_div_def ins_rem_def ins_exp_def
  ins_and_def ins_or_def ins_xor_def ins_shl_def ins_shr_def ins_sar_def ins_not_def
  ins_icmp_def ins_select_def ins_alloca_def ins_load_def ins_sload_def ins_tload_def
lemmas ins_checked_defs = ins_add_overflow_def ins_sub_overflow_def ins_mul_overflow_def

subsection \<open>What the methods can do\<close>

text \<open>What a method may emit: the repair, the result types and the raw opcodes it is allowed.\<close>

definition emit_ok :: "ir_function \<Rightarrow> ir_op \<Rightarrow> ty \<Rightarrow> repair \<Rightarrow> vref list \<Rightarrow> ty list \<Rightarrow> bool" where
  "emit_ok f x t r args ts \<longleftrightarrow>
     (case x of
        OConvert \<Rightarrow> ts = [t] \<and>
          (\<exists>v from. args = [v] \<and> value_type f v = Some from \<and> r = for_convert from t)
      | OStore \<Rightarrow> ts = [] \<and> r = RepairNone | OSStore \<Rightarrow> ts = [] \<and> r = RepairNone
      | OTStore \<Rightarrow> ts = [] \<and> r = RepairNone | OMemCopy \<Rightarrow> ts = [] \<and> r = RepairNone
      | OOpcode s \<Rightarrow> s \<in> set OPCODES \<and> reserved_reason s = None \<and> r = RepairNone \<and>
          (\<forall>u \<in> set ts. u = t)
      | OCall _ \<Rightarrow> r = RepairNone
      | OAddOverflow \<Rightarrow> ts = [t, ty_bool] \<and> r = default_repair x t
      | OSubOverflow \<Rightarrow> ts = [t, ty_bool] \<and> r = default_repair x t
      | OMulOverflow \<Rightarrow> ts = [t, ty_bool] \<and> r = default_repair x t
      | OIcmp _ \<Rightarrow> t = ty_bool \<and> ts = [t] \<and> r = default_repair x t
      | OAlloca _ \<Rightarrow> t = TPtr \<and> ts = [t] \<and> r = default_repair x t
      | _ \<Rightarrow> ts = [t] \<and> r = default_repair x t)"

text \<open>How a method can change the function under construction.\<close>

definition writable :: "builder \<Rightarrow> bref \<Rightarrow> bool" where
  "writable b k \<longleftrightarrow> fb_error b = None \<and> fb_current b = Some k \<and>
     fn_terminator (fb_func b) k = Some None"

definition new_inst :: "ir_op \<Rightarrow> ty \<Rightarrow> repair \<Rightarrow> vref list \<Rightarrow> inst_data" where
  "new_inst x t r args = \<lparr>id_op = x, id_ty = t, id_repair = r, id_args = args, id_results = [],
     id_note = None\<rparr>"

inductive func_step :: "builder \<Rightarrow> ir_function \<Rightarrow> bool" for b :: builder where
  fs_same: "func_step b (fb_func b)"
| fs_block: "func_step b (snd (fn_create_block (fb_func b)))"
| fs_block_with: "append_params (fst (fn_create_block (fb_func b))) ts
     (snd (fn_create_block (fb_func b))) = Some f \<Longrightarrow> func_step b f"
| fs_kind: "fn_set_block_kind k kd (fb_func b) = Some f \<Longrightarrow> func_step b f"
| fs_note: "fb_last b = Some i \<Longrightarrow> set_note i s (fb_func b) = Some f \<Longrightarrow> func_step b f"
| fs_term: "writable b k \<Longrightarrow> set_terminator k t (fb_func b) = Some f \<Longrightarrow> func_step b f"
| fs_inst: "writable b k \<Longrightarrow> emit_ok (fb_func b) x t r args ts \<Longrightarrow>
     append_inst k (new_inst x t r args) ts (fb_func b) = Some (i, f) \<Longrightarrow> func_step b f"

inductive_cases func_stepE: "func_step b f"

lemma fb_func_fail [simp]: "fb_func (fb_fail e b) = fb_func b"
  by (simp add: fb_fail_def split: option.splits)

lemma emit_func_step:
  assumes "fb_emit x t r args ts b = Some (vs, b')" and "emit_ok (fb_func b) x t r args ts"
  shows "func_step b (fb_func b')"
  using assms
  by (auto simp: fb_emit_def writable_def new_inst_def Let_def split: if_splits option.splits
      intro: fs_same fs_inst)

lemma unary_func_step:
  assumes "unary_op x t args b = Some (v, b')"
    and "emit_ok (fb_func b) x t (default_repair x t) args [t]"
  shows "func_step b (fb_func b')"
  using assms(1) emit_func_step [OF _ assms(2)]
  by (auto simp: unary_op_def first_result_def split: option.splits)

lemma checked_func_step:
  assumes "checked x t a c b = Some (v, b')" and "x \<in> {OAddOverflow, OSubOverflow, OMulOverflow}"
  shows "func_step b (fb_func b')"
  using assms(1) emit_func_step [of x t "default_repair x t" "[a, c]" "[t, ty_bool]" b] assms(2)
  by (auto simp: checked_def emit_ok_def split: option.splits prod.splits)

lemma raw_opcode_func_step:
  assumes "raw_opcode m t args n b = Some (vs, b')"
  shows "func_step b (fb_func b')"
proof (cases "by_mnemonic m")
  case None
  then show ?thesis using assms by (auto simp: raw_opcode_def intro: fs_same)
next
  case (Some s)
  then have "s \<in> set OPCODES" by (simp add: by_mnemonic_SomeD)
  then show ?thesis
    using assms Some
    by (auto simp: raw_opcode_def emit_ok_def intro: fs_same emit_func_step
        split: option.splits)
qed

lemma fb_func_switch_to [simp]: "fb_func (fb_switch_to k b) = fb_func b"
  by (simp add: fb_switch_to_def)

lemma convert_func_step:
  assumes "ins_convert t v b = Some (w, b')"
  shows "func_step b (fb_func b')"
proof -
  obtain ft vs where "value_type (fb_func b) v = Some ft"
    "fb_emit OConvert t (for_convert ft t) [v] [t] b = Some (vs, b')"
    using assms by (auto simp: ins_convert_def first_result_def split: option.splits)
  then show ?thesis by (auto simp: emit_ok_def intro: emit_func_step)
qed

lemma store_func_step:
  assumes "(case value_type (fb_func b) v of None \<Rightarrow> None
     | Some t \<Rightarrow> map_option snd (fb_emit x t RepairNone [p, v] [] b)) = Some b'"
    and "x \<in> {OStore, OSStore, OTStore}"
  shows "func_step b (fb_func b')"
proof -
  obtain t vs where "fb_emit x t RepairNone [p, v] [] b = Some (vs, b')"
    using assms(1) by (auto split: option.splits)
  then show ?thesis using assms(2) by (auto simp: emit_ok_def intro: emit_func_step)
qed

lemma ins_func_step:
  assumes "ins_run c b = Some b'"
  shows "func_step b (fb_func b')"
proof (cases c)
  case (IStore p v)
  then show ?thesis using assms by (auto simp: ins_store_def intro: store_func_step)
next
  case (ISstore p v)
  then show ?thesis using assms by (auto simp: ins_sstore_def intro: store_func_step)
next
  case (ITstore p v)
  then show ?thesis using assms by (auto simp: ins_tstore_def intro: store_func_step)
next
  case (IConvert t v)
  then show ?thesis using assms by (auto intro: convert_func_step)
next
  case (IMemcopy d e n)
  then show ?thesis using assms
    by (auto simp: ins_memcopy_def emit_ok_def intro: emit_func_step)
next
  case (IOpcode m t args)
  then show ?thesis using assms
    by (auto simp: ins_opcode_value_def dest: raw_opcode_func_step split: option.splits)
next
  case (IOpcodeVoid m args)
  then show ?thesis using assms
    by (auto simp: ins_opcode_void_def dest: raw_opcode_func_step split: option.splits)
next
  case (ICall f s args)
  then show ?thesis using assms
    by (auto simp: ins_call_def emit_ok_def Let_def intro: emit_func_step)
qed (use assms in \<open>auto simp: ins_unary_defs ins_checked_defs emit_ok_def
    elim!: unary_func_step checked_func_step\<close>)

lemma term_func_step:
  assumes "fb_terminate t b = Some b'"
  shows "func_step b (fb_func b')"
  using assms
  by (auto simp: fb_terminate_def writable_def split: if_splits option.splits
      intro: fs_same fs_term)

lemma fb_call_func_step:
  assumes "fb_call c b = Some b'"
  shows "func_step b (fb_func b')"
proof (cases c)
  case MCreateBlock
  then show ?thesis using assms
    by (auto simp: fb_create_block_def fs_block [of b] split: prod.splits intro: fs_block)
       (metis fs_block snd_conv)
next
  case (MCreateBlockWith ts)
  then show ?thesis using assms fs_block_with [of b ts]
    by (auto simp: fb_create_block_with_def split: prod.splits)
next
  case (MSetBlockKind k kd)
  then show ?thesis using assms by (auto simp: fb_set_block_kind_def intro: fs_kind)
next
  case (MNote s)
  then show ?thesis using assms
    by (auto simp: fb_note_def split: option.splits intro: fs_same fs_note)
next
  case (MIns c')
  then show ?thesis using assms by (auto intro: ins_func_step)
qed (use assms in \<open>auto simp: term_defs fs_same intro: term_func_step\<close>)

subsection \<open>Sizes\<close>

definition grows :: "ir_function \<Rightarrow> ir_function \<Rightarrow> bool" where
  "grows f g \<longleftrightarrow> length (fn_insts f) \<le> length (fn_insts g) \<and>
     length (fn_values f) \<le> length (fn_values g) \<and> length (fn_blocks f) \<le> length (fn_blocks g)"

lemma grows_small: "grows f g \<Longrightarrow> small g \<Longrightarrow> small f"
  by (auto simp: grows_def small_def)

lemma append_results_length:
  "append_results i n ts f = Some g \<Longrightarrow> length (fn_insts g) = length (fn_insts f) \<and>
     length (fn_values g) = length (fn_values f) + length ts \<and>
     length (fn_blocks g) = length (fn_blocks f)"
  by (induction i n ts f rule: append_results.induct)
     (auto simp: push_value_def Let_def update_opt_Some_iff split: option.splits)

lemma append_inst_length:
  "append_inst k d ts f = Some (i, g) \<Longrightarrow> length (fn_insts g) = Suc (length (fn_insts f)) \<and>
     length (fn_values g) = length (fn_values f) + length ts \<and>
     length (fn_blocks g) = length (fn_blocks f)"
  by (auto simp: append_inst_def Let_def update_opt_Some_iff split: option.splits
      dest!: append_results_length)

lemma append_params_block:
  assumes "small (snd (fn_create_block f))"
  shows "append_params (fst (fn_create_block f)) ts (snd (fn_create_block f)) =
    Some (with_params (fst (fn_create_block f)) ts (snd (fn_create_block f)))"
  using append_params_eq [of "snd (fn_create_block f)" "fst (fn_create_block f)" ts] assms
  by (simp add: with_params_def Let_def has_block_def fn_create_block_def small_def bent.idx_mk_id)

lemma append_params_length:
  "append_params k ts f = Some g \<Longrightarrow> length (fn_insts g) = length (fn_insts f) \<and>
     length (fn_values g) = length (fn_values f) + length ts \<and>
     length (fn_blocks g) = length (fn_blocks f)"
  by (induction k ts f rule: append_params.induct)
     (auto simp: append_param_def push_value_def Let_def update_opt_Some_iff split: option.splits)

lemma func_step_grows: "func_step b g \<Longrightarrow> grows (fb_func b) g"
  by (erule func_stepE)
     (auto simp: grows_def fn_create_block_def set_terminator_def fn_set_block_kind_def set_note_def
       update_opt_Some_iff dest!: append_inst_length append_params_length)

lemma inst_step_eq:
  assumes "append_inst k d ts f = Some (i, g)" and "small g"
  shows "has_block f k" "g = with_inst k d ts f" "i = inst_new (length (fn_insts f))"
    "length (fn_insts f) < 2 ^ 32"
proof -
  show "length (fn_insts f) < 2 ^ 32"
    using append_inst_length [OF assms(1)] assms(2) by (simp add: small_def)
  from append_inst_eq [OF this, of k d ts] assms(1)
  show "has_block f k" "g = with_inst k d ts f" "i = inst_new (length (fn_insts f))"
    by (simp_all split: if_splits)
qed

lemma block_with_step_eq:
  assumes "append_params (fst (fn_create_block f)) ts (snd (fn_create_block f)) = Some g" "small g"
  shows "g = with_params (fst (fn_create_block f)) ts (snd (fn_create_block f))"
    "has_block (snd (fn_create_block f)) (fst (fn_create_block f))"
proof -
  have "grows (snd (fn_create_block f)) g"
    using append_params_length [OF assms(1)] by (simp add: grows_def)
  then have s: "small (snd (fn_create_block f))" using assms(2) by (rule grows_small)
  from append_params_block [OF this, of ts] assms(1)
  show "g = with_params (fst (fn_create_block f)) ts (snd (fn_create_block f))" by simp
  show "has_block (snd (fn_create_block f)) (fst (fn_create_block f))"
    using s by (simp add: has_block_def fn_create_block_def small_def bent.idx_mk_id)
qed

lemma func_step_inv:
  assumes "func_step b g" "fn_inv (fb_func b)" "small g"
  shows "fn_inv g"
  using assms(1)
proof (cases rule: func_step.cases)
  case (fs_block_with ts)
  note e = block_with_step_eq [OF fs_block_with assms(3)]
  show ?thesis
    using with_params_inv [OF fn_create_block_inv [OF assms(2)] e(2), of ts] assms(3)
    by (simp flip: e(1))
next
  case (fs_inst k x t r args ts i)
  note e = inst_step_eq [OF fs_inst(3) assms(3)]
  show ?thesis using with_inst_inv [OF assms(2) e(1)] assms(3) by (simp add: e(2))
qed (use assms in \<open>auto simp: fn_create_block_inv set_note_inv set_terminator_inv
    fn_set_block_kind_inv\<close>)

subsection \<open>The instructions of a function\<close>

text \<open>An instruction that satisfies \<open>emit_ok\<close> for the types of its results, in the function.\<close>

definition inst_ok :: "ir_function \<Rightarrow> inst_data \<Rightarrow> bool" where
  "inst_ok f d \<longleftrightarrow>
     (\<exists>ts. map (value_type f) (id_results d) = map Some ts \<and>
        emit_ok f (id_op d) (id_ty d) (id_repair d) (id_args d) ts)"

lemma value_type_mono:
  assumes "value_type f v = Some t" and "fn_values g = fn_values f @ new"
  shows "value_type g v = Some t"
  using assms by (auto simp: value_type_def nth_opt_def nth_append split: if_splits)

lemma emit_ok_mono:
  assumes "emit_ok f x t r args ts" and "\<And>v u. value_type f v = Some u \<Longrightarrow> value_type g v = Some u"
  shows "emit_ok g x t r args ts"
  using assms by (cases x) (auto simp: emit_ok_def)

lemma inst_ok_mono:
  assumes "inst_ok f d" and "\<And>v u. value_type f v = Some u \<Longrightarrow> value_type g v = Some u"
  shows "inst_ok g d"
proof -
  obtain ts where ts: "map (value_type f) (id_results d) = map Some ts"
    "emit_ok f (id_op d) (id_ty d) (id_repair d) (id_args d) ts"
    using assms(1) by (auto simp: inst_ok_def)
  have "map (value_type g) vs = map Some us" if "map (value_type f) vs = map Some us" for vs us
    using that assms(2) by (induction vs arbitrary: us) (auto simp: map_eq_Cons_conv)
  with ts show ?thesis using emit_ok_mono [OF ts(2) assms(2)] unfolding inst_ok_def by blast
qed

lemma inst_ok_note [simp]: "inst_ok f (d\<lparr>id_note := s\<rparr>) = inst_ok f d"
  by (simp add: inst_ok_def)

lemma inst_ok_cong:
  assumes "fn_values g = fn_values f"
  shows "inst_ok g d = inst_ok f d"
proof -
  have "value_type g v = value_type f v" for v using assms by (simp add: value_type_def)
  then show ?thesis using inst_ok_mono [of f d g] inst_ok_mono [of g d f] by auto
qed

lemma value_types_new:
  assumes "fn_values g = fn_values f @ map (\<lambda>(k, t). \<lparr>vd_ty = t, vd_def = D k\<rparr>) (enumerate s ts)"
    and "length (fn_values g) \<le> 2 ^ 32"
  shows "map (value_type g) (map value_new [length (fn_values f)..<length (fn_values f) + length ts]) =
    map Some ts"
  using assms
  by (intro nth_equalityI)
     (auto simp: value_type_def nth_opt_def vent.idx_mk_id nth_append nth_enumerate_eq)

lemma with_inst_ok:
  assumes "\<forall>d \<in> set (fn_insts f). inst_ok f d" and "small (with_inst k d ts f)"
    and "emit_ok f (id_op d) (id_ty d) (id_repair d) (id_args d) ts"
  shows "\<forall>d' \<in> set (fn_insts (with_inst k d ts f)). inst_ok (with_inst k d ts f) d'"
proof -
  let ?g = "with_inst k d ts f" and ?n = "length (fn_insts f)"
  have v: "fn_values ?g = fn_values f @
      map (\<lambda>(k, t). \<lparr>vd_ty = t, vd_def = DefResult (inst_new ?n) (of_nat k)\<rparr>) (enumerate 0 ts)"
    and i: "fn_insts ?g = fn_insts f @
      [d\<lparr>id_results := map value_new [length (fn_values f)..<length (fn_values f) + length ts]\<rparr>]"
    by (simp_all add: with_inst_def Let_def)
  note m = value_type_mono [OF _ v]
  have "map (value_type ?g) (map value_new [length (fn_values f)..<length (fn_values f) + length ts]) =
      map Some ts"
    using assms(2) by (intro value_types_new [OF v]) (simp add: small_def)
  then have "inst_ok ?g
      (d\<lparr>id_results := map value_new [length (fn_values f)..<length (fn_values f) + length ts]\<rparr>)"
    using emit_ok_mono [OF assms(3) m] by (auto simp: inst_ok_def)
  then show ?thesis using assms(1) inst_ok_mono [OF _ m] by (auto simp: i)
qed

lemma func_step_insts_ok:
  assumes "func_step b g" "\<forall>d \<in> set (fn_insts (fb_func b)). inst_ok (fb_func b) d" "small g"
  shows "\<forall>d \<in> set (fn_insts g). inst_ok g d"
  using assms(1)
proof (cases rule: func_step.cases)
  case (fs_block_with ts)
  note e = block_with_step_eq [OF fs_block_with assms(3)]
  show ?thesis
    using assms(2) inst_ok_mono [OF _ value_type_mono]
    by (auto simp: e(1) with_params_def Let_def fn_create_block_def)
next
  case (fs_inst k x t r args ts i)
  note e = inst_step_eq [OF fs_inst(3) assms(3)]
  show ?thesis
    using with_inst_ok [OF assms(2)] assms(3) fs_inst(2) by (simp add: e(2) new_inst_def)
next
  case (fs_note i s)
  have g: "inst_ok g d = inst_ok (fb_func b) d" for d
    by (rule inst_ok_cong) (use fs_note in \<open>auto simp: set_note_def\<close>)
  obtain d where d: "inst_index i < length (fn_insts (fb_func b))"
    "fn_insts g = (fn_insts (fb_func b))[inst_index i :=
       (fn_insts (fb_func b) ! inst_index i)\<lparr>id_note := Some s\<rparr>]"
    using fs_note by (auto simp: set_note_def update_opt_Some_iff)
  have "set (fn_insts g) \<subseteq> insert ((fn_insts (fb_func b) ! inst_index i)\<lparr>id_note := Some s\<rparr>)
      (set (fn_insts (fb_func b)))"
    unfolding d(2) by (rule set_update_subset_insert)
  then show ?thesis using assms(2) d(1) by (auto simp: g)
next
  case fs_block
  have g: "inst_ok g d = inst_ok (fb_func b) d" for d
    by (rule inst_ok_cong) (simp add: fs_block fn_create_block_def)
  show ?thesis using assms(2) by (simp add: g) (simp add: fs_block fn_create_block_def)
next
  case (fs_kind k kd)
  have g: "inst_ok g d = inst_ok (fb_func b) d" for d
    by (rule inst_ok_cong) (use fs_kind in \<open>auto simp: fn_set_block_kind_def\<close>)
  show ?thesis using assms(2) fs_kind by (auto simp: g fn_set_block_kind_def)
next
  case (fs_term k t)
  have g: "inst_ok g d = inst_ok (fb_func b) d" for d
    by (rule inst_ok_cong) (use fs_term in \<open>auto simp: set_terminator_def\<close>)
  show ?thesis using assms(2) fs_term by (auto simp: g set_terminator_def)
qed (use assms in auto)

subsection \<open>The entry block, and frozen blocks\<close>

definition entry_ok :: "signature \<Rightarrow> ir_function \<Rightarrow> bool" where
  "entry_ok s f \<longleftrightarrow> fn_entry f = block_new 0 \<and> fn_sig f = s \<and> fn_blocks f \<noteq> [] \<and>
     bd_params (fn_blocks f ! 0) = map value_new [0..<length (sig_params s)] \<and>
     map (value_type f) (map value_new [0..<length (sig_params s)]) = map Some (sig_params s)"

lemma map_Some_mono:
  assumes "map (value_type f) vs = map Some us"
    and "\<And>v u. value_type f v = Some u \<Longrightarrow> value_type g v = Some u"
  shows "map (value_type g) vs = map Some us"
  using assms(1) by (induction vs arbitrary: us) (auto simp: map_eq_Cons_conv assms(2))

lemma entry_ok_mono:
  assumes "entry_ok s f" "fn_values g = fn_values f @ new" "fn_entry g = fn_entry f"
    "fn_sig g = fn_sig f" "fn_blocks g \<noteq> []" "bd_params (fn_blocks g ! 0) = bd_params (fn_blocks f ! 0)"
  shows "entry_ok s g"
proof -
  have m: "value_type g v = Some u" if "value_type f v = Some u" for v u
    using value_type_mono [OF that assms(2)] .
  have "map (value_type f) (map value_new [0..<length (sig_params s)]) = map Some (sig_params s)"
    using assms(1) unfolding entry_ok_def by blast
  from map_Some_mono [OF this m] show ?thesis using assms by (simp add: entry_ok_def)
qed

lemma func_step_entry_ok:
  assumes "func_step b g" "entry_ok s (fb_func b)" "small g"
  shows "entry_ok s g"
proof -
  have ne: "fn_blocks (fb_func b) \<noteq> []" using assms(2) by (simp add: entry_ok_def)
  show ?thesis
    using assms(1)
  proof (cases rule: func_step.cases)
    case (fs_block_with ts)
    note e = block_with_step_eq [OF fs_block_with assms(3)]
    have k: "block_index (fst (fn_create_block (fb_func b))) = length (fn_blocks (fb_func b))"
      using func_step_grows [OF assms(1)] e(1) assms(3)
      by (simp add: e(1) with_params_def Let_def fn_create_block_def small_def bent.idx_mk_id)
    show ?thesis
      by (rule entry_ok_mono [OF assms(2)])
         (use ne in \<open>auto simp: e(1) with_params_def Let_def k nth_list_update nth_append\<close>,
          simp_all add: fn_create_block_def nth_append)
  next
    case (fs_inst k x t r args ts i)
    note e = inst_step_eq [OF fs_inst(3) assms(3)]
    show ?thesis
      by (rule entry_ok_mono [OF assms(2)])
         (use ne e(1) in \<open>auto simp: e(2) with_inst_def Let_def nth_list_update has_block_def\<close>)
  qed (use ne in \<open>auto simp: fn_create_block_def set_note_def set_terminator_def fn_set_block_kind_def
      update_opt_Some_iff nth_list_update nth_append assms(2) intro!: entry_ok_mono [OF assms(2)]\<close>)
qed

text \<open>A terminated block is never changed again, apart from its kind.\<close>

definition frozen :: "ir_function \<Rightarrow> ir_function \<Rightarrow> nat \<Rightarrow> bool" where
  "frozen f g k \<longleftrightarrow> bd_term (fn_blocks g ! k) = bd_term (fn_blocks f ! k) \<and>
     bd_insts (fn_blocks g ! k) = bd_insts (fn_blocks f ! k) \<and>
     bd_params (fn_blocks g ! k) = bd_params (fn_blocks f ! k)"

lemma func_step_frozen:
  assumes "func_step b g" "small g" "k < length (fn_blocks (fb_func b))"
    "bd_term (fn_blocks (fb_func b) ! k) \<noteq> None"
  shows "frozen (fb_func b) g k"
  using assms(1)
proof (cases rule: func_step.cases)
  case (fs_block_with ts)
  note e = block_with_step_eq [OF fs_block_with assms(2)]
  have "block_index (fst (fn_create_block (fb_func b))) = length (fn_blocks (fb_func b))"
    using e(1) assms(2) by (simp add: with_params_def Let_def fn_create_block_def small_def bent.idx_mk_id)
  then show ?thesis using assms(3) e(1)
    by (simp add: frozen_def with_params_def Let_def nth_list_update) (simp add: fn_create_block_def nth_append)
next
  case (fs_inst k' x t r args ts i)
  note e = inst_step_eq [OF fs_inst(3) assms(2)]
  have "block_index k' \<noteq> k"
    using fs_inst(1) assms(4) by (auto simp: writable_def fn_terminator_def nth_opt_def split: if_splits)
  then show ?thesis by (simp add: frozen_def e(2) with_inst_def Let_def)
next
  case (fs_term k' t)
  have "block_index k' \<noteq> k"
    using fs_term(1) assms(4) by (auto simp: writable_def fn_terminator_def nth_opt_def split: if_splits)
  then show ?thesis using fs_term(2)
    by (auto simp: frozen_def set_terminator_def update_opt_Some_iff)
qed (use assms(3) in \<open>auto simp: frozen_def fn_create_block_def set_note_def fn_set_block_kind_def
    update_opt_Some_iff nth_list_update nth_append\<close>)


subsection \<open>Reachable builders\<close>

lemma fn_new_entry_ok:
  assumes "fn_new name s = Some f" "small f"
  shows "entry_ok s f"
proof -
  let ?f = "\<lparr>fn_name = name, fn_sig = s, fn_entry = block_new 0, fn_insts = [], fn_values = [],
      fn_blocks = [block_default]\<rparr>"
  have f: "f = with_params (block_new 0) (sig_params s) ?f" using assms(1) by (simp add: fn_new_eq)
  have v: "fn_values f = fn_values ?f @
      map (\<lambda>(k, t). \<lparr>vd_ty = t, vd_def = DefParam (block_new 0) (of_nat k)\<rparr>) (enumerate 0 (sig_params s))"
    by (simp add: f with_params_def Let_def bent.idx_mk_id block_default_def)
  have "map (value_type f) (map value_new [0..<length (sig_params s)]) = map Some (sig_params s)"
    using value_types_new [OF v] assms(2) by (simp add: small_def)
  then show ?thesis
    by (simp add: entry_ok_def) (simp add: f with_params_def Let_def bent.idx_mk_id block_default_def)
qed

lemma built_inv:
  assumes "built name s b" and "small (fb_func b)"
  shows "fn_inv (fb_func b) \<and> (\<forall>d \<in> set (fn_insts (fb_func b)). inst_ok (fb_func b) d) \<and>
    entry_ok s (fb_func b)"
  using assms
proof (induction rule: built.induct)
  case (new b)
  then obtain f where f: "fn_new name s = Some f" "fb_func b = f" by (auto simp: fb_new_def)
  then show ?case
    using fn_new_inv [OF f(1)] fn_new_entry_ok [OF f(1)] new.prems
    by (auto simp: fn_new_eq with_params_def Let_def)
next
  case (call b c b')
  have st: "func_step b (fb_func b')" using call.hyps(2) by (rule fb_call_func_step)
  have sm: "small (fb_func b)" using func_step_grows [OF st] call.prems by (rule grows_small)
  show ?case
    using call.IH [OF sm] func_step_inv [OF st _ call.prems]
      func_step_insts_ok [OF st _ call.prems] func_step_entry_ok [OF st _ call.prems]
    by blast
qed

subsection \<open>Sticky errors\<close>

lemma emit_sticky: "fb_error b = Some e \<Longrightarrow> fb_emit x t r args ts b = Some (vs, b') \<Longrightarrow> b' = b"
  by (simp add: fb_emit_def)

lemma raw_sticky: "fb_error b = Some e \<Longrightarrow> raw_opcode m t args n b = Some (vs, b') \<Longrightarrow> b' = b"
  by (auto simp: raw_opcode_def fb_fail_def split: option.splits dest: emit_sticky)

lemma ins_sticky: "fb_error b = Some e \<Longrightarrow> ins_run c b = Some b' \<Longrightarrow> b' = b"
  by (cases c)
     (auto simp: ins_unary_defs ins_checked_defs unary_op_def checked_def first_result_def
       ins_convert_def ins_store_def ins_sstore_def ins_tstore_def ins_memcopy_def
       ins_opcode_value_def ins_opcode_void_def ins_call_def Let_def
       split: option.splits prod.splits dest: emit_sticky raw_sticky)

lemma terminate_sticky: "fb_error b = Some e \<Longrightarrow> fb_terminate t b = Some b \<and>
    (fb_terminate t b = Some b' \<longrightarrow> b' = b)"
  by (simp add: fb_terminate_def)

lemma call_sticky: "fb_error b = Some e \<Longrightarrow> fb_call c b = Some b' \<Longrightarrow> fb_error b' = Some e"
  by (cases c)
     (auto simp: term_defs fb_create_block_def fb_create_block_with_def fb_set_block_kind_def
       fb_switch_to_def fb_note_def terminate_sticky split: prod.splits option.splits
       dest: ins_sticky)

lemma run_sticky_error: "fb_error b = Some e \<Longrightarrow> fb_run cs b = Some b' \<Longrightarrow> fb_error b' = Some e"
  by (induction cs arbitrary: b) (auto simp: Option.bind_eq_Some_conv dest: call_sticky)

subsection \<open>Progress\<close>

definition in_arenas :: "builder \<Rightarrow> bool" where
  "in_arenas b \<longleftrightarrow> (\<forall>k. fb_current b = Some k \<longrightarrow> has_block (fb_func b) k) \<and>
     (\<forall>i. fb_last b = Some i \<longrightarrow> inst_index i < length (fn_insts (fb_func b)))"

text \<open>A call whose entities come from this function.\<close>

fun ins_valid :: "ir_function \<Rightarrow> ins_method \<Rightarrow> bool" where
  "ins_valid f (IConvert t v) = has_value f v"
| "ins_valid f (IStore p v) = has_value f v"
| "ins_valid f (ISstore p v) = has_value f v"
| "ins_valid f (ITstore p v) = has_value f v"
| "ins_valid f _ = True"

fun call_valid :: "ir_function \<Rightarrow> fb_method \<Rightarrow> bool" where
  "call_valid f (MSetBlockKind k _) = has_block f k"
| "call_valid f (MSwitchTo k) = has_block f k"
| "call_valid f (MIns c) = ins_valid f c"
| "call_valid f _ = True"

definition room :: "ir_function \<Rightarrow> bool" where
  "room f \<longleftrightarrow> length (fn_insts f) < 2 ^ 32 \<and> length (fn_blocks f) < 2 ^ 32"

definition progress :: "builder option \<Rightarrow> bool" where
  "progress r \<longleftrightarrow> (\<exists>b. r = Some b \<and> in_arenas b)"

lemma in_arenas_fail [simp]: "in_arenas (fb_fail e b) = in_arenas b"
  by (simp add: in_arenas_def fb_fail_def split: option.splits)

lemma emit_progress:
  assumes "in_arenas b" "room (fb_func b)"
  obtains vs b' where "fb_emit x t r args ts b = Some (vs, b')" "length vs = length ts" "in_arenas b'"
proof (cases "\<exists>k. writable b k")
  case False
  have "\<exists>vs b'. fb_emit x t r args ts b = Some (vs, b') \<and> length vs = length ts \<and> in_arenas b'"
    using False assms(1)
    by (auto simp: fb_emit_def writable_def placeholder_def fn_terminator_def in_arenas_def[of b]
        nth_opt_def has_block_def split: option.splits)
  then show ?thesis using that by blast
next
  case True
  then obtain k where k: "fb_error b = None" "fb_current b = Some k"
    "fn_terminator (fb_func b) k = Some None" by (auto simp: writable_def)
  then have hb: "has_block (fb_func b) k" using assms(1) by (simp add: in_arenas_def)
  define d where "d = \<lparr>id_op = x, id_ty = t, id_repair = r, id_args = args, id_results = [], id_note = None\<rparr>"
  let ?n = "length (fn_insts (fb_func b))"
  have n: "inst_index (inst_new ?n) = ?n" using assms(2) by (simp add: room_def ient.idx_mk_id)
  have a: "append_inst k d ts (fb_func b) = Some (inst_new ?n, with_inst k d ts (fb_func b))"
    using append_inst_eq [of "fb_func b" k d ts] hb assms(2) by (simp add: room_def)
  show ?thesis
    by (rule that)
       (use k a n hb in \<open>auto simp: fb_emit_def fn_results_def nth_opt_def with_inst_def Let_def
          in_arenas_def has_block_def simp flip: d_def\<close>)
qed

lemma ins_progress:
  assumes "in_arenas b" "room (fb_func b)" "ins_valid (fb_func b) c"
  shows "progress (ins_run c b)"
proof -
  have e: "\<exists>vs b'. fb_emit x t r args ts b = Some (vs, b') \<and> length vs = length ts \<and> in_arenas b'"
    for x t r args ts
    using emit_progress [OF assms(1,2), of x t r args ts] by blast
  have u: "progress (map_option snd (unary_op x t args b))" for x t args
    using e [of x t "default_repair x t" args "[t]"]
    by (auto simp: progress_def unary_op_def first_result_def nth_opt_def)
  have p: "progress (map_option snd (checked x t v w b))" for x t v w
    using e [of x t "default_repair x t" "[v, w]" "[t, ty_bool]"]
    by (auto simp: progress_def checked_def nth_opt_def)
  have s: "progress (map_option snd (fb_emit x t r args ts b))" for x t r args ts
    using e [of x t r args ts] by (auto simp: progress_def)
  have c: "progress (map_option snd (first_result (fb_emit x t r args [t] b)))" for x t r args
    using e [of x t r args "[t]"] by (auto simp: progress_def first_result_def nth_opt_def)
  have r: "\<exists>vs b'. raw_opcode m t args n b = Some (vs, b') \<and> (\<forall>us. vs = Some us \<longrightarrow> length us = n) \<and>
      in_arenas b'" for m t args n
    using e [of _ t RepairNone args "replicate n t"] assms(1)
    by (fastforce simp: raw_opcode_def split: option.splits)
  have vt: "\<exists>t. value_type (fb_func b) v = Some t" if "has_value (fb_func b) v" for v
    using that by (simp add: value_type_def nth_opt_def has_value_def)
  show ?thesis
  proof (cases c)
    case (IConvert t v)
    then show ?thesis using vt [of v] assms(3) c by (auto simp: ins_convert_def)
  next
    case (IStore q v)
    then show ?thesis using vt [of v] assms(3) s by (auto simp: ins_store_def)
  next
    case (ISstore q v)
    then show ?thesis using vt [of v] assms(3) s by (auto simp: ins_sstore_def)
  next
    case (ITstore q v)
    then show ?thesis using vt [of v] assms(3) s by (auto simp: ins_tstore_def)
  next
    case (IOpcode m t args)
    then show ?thesis using r [of m t args 1]
      by (auto simp: ins_opcode_value_def progress_def nth_opt_def split: option.splits)
  next
    case (IOpcodeVoid m args)
    then show ?thesis using r [of m ty_u256 args 0] by (auto simp: ins_opcode_void_def progress_def)
  next
    case (ICall f sg args)
    then show ?thesis using s by (simp add: ins_call_def Let_def)
  next
    case (IMemcopy d q n)
    then show ?thesis using s by (simp add: ins_memcopy_def)
  qed (simp_all add: ins_unary_defs ins_checked_defs u p)
qed

lemma terminate_progress:
  assumes "in_arenas b"
  shows "progress (fb_terminate t b)"
proof (cases "fb_current b")
  case (Some k)
  then have "has_block (fb_func b) k" using assms by (simp add: in_arenas_def)
  then show ?thesis
    using Some assms
    by (auto simp: progress_def fb_terminate_def fn_terminator_def nth_opt_def has_block_def
        set_terminator_def update_opt_def split: option.splits) (simp add: in_arenas_def)
qed (use assms in \<open>auto simp: progress_def fb_terminate_def\<close>)

lemma call_progress:
  assumes "in_arenas b" "room (fb_func b)" "call_valid (fb_func b) c"
  shows "progress (fb_call c b)"
proof (cases c)
  case MCreateBlock
  then show ?thesis using assms(1)
    by (auto simp: progress_def fb_create_block_def fn_create_block_def in_arenas_def has_block_def)
next
  case (MCreateBlockWith ts)
  have k: "has_block (snd (fn_create_block (fb_func b))) (fst (fn_create_block (fb_func b)))"
    using assms(2) by (simp add: has_block_def fn_create_block_def room_def bent.idx_mk_id)
  show ?thesis using MCreateBlockWith assms(1) append_params_eq [OF k, of ts]
    by (auto simp: progress_def fb_create_block_with_def split: prod.splits)
       (auto simp: in_arenas_def has_block_def fn_create_block_def)
next
  case (MSetBlockKind k kd)
  then show ?thesis using assms
    by (auto simp: progress_def fb_set_block_kind_def fn_set_block_kind_def update_opt_def
        has_block_def in_arenas_def)
next
  case (MSwitchTo k)
  then show ?thesis using assms by (auto simp: progress_def fb_switch_to_def in_arenas_def)
next
  case (MNote s)
  then show ?thesis using assms
    by (auto simp: progress_def fb_note_def set_note_def update_opt_def in_arenas_def has_block_def
        split: option.splits)
next
  case (MIns m)
  then show ?thesis using ins_progress [OF assms(1,2)] assms(3) by simp
qed (simp_all add: term_defs terminate_progress [OF assms(1)])


subsection \<open>A function for the witnesses\<close>

text \<open>\<open>fn inc(x: u8) -> u8 { x + 1 }\<close>, and a trap block that is terminated at once.\<close>

definition demo_sig :: signature where "demo_sig = \<lparr>sig_params = [ty_u8], sig_returns = [ty_u8]\<rparr>"

definition demo_calls :: "fb_method list" where
  "demo_calls =
     [MIns (IIconst ty_u8 (imm_from_u8 1)), MIns (IAdd ty_u8 (value_new 0) (value_new 1)),
      MRet [value_new 2], MCreateBlock, MSwitchTo (block_new 1), MInvalid]"

definition demo_start :: builder where "demo_start = the (fb_new ''inc'' demo_sig)"

definition demo :: builder where "demo = the (fb_run demo_calls demo_start)"

lemma built_run: "built name s b \<Longrightarrow> fb_run cs b = Some b' \<Longrightarrow> built name s b'"
  by (induction cs arbitrary: b) (auto simp: Option.bind_eq_Some_conv intro: built.call)

lemma demo_start_eq: "fb_new ''inc'' demo_sig = Some demo_start"
  by (simp add: demo_start_def fb_new_def fn_new_eq)

lemma demo_run: "fb_run demo_calls demo_start = Some demo"
proof -
  have "fb_run demo_calls demo_start \<noteq> None" by code_simp
  then show ?thesis by (auto simp: demo_def)
qed

lemma demo_built: "built ''inc'' demo_sig demo"
  using built.new [OF demo_start_eq] demo_run by (rule built_run)

lemma demo_shape:
  "length (fn_insts (fb_func demo)) = 2" "length (fn_values (fb_func demo)) = 3"
  "length (fn_blocks (fb_func demo)) = 2" "fb_error demo = None"
  "map id_repair (fn_insts (fb_func demo)) = [RepairNone, RepairMask 8]"
  "bd_term (fn_blocks (fb_func demo) ! 1) = Some Invalid"
  by code_simp+

lemma demo_small: "small (fb_func demo)"
  by (simp add: small_def demo_shape)

lemma demo_finish: "fb_finish demo = Inr (fb_func demo)"
  by (simp add: fb_finish_def demo_shape)

subsection \<open>Properties\<close>

text \<open>C7 A function obtained from the builder is in SSA form: whatever methods were called, every
  value of its arena is defined exactly once, by an instruction result or a block parameter, and
  its definition links back to that place; every instruction is in exactly one block; and the
  entry block's parameters are the values \<open>0..<P\<close> with the types of the signature.\<close>

theorem builder_yields_ssa:
  assumes "built name s b" "small (fb_func b)" "fb_finish b = Inr f"
  shows "ssa f \<and> placed f \<and> linked f \<and> fn_sig f = s \<and>
    fn_block_params f (fn_entry f) = Some (map value_new [0..<length (sig_params s)]) \<and>
    map (value_type f) (map value_new [0..<length (sig_params s)]) = map Some (sig_params s)"
proof -
  have f: "f = fb_func b" using assms(3) by (simp add: fb_finish_def split: option.splits)
  show ?thesis
    using built_inv [OF assms(1,2)]
    by (auto simp: f fn_inv_def entry_ok_def fn_block_params_def nth_opt_def bent.idx_mk_id)
qed

theorem builder_yields_ssa_witness:
  "\<exists>f. fb_finish demo = Inr f \<and> length (fn_values f) = 3 \<and> ssa f \<and> linked f"
  using builder_yields_ssa [OF demo_built demo_small demo_finish] demo_finish demo_shape by auto








text \<open>C24 A block that has its terminator is finished: no later method of the builder changes its
  instructions, its parameters or its terminator.\<close>

theorem terminated_block_frozen:
  assumes "fb_call c b = Some b'" "small (fb_func b')" "k < length (fn_blocks (fb_func b))"
    and "bd_term (fn_blocks (fb_func b) ! k) = Some t"
  shows "bd_term (fn_blocks (fb_func b') ! k) = Some t \<and>
    bd_insts (fn_blocks (fb_func b') ! k) = bd_insts (fn_blocks (fb_func b) ! k) \<and>
    bd_params (fn_blocks (fb_func b') ! k) = bd_params (fn_blocks (fb_func b) ! k)"
  using func_step_frozen [OF fb_call_func_step [OF assms(1)] assms(2,3)] assms(4)
  by (simp add: frozen_def)

theorem terminated_block_frozen_witness:
  "\<exists>b'. fb_call MCreateBlock demo = Some b' \<and> bd_term (fn_blocks (fb_func b') ! 1) = Some Invalid"
proof -
  have c: "fb_call MCreateBlock demo = Some (snd (fb_create_block demo))" by simp
  have s: "small (fb_func (snd (fb_create_block demo)))"
    by (simp add: fb_create_block_def fn_create_block_def small_def demo_shape)
  have k: "1 < length (fn_blocks (fb_func demo))" by (simp add: demo_shape)
  from terminated_block_frozen [OF c s k demo_shape(6)] c show ?thesis by blast
qed

text \<open>A run whose calls name blocks and values of the function.\<close>

fun run_valid :: "fb_method list \<Rightarrow> builder \<Rightarrow> bool" where
  "run_valid [] b \<longleftrightarrow> True"
| "run_valid (c # cs) b \<longleftrightarrow>
     call_valid (fb_func b) c \<and> (case fb_call c b of Some b' \<Rightarrow> run_valid cs b' | None \<Rightarrow> True)"

lemma late_call_sizes:
  assumes "fb_error b = Some e" "fb_call c b = Some b'"
  shows "length (fn_insts (fb_func b')) = length (fn_insts (fb_func b))
    \<and> length (fn_blocks (fb_func b')) \<le> Suc (length (fn_blocks (fb_func b)))"
proof -
  have t: "fb_terminate t b = Some b" for t using terminate_sticky [OF assms(1)] by blast
  have i: "b' = b" if "ins_run m b = Some b'" for m using ins_sticky [OF assms(1) that] .
  show ?thesis
    using assms(2)
    by (cases c)
       (auto simp: term_defs t fb_create_block_def fb_create_block_with_def fb_set_block_kind_def fb_switch_to_def
         fb_note_def fn_create_block_def fn_set_block_kind_def set_note_def update_opt_Some_iff
         split: prod.splits option.splits dest: i dest!: append_params_length)
qed

lemma late_run_returns:
  assumes "fb_error b = Some e" "in_arenas b" "run_valid cs b"
    and "length (fn_insts (fb_func b)) < 2 ^ 32" "length (fn_blocks (fb_func b)) + length cs \<le> 2 ^ 32"
  shows "\<exists>b'. fb_run cs b = Some b'"
  using assms
proof (induction cs arbitrary: b)
  case (Cons c cs)
  have "room (fb_func b)" using Cons.prems(4,5) by (simp add: room_def)
  then obtain b' where b': "fb_call c b = Some b'" "in_arenas b'"
    using call_progress [OF Cons.prems(2), of c] Cons.prems(3) by (auto simp: progress_def)
  have "\<exists>b''. fb_run cs b' = Some b''"
    using call_sticky [OF Cons.prems(1) b'(1)] b'(2) Cons.prems(3-5) late_call_sizes [OF Cons.prems(1) b'(1)]
    by (intro Cons.IH) (simp_all add: b'(1))
  then show ?case by (simp add: b'(1))
qed simp

text \<open>C25 The first error wins. After it, whatever calls are made: a run of calls that name blocks and
  values of the function (within \<open>2 ^ 32\<close> instructions and blocks) returns, so nothing panics; every run
  that returns ends in \<open>finish\<close> reporting that error; and an instruction or terminator call that returns
  changes nothing. A call that names a value the function does not have can panic.\<close>

theorem builder_first_error_wins:
  assumes "fb_error b = Some e"
  shows "(in_arenas b \<and> run_valid cs b \<and> length (fn_insts (fb_func b)) < 2 ^ 32
      \<and> length (fn_blocks (fb_func b)) + length cs \<le> 2 ^ 32 \<longrightarrow> (\<exists>b'. fb_run cs b = Some b' \<and> fb_finish b' = Inl e)) \<and>
    (fb_run cs b = Some b' \<longrightarrow> fb_finish b' = Inl e) \<and>
    (ins_run c b = Some b' \<longrightarrow> b' = b) \<and> fb_terminate t b = Some b"
  using late_run_returns [OF assms, of cs] run_sticky_error [OF assms, of cs] ins_sticky [OF assms, of c b']
    terminate_sticky [OF assms, of t b]
  by (auto simp: fb_finish_def)

theorem builder_first_error_wins_witness:
  "\<exists>b'. fb_run [MCreateBlock, MSwitchTo (block_new 2), MStop, MIns (IConvert ty_u8 (value_new 0))]
     (fb_fail NoEntry demo) = Some b' \<and> fb_finish b' = Inl NoEntry"
proof -
  let ?b = "fb_fail NoEntry demo"
  let ?cs = "[MCreateBlock, MSwitchTo (block_new 2), MStop, MIns (IConvert ty_u8 (value_new 0))]"
  have e: "fb_error ?b = Some NoEntry" by (simp add: fb_fail_def demo_shape)
  have "fb_current demo = None" "fb_last demo = None" by code_simp+
  then have "in_arenas ?b" by (simp add: in_arenas_def fb_fail_def demo_shape)
  moreover have "run_valid ?cs ?b" by code_simp
  ultimately show ?thesis
    using builder_first_error_wins [OF e, of ?cs] by (simp add: demo_shape)
qed

text \<open>C22 Progress: a method called with blocks and values of this function returns, with or without
  an error recorded, and leaves a builder of which the same holds.\<close>

theorem builder_progress:
  assumes "in_arenas b" "room (fb_func b)" "call_valid (fb_func b) c"
  shows "\<exists>b'. fb_call c b = Some b' \<and> in_arenas b'"
  using call_progress [OF assms] by (simp add: progress_def)

theorem builder_progress_witness:
  "\<exists>b'. fb_call (MIns (IConvert ty_i32 (value_new 0))) demo_start = Some b' \<and> in_arenas b'"
proof (rule builder_progress)
  show "in_arenas demo_start" "room (fb_func demo_start)"
    "call_valid (fb_func demo_start) (MIns (IConvert ty_i32 (value_new 0)))"
    by (simp_all add: demo_start_def fb_new_def fn_new_eq with_params_def Let_def in_arenas_def
        has_block_def room_def has_value_def bent.idx_mk_id vent.idx_mk_id demo_sig_def
        block_default_def)
qed

text \<open>C39 The placeholder of a failed call is not safe in every function. In a function without values, every
  call of a value-producing raw opcode that is rejected (a mnemonic not in the table or of a reserved
  family) hands back the placeholder value 0, with an error recorded; using it in \<open>convert\<close>, \<open>store\<close>,
  \<open>sstore\<close> or \<open>tstore\<close>, which the documentation calls no-ops then, panics, as any other value would.\<close>

theorem placeholder_convert_panics:
  assumes "fn_values (fb_func b) = []"
    and "\<forall>s. by_mnemonic m = Some s \<longrightarrow> reserved_reason s \<noteq> None"
  shows "\<exists>b' e. ins_opcode_value m t args b = Some (value_new 0, b') \<and> fb_error b' = Some e \<and>
    (\<forall>u v p. ins_convert u v b' = None \<and> ins_store p v b' = None \<and> ins_sstore p v b' = None \<and>
       ins_tstore p v b' = None)"
proof -
  have f: "fb_func (fb_fail e b) = fb_func b" "\<exists>e'. fb_error (fb_fail e b) = Some e'" for e
    by (auto simp: fb_fail_def split: option.split)
  have v: "value_type (fb_func b) v = None" for v by (simp add: value_type_def nth_opt_def assms(1))
  note p = ins_convert_def ins_store_def ins_sstore_def ins_tstore_def f(1) v
  show ?thesis
  proof (cases "by_mnemonic m")
    case None
    then show ?thesis using f(2) by (simp add: ins_opcode_value_def raw_opcode_def p)
  next
    case (Some s)
    then obtain r where "reserved_reason s = Some r" using assms(2) by auto
    then show ?thesis using f(2) Some by (simp add: ins_opcode_value_def raw_opcode_def p)
  qed
qed

theorem placeholder_convert_panics_witness:
  "\<exists>b0 b. fb_new ''f'' \<lparr>sig_params = [], sig_returns = []\<rparr> = Some b0 \<and>
     ins_opcode_value ''JUMP'' ty_u256 [] b0 = Some (value_new 0, b) \<and> ins_convert ty_u8 (value_new 0) b = None"
proof -
  define b0 where "b0 = the (fb_new ''f'' \<lparr>sig_params = [], sig_returns = []\<rparr>)"
  have b0: "fb_new ''f'' \<lparr>sig_params = [], sig_returns = []\<rparr> = Some b0"
    by (simp add: b0_def fb_new_def fn_new_eq)
  have v: "fn_values (fb_func b0) = []"
    by (simp add: b0_def fb_new_def fn_new_eq with_params_def Let_def)
  have "by_mnemonic ''JUMP'' = Some (op ''JUMP'' 0x56 1 0 False (GasFixed 8) CatControl Frontier)"
    by (rule by_mnemonic_eval) (simp add: set_OPCODES opcodes_stack_memory_flow_def)
  then have "\<forall>s. by_mnemonic ''JUMP'' = Some s \<longrightarrow> reserved_reason s \<noteq> None"
    by (simp add: reserved_reason_def op_def op_form_def)
  from placeholder_convert_panics [OF v this] b0 show ?thesis by blast
qed

end
