(* ===== verification/Ir_Exec.thy ===== *)
theory Ir_Exec
  imports Ir_Builder
begin

text \<open>
  What a finished function computes. \<open>ir.rs\<close> and \<open>types.rs\<close> promise that every value of a function is
  held as a well-formed 256-bit word of its type, so that the function computes with Rust's integers.
  Here that promise is a refinement of two machines over the blocks of a function: the word machine runs
  the EVM's raw operation of every instruction followed by the repair the instruction carries; the
  integer machine computes mathematically and wraps to the type, with no words and no repairs. The two
  agree on every configuration: neither does anything, getting stuck included, that the other does not.
  What is outside the function (memory, storage, raw opcodes, calls) is the parameter \<open>ext\<close> of both. The
  types of operands and edges a function has to respect, constants that fit their type and raw opcodes
  that give full words are \<open>well_typed\<close>: the builder leaves that check to a verifier that is not in the
  repository.
\<close>

subsection \<open>Control flow\<close>

text \<open>A function runs at an instruction of a block, has ended with a terminator and the values it reads, or
  does something that has no meaning.\<close>

datatype ('v, 'w) exec =
    Exec bref nat "vref \<rightharpoonup> 'v" 'w
  | Ended terminator "'v list" 'w
  | Stuck

type_synonym ('v, 'w) meaning = "inst_data \<Rightarrow> 'v list \<Rightarrow> 'w \<Rightarrow> ('v list \<times> 'w) option"

fun or_stuck :: "'a option \<Rightarrow> ('a \<Rightarrow> ('v, 'w) exec) \<Rightarrow> ('v, 'w) exec" where
  "or_stuck None k = Stuck"
| "or_stuck (Some x) k = k x"

definition read_values :: "(vref \<rightharpoonup> 'v) \<Rightarrow> vref list \<Rightarrow> 'v list option" where
  "read_values env vs = those (map env vs)"

fun bind_values :: "vref list \<Rightarrow> 'v list \<Rightarrow> (vref \<rightharpoonup> 'v) \<Rightarrow> (vref \<rightharpoonup> 'v) option" where
  "bind_values [] [] env = Some env"
| "bind_values (v # vs) (x # xs) env = bind_values vs xs (env(v \<mapsto> x))"
| "bind_values _ _ env = None"

definition imm_word :: "immediate \<Rightarrow> word256" where
  "imm_word i = of_nat (imm_val i)"

text \<open>A switch is a linear chain of equality tests.\<close>

fun switch_edge :: "word256 \<Rightarrow> (immediate \<times> block_call) list \<Rightarrow> block_call \<Rightarrow> block_call" where
  "switch_edge x [] def = def"
| "switch_edge x ((i, c) # cases) def = (if x = imm_word i then c else switch_edge x cases def)"

fun edge :: "('v \<Rightarrow> word256) \<Rightarrow> terminator \<Rightarrow> 'v list \<Rightarrow> block_call option" where
  "edge word (Jump c) xs = Some c"
| "edge word (Brif _ c d) [x] = Some (if word x \<noteq> 0 then c else d)"
| "edge word (Switch _ cases def) [x] = Some (switch_edge (word x) cases def)"
| "edge word t xs = None"

text \<open>The parameters of the target block are bound to the arguments of the edge.\<close>

definition enter :: "ir_function \<Rightarrow> block_call \<Rightarrow> (vref \<rightharpoonup> 'v) \<Rightarrow> 'w \<Rightarrow> ('v, 'w) exec" where
  "enter f c env w =
     or_stuck (fn_block_params f (bc_block c)) (\<lambda>ps.
     or_stuck (read_values env (bc_args c)) (\<lambda>xs.
     or_stuck (bind_values ps xs env) (\<lambda>env'. Exec (bc_block c) 0 env' w)))"

fun ir_step ::
  "('v, 'w) meaning \<Rightarrow> ('v \<Rightarrow> word256) \<Rightarrow> ir_function \<Rightarrow> ('v, 'w) exec \<Rightarrow> ('v, 'w) exec" where
  "ir_step sem word f (Exec k i env w) =
     or_stuck (fn_block f k) (\<lambda>bd.
       if i < length (bd_insts bd)
       then or_stuck (fn_inst f (bd_insts bd ! i)) (\<lambda>d.
            or_stuck (read_values env (id_args d)) (\<lambda>xs.
            or_stuck (sem d xs w) (\<lambda>(rs, w').
            or_stuck (bind_values (id_results d) rs env) (\<lambda>env'. Exec k (i + 1) env' w'))))
       else or_stuck (bd_term bd) (\<lambda>t.
            or_stuck (read_values env (term_own_args t)) (\<lambda>xs.
            case edge word t xs of Some c \<Rightarrow> enter f c env w | None \<Rightarrow> Ended t xs w)))"
| "ir_step sem word f c = c"

subsection \<open>The two meanings of an instruction\<close>

text \<open>Operations that reach outside the function, those of them that are repaired, and the operations with
  an overflow flag.\<close>

definition external :: "ir_op \<Rightarrow> bool" where
  "external x =
     (case x of OAlloca _ \<Rightarrow> True | OLoad \<Rightarrow> True | OStore \<Rightarrow> True | OMemCopy \<Rightarrow> True | OSLoad \<Rightarrow> True
      | OSStore \<Rightarrow> True | OTLoad \<Rightarrow> True | OTStore \<Rightarrow> True | OOpcode _ \<Rightarrow> True | OCall _ \<Rightarrow> True | _ \<Rightarrow> False)"

definition is_load :: "ir_op \<Rightarrow> bool" where
  "is_load x \<longleftrightarrow> x \<in> {OLoad, OSLoad, OTLoad}"

definition is_checked :: "ir_op \<Rightarrow> bool" where
  "is_checked x \<longleftrightarrow> x \<in> {OAddOverflow, OSubOverflow, OMulOverflow}"

lemma external_value_op: "external x \<longleftrightarrow> \<not> value_op x \<and> (\<forall>i. x \<noteq> OConst i) \<and> x \<noteq> OConvert"
  by (cases x) (simp_all add: external_def value_op_def)

definition arg_tys :: "ir_function \<Rightarrow> inst_data \<Rightarrow> ty list" where
  "arg_tys f d = map (\<lambda>v. the (value_type f v)) (id_args d)"

definition result_tys :: "ir_function \<Rightarrow> inst_data \<Rightarrow> ty list" where
  "result_tys f d = map (\<lambda>v. the (value_type f v)) (id_results d)"

text \<open>The documented second result of a checked operation.\<close>

definition overflows :: "ir_op \<Rightarrow> ty \<Rightarrow> int list \<Rightarrow> bool" where
  "overflows x t is = (case int_op x is of Some k \<Rightarrow> ty_wrap t k \<noteq> k | None \<Rightarrow> False)"

definition flags_of :: "ir_op \<Rightarrow> ty \<Rightarrow> int list \<Rightarrow> bool list" where
  "flags_of x t is = (if is_checked x then [overflows x t is] else [])"

text \<open>Words: the raw operation, then the repair of the instruction, which concerns the first result.\<close>

definition raw_results ::
  "ir_function \<Rightarrow> (ir_op \<Rightarrow> word256 list \<Rightarrow> 'w \<Rightarrow> word256 list \<times> 'w) \<Rightarrow> (word256, 'w) meaning" where
  "raw_results f ext d xs w =
     (let t = id_ty d; x = id_op d in
      case x of
        OConst imm \<Rightarrow> Some ([imm_word imm], w)
      | OConvert \<Rightarrow> Some (xs, w)
      | _ \<Rightarrow>
          if external x then Some (ext x xs w)
          else map_option (\<lambda>r. (r # map of_bool (flags_of x t (map2 ty_val (arg_tys f d) xs)), w))
            (raw_op x (op_signed x t (arg_tys f d)) xs))"

fun repair_first :: "repair \<Rightarrow> word256 list \<Rightarrow> word256 list" where
  "repair_first r [] = []"
| "repair_first r (x # xs) = apply_repair r x # xs"

definition word_sem ::
  "ir_function \<Rightarrow> (ir_op \<Rightarrow> word256 list \<Rightarrow> 'w \<Rightarrow> word256 list \<times> 'w) \<Rightarrow> (word256, 'w) meaning" where
  "word_sem f ext d xs w = map_option (\<lambda>(rs, w'). (repair_first (id_repair d) rs, w')) (raw_results f ext d xs w)"

text \<open>Integers: the mathematical operation, wrapped to the type of the result. The words that come from
  outside are read at the types of the results, a loaded one wrapped to its type.\<close>

definition int_sem ::
  "ir_function \<Rightarrow> (ir_op \<Rightarrow> word256 list \<Rightarrow> 'w \<Rightarrow> word256 list \<times> 'w) \<Rightarrow> (int, 'w) meaning" where
  "int_sem f ext d is w =
     (let t = id_ty d; x = id_op d in
      case x of
        OConst imm \<Rightarrow> Some ([ty_wrap t (int (imm_val imm))], w)
      | OConvert \<Rightarrow> (case is of [i] \<Rightarrow> Some ([ty_wrap t i], w) | _ \<Rightarrow> None)
      | _ \<Rightarrow>
          if external x
          then (let (rs, w') = ext x (map word_of_int is) w in
                if length rs \<noteq> length (id_results d) then None
                else if is_load x then Some (map (\<lambda>r. ty_wrap t (uint r)) rs, w')
                else Some (map2 ty_val (result_tys f d) rs, w'))
          else map_option (\<lambda>k. (ty_wrap t k # map of_bool (flags_of x t is), w)) (int_op x is))"

subsection \<open>Types\<close>

text \<open>What an instruction has to respect: the types of the operands of an operation on values, a constant
  that fits its type, and results of raw opcodes that are full words, since they get no repair.\<close>

definition inst_typed :: "ir_function \<Rightarrow> inst_data \<Rightarrow> bool" where
  "inst_typed f d \<longleftrightarrow>
     list_all (\<lambda>v. value_type f v \<noteq> None) (id_args d)
     \<and> (case id_op d of
          OConst imm \<Rightarrow> wf_val (id_ty d) (imm_word imm)
        | OConvert \<Rightarrow> length (id_args d) = 1
        | OOpcode _ \<Rightarrow> list_all (\<lambda>u. ty_bits u = 256) (result_tys f d)
        | _ \<Rightarrow> (value_op (id_op d) \<longrightarrow> value_operands (id_op d) (id_ty d) (arg_tys f d)))"

definition edge_typed :: "ir_function \<Rightarrow> block_call \<Rightarrow> bool" where
  "edge_typed f c \<longleftrightarrow>
     (case fn_block_params f (bc_block c) of
        Some ps \<Rightarrow> list_all (\<lambda>v. value_type f v \<noteq> None) ps
          \<and> map (value_type f) (bc_args c) = map (value_type f) ps
      | None \<Rightarrow> False)"

definition well_typed :: "ir_function \<Rightarrow> bool" where
  "well_typed f \<longleftrightarrow>
     list_all (\<lambda>v. is_well_formed (vd_ty v)) (fn_values f)
     \<and> list_all (inst_typed f) (fn_insts f)
     \<and> list_all (\<lambda>bd. case bd_term bd of
           Some t \<Rightarrow> list_all (edge_typed f) (block_calls t) | None \<Rightarrow> True) (fn_blocks f)"

text \<open>The one thing asked of the outside: the address \<open>alloca\<close> gets is one, as the frame layout promises.\<close>

definition frames_ok :: "(ir_op \<Rightarrow> word256 list \<Rightarrow> 'w \<Rightarrow> word256 list \<times> 'w) \<Rightarrow> bool" where
  "frames_ok ext \<longleftrightarrow> (\<forall>n xs w. list_all (wf_val TPtr) (fst (ext (OAlloca n) xs w)))"

text \<open>The representation invariant of a configuration, and the integers it stands for.\<close>

definition env_ok :: "ir_function \<Rightarrow> (vref \<rightharpoonup> word256) \<Rightarrow> bool" where
  "env_ok f env \<longleftrightarrow> (\<forall>v x. env v = Some x \<longrightarrow> (\<exists>t. value_type f v = Some t \<and> wf_val t x))"

definition env_ints :: "ir_function \<Rightarrow> (vref \<rightharpoonup> word256) \<Rightarrow> vref \<rightharpoonup> int" where
  "env_ints f env v = map_option (ty_val (the (value_type f v))) (env v)"

fun exec_ok :: "ir_function \<Rightarrow> (word256, 'w) exec \<Rightarrow> bool" where
  "exec_ok f (Exec k i env w) = env_ok f env"
| "exec_ok f (Ended t xs w) = list_all2 (\<lambda>v. wf_val (the (value_type f v))) (term_own_args t) xs"
| "exec_ok f Stuck = True"

fun exec_ints :: "ir_function \<Rightarrow> (word256, 'w) exec \<Rightarrow> (int, 'w) exec" where
  "exec_ints f (Exec k i env w) = Exec k i (env_ints f env) w"
| "exec_ints f (Ended t xs w) = Ended t (map2 (\<lambda>v. ty_val (the (value_type f v))) (term_own_args t) xs) w"
| "exec_ints f Stuck = Stuck"

text \<open>The two machines.\<close>

abbreviation word_step where "word_step f ext \<equiv> ir_step (word_sem f ext) (\<lambda>x. x) f"

abbreviation int_step where "int_step f ext \<equiv> ir_step (int_sem f ext) word_of_int f"

subsection \<open>One instruction\<close>

lemma map_Some_the: "map g vs = map Some us \<Longrightarrow> map (\<lambda>v. the (g v)) vs = us"
  by (induction vs arbitrary: us) (auto simp: Cons_eq_map_conv)

lemma the_Some_map: "list_all (\<lambda>v. g v \<noteq> None) vs \<Longrightarrow> map g vs = map Some (map (\<lambda>v. the (g v)) vs)"
  by (induction vs) auto

definition types_ok :: "ir_function \<Rightarrow> bool" where
  "types_ok f \<longleftrightarrow> (\<forall>v t. value_type f v = Some t \<longrightarrow> is_well_formed t)"

lemma well_typed_types_ok: "well_typed f \<Longrightarrow> types_ok f"
  by (auto simp: well_typed_def types_ok_def value_type_def nth_opt_Some_iff list_all_length)

lemma repair_first_None [simp]: "repair_first RepairNone xs = xs"
  by (cases xs) simp_all

text \<open>A constant that fits its type.\<close>

lemma const_val:
  assumes "is_well_formed t" "wf_val t (imm_word i)"
  shows "ty_val t (imm_word i) = ty_wrap t (int (imm_val i))"
proof -
  have i: "imm_word i = word_of_int (int (imm_val i))" by (simp add: imm_word_def)
  have "ty_val t (apply_repair (ty_repair t) (word_of_int (ty_val t (imm_word i)))) = ty_val t (imm_word i)"
    using ty_val_repair [OF assms(1), of "ty_val t (imm_word i)"] assms by (simp only: wf_val_iff)
  then have "apply_repair (ty_repair t) (imm_word i) = imm_word i" by (simp add: ty_val_inject)
  then show ?thesis using ty_val_repair [OF assms(1), of "int (imm_val i)"] i by metis
qed

text \<open>The word machine's results of an instruction, after the repair, are well formed and stand for the
  integer machine's, unless their number is wrong, in which case neither machine has results.\<close>

definition insts_agree :: "ir_function \<Rightarrow> inst_data \<Rightarrow> (word256 list \<times> 'w) option \<Rightarrow> (int list \<times> 'w) option \<Rightarrow> bool" where
  "insts_agree f d r q \<longleftrightarrow>
     (\<exists>rs w. r = Some (rs, w) \<and>
        (if length rs = length (id_results d)
         then list_all2 wf_val (result_tys f d) rs \<and> q = Some (map2 ty_val (result_tys f d) rs, w)
         else q = None))"

lemma external_agree:
  assumes x: "external (id_op d)" "\<forall>g. id_op d \<noteq> OCall g" and ok: "inst_ok f d" "types_ok f" "inst_typed f d"
    and ext: "frames_ok ext" and len: "length ts = length xs"
  shows "insts_agree f d (word_sem f ext d xs w) (int_sem f ext d (map2 ty_val ts xs) w)"
proof -
  obtain us where us: "map (value_type f) (id_results d) = map Some us"
    and e: "emit_ok f (id_op d) (id_ty d) (id_repair d) (id_args d) us"
    using ok(1) by (auto simp: inst_ok_def)
  from us have rt: "result_tys f d = us" by (simp add: result_tys_def map_Some_the)
  have len_us: "length us = length (id_results d)" using us by (metis length_map)
  have args: "map word_of_int (map2 ty_val ts xs) = xs"
    using len by (intro nth_equalityI) simp_all
  obtain rs v where r: "ext (id_op d) xs w = (rs, v)" by fastforce
  have word: "word_sem f ext d xs w = Some (repair_first (id_repair d) rs, v)"
    using x r by (cases "id_op d") (simp_all add: word_sem_def raw_results_def external_def Let_def)
  have int: "int_sem f ext d (map2 ty_val ts xs) w =
      (if length rs \<noteq> length us then None
       else if is_load (id_op d) then Some (map (\<lambda>r. ty_wrap (id_ty d) (uint r)) rs, v)
       else Some (map2 ty_val us rs, v))"
    using x(1) r unfolding int_sem_def Let_def args
    by (cases "id_op d") (simp_all add: rt external_def len_us)
  have l: "length (repair_first q rs) = length rs" for q by (cases rs) simp_all
  show ?thesis
  proof (cases "length rs = length us")
    case False
    then show ?thesis using word int l by (simp add: insts_agree_def len_us)
  next
    case same: True
    show ?thesis
    proof (cases "is_load (id_op d)")
      case True
      then have us1: "us = [id_ty d]" and rep: "id_repair d = ty_repair (id_ty d)"
        using e by (auto simp: is_load_def emit_ok_def default_repair_cases)
      obtain r where r: "rs = [r]" using same us1 by (auto simp: length_Suc_conv)
      have t: "is_well_formed (id_ty d)" using ok(2) us us1 by (auto simp: types_ok_def)
      have "ty_val (id_ty d) (apply_repair (id_repair d) r) = ty_wrap (id_ty d) (uint r)"
        using ty_val_repair [OF t, of "uint r"] by (simp add: rep)
      moreover from this have "wf_val (id_ty d) (apply_repair (id_repair d) r)" by (rule wf_ty_wrap [OF t])
      ultimately show ?thesis using word int r True by (simp add: insts_agree_def rt us1 len_us [symmetric])
    next
      case False
      with x(1) e have rep: "id_repair d = RepairNone"
        by (cases "id_op d") (auto simp: external_def is_load_def emit_ok_def default_repair_cases)
      have "list_all2 wf_val us rs"
      proof (cases "\<exists>n. id_op d = OAlloca n")
        case True
        then have "us = [TPtr]" using e by (auto simp: emit_ok_def)
        moreover have "list_all (wf_val TPtr) rs" using ext r True by (metis frames_ok_def fst_conv)
        ultimately show ?thesis using same by (auto simp: length_Suc_conv)
      next
        case frame: False
        have "list_all (\<lambda>u. ty_bits u = 256) us"
        proof (cases "\<exists>s. id_op d = OOpcode s")
          case True
          then show ?thesis using ok(3) by (auto simp: inst_typed_def rt)
        next
          case no: False
          have "us = []" using frame no x False e
            by (cases "id_op d") (auto simp: external_def is_load_def emit_ok_def)
          then show ?thesis by simp
        qed
        then show ?thesis using same by (auto simp: list_all2_conv_all_nth list_all_length wf_val_full)
      qed
      then show ?thesis using word int rep False same by (simp add: insts_agree_def rt len_us)
    qed
  qed
qed

lemma inst_agree:
  assumes ok: "inst_ok f d" "types_ok f" "inst_typed f d" and nc: "\<forall>g. id_op d \<noteq> OCall g"
    and ext: "frames_ok ext" and xs: "list_all2 wf_val (arg_tys f d) xs"
  shows "insts_agree f d (word_sem f ext d xs w) (int_sem f ext d (map2 ty_val (arg_tys f d) xs) w)"
proof (cases "external (id_op d)")
  case True
  then show ?thesis using external_agree [OF True nc ok ext] list_all2_lengthD [OF xs] by metis
next
  case inner: False
  let ?t = "id_ty d"
  obtain us where us: "map (value_type f) (id_results d) = map Some us"
    and e: "emit_ok f (id_op d) ?t (id_repair d) (id_args d) us"
    using ok(1) by (auto simp: inst_ok_def)
  from us have rt: "result_tys f d = us" by (simp add: result_tys_def map_Some_the)
  have len_us: "length (id_results d) = length us" using us by (metis length_map)
  have ts: "u \<in> set (arg_tys f d) \<Longrightarrow> is_well_formed u" for u
    using ok(2,3) by (auto simp: inst_typed_def arg_tys_def types_ok_def list_all_iff)
  have "us \<noteq> [] \<and> hd us = ?t"
    using e inner by (cases "id_op d") (auto simp: emit_ok_def external_def)
  then have t: "is_well_formed ?t"
    using us ok(2) by (cases us) (auto simp: types_ok_def Cons_eq_map_conv)
  consider imm where "id_op d = OConst imm" | "id_op d = OConvert" | "value_op (id_op d)"
    using inner external_value_op by blast
  then show ?thesis
  proof cases
    case (1 imm)
    then have "us = [?t]" "id_repair d = RepairNone" using e by (auto simp: emit_ok_def default_repair_cases)
    moreover have "wf_val ?t (imm_word imm)" using ok(3) by (simp add: inst_typed_def 1)
    ultimately show ?thesis using const_val [OF t, of imm]
      by (simp add: int_sem_def word_sem_def raw_results_def 1 insts_agree_def rt len_us)
  next
    case 2
    then obtain v where v: "id_args d = [v]" using ok(3) by (auto simp: inst_typed_def length_Suc_conv)
    then obtain u where u: "value_type f v = Some u" using ok(3) by (auto simp: inst_typed_def)
    obtain a where a: "xs = [a]" "wf_val u a" using xs by (auto simp: arg_tys_def v u list_all2_Cons1)
    have us1: "us = [?t]" and rep: "id_repair d = for_convert u ?t"
      using e u by (auto simp: 2 v emit_ok_def)
    have c: "ty_val ?t (apply_repair (for_convert u ?t) a) = ty_wrap ?t (ty_val u a)"
      using for_convert_val [OF ts t a(2)] by (simp add: arg_tys_def v u)
    then have "wf_val ?t (apply_repair (for_convert u ?t) a)" by (rule wf_ty_wrap [OF t])
    then show ?thesis using c
      by (simp add: int_sem_def word_sem_def raw_results_def 2 insts_agree_def rt us1 rep a arg_tys_def v u len_us)
  next
    case 3
    then have sem: "int_sem f ext d is w =
          map_option (\<lambda>k. (ty_wrap ?t k # map of_bool (flags_of (id_op d) ?t is), w)) (int_op (id_op d) is)"
        "raw_results f ext d xs w =
          map_option (\<lambda>r. (r # map of_bool (flags_of (id_op d) ?t (map2 ty_val (arg_tys f d) xs)), w))
            (raw_op (id_op d) (op_signed (id_op d) ?t (arg_tys f d)) xs)" for "is"
      using inner by (cases "id_op d"; simp add: int_sem_def raw_results_def value_op_def Let_def)+
    have "value_operands (id_op d) ?t (arg_tys f d)"
      using ok(3) 3 by (cases "id_op d") (simp_all add: inst_typed_def value_op_def)
    from default_repair_correct [OF t 3 this xs] obtain r k where
      r: "raw_op (id_op d) (op_signed (id_op d) ?t (arg_tys f d)) xs = Some r"
        "int_op (id_op d) (map2 ty_val (arg_tys f d) xs) = Some k"
        "wf_val ?t (apply_repair (default_repair (id_op d) ?t) r)"
        "ty_val ?t (apply_repair (default_repair (id_op d) ?t) r) = ty_wrap ?t k" .
    have us1: "us = ?t # replicate (if is_checked (id_op d) then 1 else 0) ty_bool"
      and rep: "id_repair d = default_repair (id_op d) ?t"
      using e 3 by (cases "id_op d"; simp add: emit_ok_def value_op_def is_checked_def)+
    show ?thesis using r
      by (cases "is_checked (id_op d)"; cases "overflows (id_op d) ?t (map2 ty_val (arg_tys f d) xs)")
         (simp_all add: sem word_sem_def insts_agree_def rt us1 rep len_us flags_of_def wf_bool bool_vals)
  qed
qed

subsection \<open>Whole executions\<close>

text \<open>The instruction a configuration is about to execute.\<close>

definition inst_at :: "ir_function \<Rightarrow> bref \<Rightarrow> nat \<Rightarrow> inst_data option" where
  "inst_at f k i =
     Option.bind (fn_block f k) (\<lambda>bd. Option.bind (nth_opt (bd_insts bd) i) (fn_inst f))"

lemma or_stuck_runs: "or_stuck r k \<noteq> Stuck \<longleftrightarrow> (\<exists>x. r = Some x \<and> k x \<noteq> Stuck)"
  by (cases r) simp_all

lemma read_values_Some_iff: "read_values env vs = Some xs \<longleftrightarrow> map env vs = map Some xs"
proof -
  have "those ys = Some xs \<longleftrightarrow> ys = map Some xs" for ys :: "'a option list" and xs
  proof (induction ys arbitrary: xs)
    case (Cons y ys)
    then show ?case by (cases y; cases xs) (auto split: option.split)
  qed auto
  then show ?thesis by (simp add: read_values_def)
qed

lemma read_values_ints:
  "env_ok f env \<Longrightarrow> read_values (env_ints f env) vs =
     map_option (map2 (\<lambda>v. ty_val (the (value_type f v))) vs) (read_values env vs)"
proof (induction vs)
  case (Cons v vs)
  then show ?case
    by (cases "those (map env vs)") (auto simp: read_values_def env_ints_def split: option.splits)
qed (simp add: read_values_def)

lemma read_values_wf:
  assumes "env_ok f env" "read_values env vs = Some xs"
  shows "list_all2 wf_val (map (\<lambda>v. the (value_type f v)) vs) xs"
  using assms(2)
proof (induction vs arbitrary: xs)
  case (Cons v vs)
  then obtain x xs' where x: "xs = x # xs'" "env v = Some x" "read_values env vs = Some xs'"
    by (auto simp: read_values_Some_iff Cons_eq_map_conv)
  moreover from x(2) obtain t where "value_type f v = Some t" "wf_val t x" using assms(1) by (auto simp: env_ok_def)
  ultimately show ?case using Cons.IH by simp
qed (simp add: read_values_Some_iff)

lemma bind_values_ints:
  assumes "env_ok f env" "map (value_type f) vs = map Some us" "list_all2 wf_val us xs"
  shows "bind_values vs (map2 ty_val us xs) (env_ints f env) = map_option (env_ints f) (bind_values vs xs env)
    \<and> (\<forall>env'. bind_values vs xs env = Some env' \<longrightarrow> env_ok f env')"
  using assms
proof (induction vs arbitrary: us xs env)
  case (Cons v vs)
  then obtain u us' x xs' where u: "us = u # us'" "value_type f v = Some u" "xs = x # xs'" "wf_val u x"
    by (auto simp: map_eq_Cons_conv Cons_eq_map_conv list_all2_Cons1)
  have e: "env_ints f (env(v \<mapsto> x)) = (env_ints f env)(v \<mapsto> ty_val u x)"
    using u(2) by (auto simp: env_ints_def)
  have ok: "env_ok f (env(v \<mapsto> x))" using Cons.prems(1) u by (auto simp: env_ok_def)
  have "map (value_type f) vs = map Some us'" "list_all2 wf_val us' xs'" using Cons.prems u by simp_all
  from Cons.IH [OF ok this] show ?case
    unfolding u(1,3) list.map zip_Cons_Cons prod.case bind_values.simps e [symmetric] .
qed (auto split: list.split)

lemma bind_values_length: "bind_values vs xs env = Some e \<Longrightarrow> length xs = length vs"
  by (induction vs xs env rule: bind_values.induct) simp_all

lemma edge_ints:
  assumes "list_all2 wf_val ts xs"
  shows "edge word_of_int t (map2 ty_val ts xs) = edge (\<lambda>x. x) t xs"
proof -
  consider "xs = []" "ts = []" | u a where "xs = [a]" "ts = [u]" | a b xs' u v ts' where "xs = a # b # xs'" "ts = u # v # ts'"
    using assms by (cases xs; cases "tl xs") (auto simp: list_all2_Cons2)
  then show ?thesis by cases (cases t; simp)+
qed

lemma edge_calls: "edge word t xs = Some c \<Longrightarrow> c \<in> set (block_calls t)"
proof -
  have s: "switch_edge x cases def = def \<or> switch_edge x cases def \<in> snd ` set cases" for x cases def
    by (induction x cases def rule: switch_edge.induct) auto
  show "edge word t xs = Some c \<Longrightarrow> c \<in> set (block_calls t)"
    by (cases "(word, t, xs)" rule: edge.cases) (use s in \<open>auto split: if_splits\<close>)
qed

lemma enter_ints:
  assumes "env_ok f env" "edge_typed f c"
  shows "enter f c (env_ints f env) w = exec_ints f (enter f c env w) \<and> exec_ok f (enter f c env w)"
proof (cases "read_values env (bc_args c)")
  case None
  then show ?thesis
    by (cases "fn_block_params f (bc_block c)") (simp_all add: enter_def read_values_ints [OF assms(1)])
next
  case (Some xs)
  obtain ps where ps: "fn_block_params f (bc_block c) = Some ps" "list_all (\<lambda>v. value_type f v \<noteq> None) ps"
    "map (value_type f) (bc_args c) = map (value_type f) ps"
    using assms(2) by (auto simp: edge_typed_def split: option.splits)
  let ?ts = "map (\<lambda>v. the (value_type f v)) ps"
  have t: "map (\<lambda>v. the (value_type f v)) (bc_args c) = ?ts"
    using arg_cong [OF ps(3), of "map the"] by (simp add: comp_def)
  have "list_all2 wf_val ?ts xs" using read_values_wf [OF assms(1) Some] by (simp only: t)
  note b = bind_values_ints [OF assms(1) the_Some_map [OF ps(2)] this]
  have "map2 (\<lambda>v. ty_val (the (value_type f v))) (bc_args c) xs = map2 ty_val ?ts xs"
    by (simp add: zip_map1 case_prod_unfold flip: t)
  then show ?thesis
    using ps(1) Some b
    by (cases "bind_values ps xs env") (simp_all add: enter_def read_values_ints [OF assms(1)])
qed

lemma step_ints:
  assumes ok: "\<forall>d \<in> set (fn_insts f). inst_ok f d" "well_typed f" "frames_ok ext" and c: "exec_ok f c"
    and nc: "\<And>k i env w d g. c = Exec k i env w \<Longrightarrow> inst_at f k i = Some d \<Longrightarrow> id_op d \<noteq> OCall g"
  shows "int_step f ext (exec_ints f c) = exec_ints f (word_step f ext c)
    \<and> exec_ok f (word_step f ext c)"
proof (cases c)
  case (Exec k i env w)
  then have env: "env_ok f env" using c by simp
  note read = read_values_ints [OF env]
  show ?thesis
  proof (cases "fn_block f k")
    case bd: (Some bd)
    show ?thesis
    proof (cases "i < length (bd_insts bd)")
      case True
      show ?thesis
      proof (cases "fn_inst f (bd_insts bd ! i)")
        case d: (Some d)
        have din: "d \<in> set (fn_insts f)" using d by (auto simp: fn_inst_def nth_opt_Some_iff)
        have "inst_at f k i = Some d" using bd d True by (simp add: inst_at_def nth_opt_def)
        with nc Exec have nc: "\<forall>g. id_op d \<noteq> OCall g" by blast
        have di: "inst_ok f d" "inst_typed f d" using ok(1,2) din by (auto simp: well_typed_def list_all_iff)
        show ?thesis
        proof (cases "read_values env (id_args d)")
          case xs: (Some xs)
          have wf: "list_all2 wf_val (arg_tys f d) xs"
            using read_values_wf [OF env xs] by (simp add: arg_tys_def)
          have "map2 (\<lambda>v. ty_val (the (value_type f v))) (id_args d) xs = map2 ty_val (arg_tys f d) xs"
            by (simp add: arg_tys_def zip_map1 case_prod_unfold)
          then have r: "read_values (env_ints f env) (id_args d) = Some (map2 ty_val (arg_tys f d) xs)"
            using xs by (simp add: read)
          obtain us where us: "map (value_type f) (id_results d) = map Some us" using di(1) by (auto simp: inst_ok_def)
          then have rt: "result_tys f d = us" by (simp add: result_tys_def map_Some_the)
          from inst_agree [OF di(1) well_typed_types_ok [OF ok(2)] di(2) nc ok(3) wf, of w]
          obtain rs w' where rs: "word_sem f ext d xs w = Some (rs, w')"
            "if length rs = length (id_results d)
             then list_all2 wf_val us rs \<and> int_sem f ext d (map2 ty_val (arg_tys f d) xs) w = Some (map2 ty_val us rs, w')
             else int_sem f ext d (map2 ty_val (arg_tys f d) xs) w = None"
            unfolding insts_agree_def rt by blast
          show ?thesis
          proof (cases "length rs = length (id_results d)")
            case len: True
            with rs(2) have "list_all2 wf_val us rs"
              "int_sem f ext d (map2 ty_val (arg_tys f d) xs) w = Some (map2 ty_val us rs, w')" by simp_all
            with bind_values_ints [OF env us this(1)] show ?thesis
              using bd True d xs r rs(1)
              by (cases "bind_values (id_results d) rs env") (simp_all add: Exec)
          next
            case False
            then have "bind_values (id_results d) rs env = None" using bind_values_length [of "id_results d" rs env] by force
            then show ?thesis using bd True d xs r rs False by (simp add: Exec)
          qed
        qed (simp add: Exec bd True d read)
      qed (simp add: Exec bd True)
    next
      case False
      show ?thesis
      proof (cases "bd_term bd")
        case t: (Some t)
        show ?thesis
        proof (cases "read_values env (term_own_args t)")
          case xs: (Some xs)
          let ?ts = "map (\<lambda>v. the (value_type f v)) (term_own_args t)"
          have wf: "list_all2 wf_val ?ts xs" by (rule read_values_wf [OF env xs])
          have m: "map2 (\<lambda>v. ty_val (the (value_type f v))) (term_own_args t) xs = map2 ty_val ?ts xs"
            by (simp add: zip_map1 case_prod_unfold)
          have e: "edge word_of_int t (map2 ty_val ?ts xs) = edge (\<lambda>x. x) t xs" by (rule edge_ints [OF wf])
          show ?thesis
          proof (cases "edge (\<lambda>x. x) t xs")
            case None
            then show ?thesis using bd False t xs e wf
              by (simp add: Exec read m list_all2_map1)
          next
            case (Some call)
            then have "call \<in> set (block_calls t)" by (rule edge_calls)
            moreover have "bd \<in> set (fn_blocks f)" using bd by (auto simp: fn_block_def nth_opt_Some_iff)
            ultimately have "edge_typed f call" using ok(2) t by (fastforce simp: well_typed_def list_all_iff)
            from enter_ints [OF env this, of w] show ?thesis
              using bd False t xs e Some by (simp add: Exec read m)
          qed
        qed (simp add: Exec bd False t read)
      qed (simp add: Exec bd False)
    qed
  qed (simp add: Exec)
qed (use c in simp_all)

subsection \<open>Finished functions\<close>

text \<open>An execution starts in the entry block with the arguments as its parameters.\<close>

definition ir_start :: "ir_function \<Rightarrow> 'v list \<Rightarrow> 'w \<Rightarrow> ('v, 'w) exec" where
  "ir_start f xs w =
     or_stuck (fn_block_params f (fn_entry f)) (\<lambda>ps.
     or_stuck (bind_values ps xs Map.empty) (\<lambda>env. Exec (fn_entry f) 0 env w))"

lemma start_ints:
  assumes "fn_block_params f (fn_entry f) = Some ps" "map (value_type f) ps = map Some ts"
    and "list_all2 wf_val ts xs"
  shows "ir_start f (map2 ty_val ts xs) w = exec_ints f (ir_start f xs w) \<and> exec_ok f (ir_start f xs w)"
proof -
  have "env_ok f Map.empty" "env_ints f Map.empty = Map.empty"
    by (auto simp: env_ok_def env_ints_def)
  with bind_values_ints [OF _ assms(2,3), of Map.empty] show ?thesis
    by (cases "bind_values ps xs Map.empty") (simp_all add: ir_start_def assms(1))
qed

text \<open>What the builder guarantees of a finished function.\<close>

lemma finished_function:
  assumes "built name s b" "small (fb_func b)" "fb_finish b = Inr f"
  shows "\<forall>d \<in> set (fn_insts f). inst_ok f d"
    and "fn_sig f = s"
    and "fn_block_params f (fn_entry f) = Some (map value_new [0..<length (sig_params s)])"
    and "map (value_type f) (map value_new [0..<length (sig_params s)]) = map Some (sig_params s)"
proof -
  have f: "f = fb_func b" using assms(3) by (simp add: fb_finish_def split: option.splits)
  note inv = built_inv [OF assms(1,2), folded f]
  then show "\<forall>d \<in> set (fn_insts f). inst_ok f d" "fn_sig f = s"
    "fn_block_params f (fn_entry f) = Some (map value_new [0..<length (sig_params s)])"
    "map (value_type f) (map value_new [0..<length (sig_params s)]) = map Some (sig_params s)"
    by (auto simp: entry_ok_def fn_block_params_def nth_opt_def bent.idx_mk_id)
qed

text \<open>The absolute value of an \<open>i8\<close>, whose result wraps at -128.\<close>

definition abs_sig :: signature where "abs_sig = \<lparr>sig_params = [ty_i8], sig_returns = [ty_i8]\<rparr>"

definition abs_calls :: "fb_method list" where
  "abs_calls =
     [MIns (IIconst ty_i8 (imm_from_u8 0)), MIns (ISub ty_i8 (value_new 1) (value_new 0)),
      MIns (IIcmp CmpLt (value_new 0) (value_new 1)), MCreateBlockWith [ty_i8],
      MBrif (value_new 3) (block_new 1) [value_new 2] (block_new 1) [value_new 0],
      MSwitchTo (block_new 1), MRet [value_new 4]]"

definition abs_builder :: builder where
  "abs_builder = the (fb_run abs_calls (the (fb_new ''abs'' abs_sig)))"

definition abs_fn :: ir_function where "abs_fn = fb_func abs_builder"

lemma abs_built: "built ''abs'' abs_sig abs_builder"
proof -
  have n: "fb_new ''abs'' abs_sig = Some (the (fb_new ''abs'' abs_sig))"
    by (simp add: fb_new_def fn_new_eq)
  have "fb_run abs_calls (the (fb_new ''abs'' abs_sig)) \<noteq> None" by code_simp
  then have "fb_run abs_calls (the (fb_new ''abs'' abs_sig)) = Some abs_builder"
    by (simp add: abs_builder_def)
  with built.new [OF n] show ?thesis by (rule built_run)
qed

lemma abs_shape: "length (fn_insts abs_fn) = 3" "length (fn_values abs_fn) = 5" "length (fn_blocks abs_fn) = 2"
  "fb_error abs_builder = None"
  by code_simp+

fun exec_result :: "('v, 'w) exec \<Rightarrow> (terminator \<times> 'v list) option" where
  "exec_result (Ended t xs w) = Some (t, xs)"
| "exec_result c = None"

lemma abs_fn_eq:
  "abs_fn =
    \<lparr>fn_name = ''abs'', fn_sig = abs_sig, fn_entry = Block 0,
     fn_insts =
       [\<lparr>id_op = OConst (imm_from_u8 0), id_ty = ty_i8, id_repair = RepairNone, id_args = [],
         id_results = [Value 1], id_note = None\<rparr>,
        \<lparr>id_op = OSub, id_ty = ty_i8, id_repair = RepairSext 8, id_args = [Value 1, Value 0],
         id_results = [Value 2], id_note = None\<rparr>,
        \<lparr>id_op = OIcmp CmpLt, id_ty = ty_bool, id_repair = RepairNone, id_args = [Value 0, Value 1],
         id_results = [Value 3], id_note = None\<rparr>],
     fn_values =
       [\<lparr>vd_ty = ty_i8, vd_def = DefParam (Block 0) 0\<rparr>, \<lparr>vd_ty = ty_i8, vd_def = DefResult (Inst 0) 0\<rparr>,
        \<lparr>vd_ty = ty_i8, vd_def = DefResult (Inst 1) 0\<rparr>, \<lparr>vd_ty = ty_bool, vd_def = DefResult (Inst 2) 0\<rparr>,
        \<lparr>vd_ty = ty_i8, vd_def = DefParam (Block 1) 0\<rparr>],
     fn_blocks =
       [\<lparr>bd_params = [Value 0], bd_insts = [Inst 0, Inst 1, Inst 2],
         bd_term = Some (Brif (Value 3) \<lparr>bc_block = Block 1, bc_args = [Value 2]\<rparr>
           \<lparr>bc_block = Block 1, bc_args = [Value 0]\<rparr>), bd_kind = KNormal\<rparr>,
        \<lparr>bd_params = [Value 4], bd_insts = [], bd_term = Some (Return [Value 4]), bd_kind = KNormal\<rparr>]\<rparr>"
  by code_simp

lemma abs_zero: "imm_word (imm_from_u8 0) = 0" "imm_val (imm_from_u8 0) = 0" "wf_val ty_i8 0" "ty_val ty_i8 0 = 0" "ty_wrap ty_i8 128 = - 128"
    "ty_wrap ty_i8 0 = 0"
proof -
  show "imm_val (imm_from_u8 0) = 0" by (simp add: imm_from_uint_val)
  show "ty_wrap ty_i8 0 = 0" by (simp add: ty_wrap_def ty_defs ty_bits_def ty_is_signed_def)
  show "imm_word (imm_from_u8 0) = 0" by (simp add: imm_word_def imm_from_uint_val)
  have t: "is_well_formed ty_i8" by (simp add: is_well_formed_def WORD_BITS_def ty_defs ty_bits_def)
  show "wf_val ty_i8 0" by (simp add: wf_val_range [OF t])
  show "ty_val ty_i8 0 = 0" by (simp add: ty_val_def)
  show "ty_wrap ty_i8 128 = - 128" by (simp add: ty_wrap_def ty_defs ty_bits_def ty_is_signed_def)
qed

lemma abs_typed: "well_typed abs_fn"
proof -
  have e: "list_all (edge_typed abs_fn) (block_calls (Brif (Value 3) \<lparr>bc_block = Block 1, bc_args = [Value 2]\<rparr>
      \<lparr>bc_block = Block 1, bc_args = [Value 0]\<rparr>))"
    "list_all (\<lambda>v. is_well_formed (vd_ty v)) (fn_values abs_fn)"
    "list_all (inst_typed abs_fn) (tl (fn_insts abs_fn))"
    by code_simp+
  then show ?thesis
    by (simp add: well_typed_def) (simp add: abs_fn_eq inst_typed_def abs_zero)
qed

lemmas exec_eval = ir_start_def enter_def fn_block_def fn_inst_def fn_block_params_def nth_opt_def read_values_def
  int_sem_def external_def flags_of_def is_checked_def int_op_def int_binary_def term_own_args_def

end
