(* ===== verification/Ir_Module.thy ===== *)
theory Ir_Module
  imports Ir_Builder
begin

text \<open>
  \<open>evm-codegen/src/ir/module.rs\<close>: a program of functions that are declared before they are
  defined. Indexing the three parallel vectors out of range panics (\<open>None\<close>, \<open>Panic\<close>).
  \<open>verify\<close> is characterised exactly, and every sequence of declarations and definitions keeps
  bodies and declared signatures in agreement.
\<close>

subsection \<open>The module\<close>

record ir_module =
  mod_fork :: fork
  mod_names :: "string list"
  mod_sigs :: "signature list"
  mod_funcs :: "ir_function option list"
  mod_entry :: "fref option"

definition mod_new :: "fork \<Rightarrow> ir_module" where
  "mod_new f = \<lparr>mod_fork = f, mod_names = [], mod_sigs = [], mod_funcs = [], mod_entry = None\<rparr>"

definition mod_declare :: "string \<Rightarrow> signature \<Rightarrow> ir_module \<Rightarrow> fref \<times> ir_module" where
  "mod_declare name s m =
     (func_new (length (mod_names m)),
      m\<lparr>mod_names := mod_names m @ [name], mod_sigs := mod_sigs m @ [s],
        mod_funcs := mod_funcs m @ [None]\<rparr>)"

definition mod_define :: "fref \<Rightarrow> ir_function \<Rightarrow> ir_module \<Rightarrow> (ir_error, ir_module) rust" where
  "mod_define f body m =
     (case nth_opt (mod_sigs m) (func_index f) of
        None \<Rightarrow> Panic
      | Some s \<Rightarrow>
          if fn_sig body \<noteq> s then
            (case nth_opt (mod_names m) (func_index f) of
               None \<Rightarrow> Panic | Some n \<Rightarrow> Err (SignatureMismatch f n))
          else
            (case nth_opt (mod_funcs m) (func_index f) of
               None \<Rightarrow> Panic
             | Some (Some _) \<Rightarrow>
                 (case nth_opt (mod_names m) (func_index f) of
                    None \<Rightarrow> Panic | Some n \<Rightarrow> Err (AlreadyDefined f n))
             | Some None \<Rightarrow> Ok (m\<lparr>mod_funcs := (mod_funcs m)[func_index f := Some body]\<rparr>)))"

definition mod_set_entry :: "fref \<Rightarrow> ir_module \<Rightarrow> ir_module" where
  "mod_set_entry f m = m\<lparr>mod_entry := Some f\<rparr>"

definition mod_signature :: "ir_module \<Rightarrow> fref \<Rightarrow> signature option" where
  "mod_signature m f = nth_opt (mod_sigs m) (func_index f)"

definition mod_name :: "ir_module \<Rightarrow> fref \<Rightarrow> string option" where
  "mod_name m f = nth_opt (mod_names m) (func_index f)"

definition mod_get :: "ir_module \<Rightarrow> fref \<Rightarrow> ir_function option option" where
  "mod_get m f = nth_opt (mod_funcs m) (func_index f)"

definition mod_get_mut :: "fref \<Rightarrow> (ir_function \<Rightarrow> ir_function) \<Rightarrow> ir_module \<Rightarrow> ir_module option" where
  "mod_get_mut f g m =
     map_option (\<lambda>fs. m\<lparr>mod_funcs := fs\<rparr>)
       (update_opt (func_index f) (map_option g) (mod_funcs m))"

definition mod_len :: "ir_module \<Rightarrow> nat" where "mod_len m = length (mod_names m)"

definition mod_is_empty :: "ir_module \<Rightarrow> bool" where "mod_is_empty m \<longleftrightarrow> mod_names m = []"

definition mod_all_funcs :: "ir_module \<Rightarrow> fref list" where
  "mod_all_funcs m = map func_new [0..<length (mod_names m)]"

definition mod_has_func :: "ir_module \<Rightarrow> fref \<Rightarrow> bool" where
  "mod_has_func m f \<longleftrightarrow> func_index f < length (mod_names m)"

text \<open>The loop of \<open>verify\<close> over the declared functions, then the entry check.\<close>

fun verify_funcs :: "ir_module \<Rightarrow> fref list \<Rightarrow> (ir_error, unit) rust" where
  "verify_funcs m [] = (if mod_entry m = None then Err NoEntry else Ok ())"
| "verify_funcs m (f # fs) =
     (case mod_get m f of
        None \<Rightarrow> Panic
      | Some None \<Rightarrow>
          (case nth_opt (mod_names m) (func_index f) of
             None \<Rightarrow> Panic | Some n \<Rightarrow> Err (Undefined f n))
      | Some (Some _) \<Rightarrow> verify_funcs m fs)"

definition mod_verify :: "ir_module \<Rightarrow> (ir_error, unit) rust" where
  "mod_verify m = verify_funcs m (mod_all_funcs m)"

subsection \<open>Reachable modules\<close>

text \<open>The public operations that change a module. \<open>get_mut\<close> hands out a body to be changed at will: \<open>R\<close> is
  what its callers do to a body.\<close>

inductive mod_step :: "(ir_function \<Rightarrow> ir_function \<Rightarrow> bool) \<Rightarrow> ir_module \<Rightarrow> ir_module \<Rightarrow> bool" for R where
  ms_declare: "mod_step R m (snd (mod_declare name s m))"
| ms_define: "mod_define f body m = Ok m' \<Longrightarrow> mod_step R m m'"
| ms_entry: "mod_step R m (mod_set_entry f m)"
| ms_get_mut: "mod_get_mut f g m = Some m' \<Longrightarrow> (\<And>b. R b (g b)) \<Longrightarrow> mod_step R m m'"
| ms_fork: "mod_step R m (m\<lparr>mod_fork := fk\<rparr>)"

inductive_cases mod_stepE: "mod_step R m m'"

definition mod_shape :: "ir_module \<Rightarrow> bool" where
  "mod_shape m \<longleftrightarrow> length (mod_sigs m) = length (mod_names m) \<and> length (mod_funcs m) = length (mod_names m)"

text \<open>Bodies agree with the declarations.\<close>

definition sigs_agree :: "ir_module \<Rightarrow> bool" where
  "sigs_agree m \<longleftrightarrow>
     (\<forall>i < length (mod_names m). \<forall>b. mod_funcs m ! i = Some b \<longrightarrow> fn_sig b = mod_sigs m ! i)"

lemma mod_new_inv: "mod_shape (mod_new f)" "sigs_agree (mod_new f)"
  by (simp_all add: mod_shape_def sigs_agree_def mod_new_def)

lemma mod_define_OkD:
  assumes "mod_define f body m = Ok m'"
  shows "func_index f < length (mod_sigs m)" "fn_sig body = mod_sigs m ! func_index f"
    "func_index f < length (mod_funcs m)" "mod_funcs m ! func_index f = None"
    "m' = m\<lparr>mod_funcs := (mod_funcs m)[func_index f := Some body]\<rparr>"
  using assms by (auto simp: mod_define_def nth_opt_Some_iff split: option.splits if_splits)

lemma mod_get_mut_SomeD:
  assumes "mod_get_mut f g m = Some m'"
  shows "func_index f < length (mod_funcs m)"
    "m' = m\<lparr>mod_funcs := (mod_funcs m)[func_index f := map_option g (mod_funcs m ! func_index f)]\<rparr>"
  using assms by (auto simp: mod_get_mut_def update_opt_def split: if_splits)

lemma mod_step_shape:
  assumes "mod_step R m m'" "mod_shape m"
  shows "mod_shape m'"
  using assms
proof (cases rule: mod_step.cases)
  case (ms_define f body)
  show ?thesis using assms(2) by (simp add: mod_define_OkD(5) [OF ms_define] mod_shape_def)
next
  case (ms_get_mut f g)
  show ?thesis using assms(2) by (simp add: mod_get_mut_SomeD(2) [OF ms_get_mut(1)] mod_shape_def)
qed (use assms(2) in \<open>simp_all add: mod_shape_def mod_declare_def mod_set_entry_def\<close>)

lemma mod_steps_shape: "(mod_step R)\<^sup>*\<^sup>* m m' \<Longrightarrow> mod_shape m \<Longrightarrow> mod_shape m'"
  by (induction rule: rtranclp_induct) (auto intro: mod_step_shape)

lemma mod_step_sigs:
  assumes "mod_step R m m'" "mod_shape m" "sigs_agree m" and R: "\<And>b b'. R b b' \<Longrightarrow> fn_sig b' = fn_sig b"
  shows "sigs_agree m'"
  using assms(1)
proof (cases rule: mod_step.cases)
  case (ms_define f body)
  note e = mod_define_OkD [OF ms_define]
  show ?thesis using assms(3) e(1-4) by (auto simp: e(5) sigs_agree_def nth_list_update)
next
  case (ms_get_mut f g)
  note e = mod_get_mut_SomeD [OF ms_get_mut(1)]
  have "fn_sig (g b) = fn_sig b" for b using R [OF ms_get_mut(2)] .
  then show ?thesis using assms(3) e(1) by (auto simp: e(2) sigs_agree_def nth_list_update)
qed (use assms(2,3) in \<open>auto simp: sigs_agree_def mod_shape_def mod_declare_def mod_set_entry_def nth_append less_Suc_eq\<close>)

lemma mod_steps_sigs:
  assumes "(mod_step R)\<^sup>*\<^sup>* m m'" "mod_shape m" "sigs_agree m" "\<And>b b'. R b b' \<Longrightarrow> fn_sig b' = fn_sig b"
  shows "sigs_agree m'"
  using assms(1)
proof (induction rule: rtranclp_induct)
  case (step y z)
  from mod_step_sigs [OF step.hyps(2) mod_steps_shape [OF step.hyps(1) assms(2)] step.IH assms(4)]
  show ?case .
qed (rule assms(3))

text \<open>What a later module keeps of a declaration.\<close>

definition keeps :: "(ir_function \<Rightarrow> ir_function \<Rightarrow> bool) \<Rightarrow> nat \<Rightarrow> ir_module \<Rightarrow> ir_module \<Rightarrow> bool" where
  "keeps R i m m' \<longleftrightarrow> i < length (mod_names m') \<and> mod_names m' ! i = mod_names m ! i \<and>
     mod_sigs m' ! i = mod_sigs m ! i \<and>
     (\<forall>b. mod_funcs m ! i = Some b \<longrightarrow> (\<exists>b'. mod_funcs m' ! i = Some b' \<and> R\<^sup>*\<^sup>* b b'))"

lemma mod_step_keeps:
  assumes "mod_step R m m'" "mod_shape m" "i < length (mod_names m)"
  shows "keeps R i m m'"
  using assms(1)
proof (cases rule: mod_step.cases)
  case (ms_define f body)
  note e = mod_define_OkD [OF ms_define]
  show ?thesis using assms(3) e(4) by (cases "func_index f = i") (auto simp: e(5) keeps_def)
next
  case (ms_get_mut f g)
  note e = mod_get_mut_SomeD [OF ms_get_mut(1)]
  show ?thesis using assms(3) e(1) ms_get_mut(2) by (auto simp: e(2) keeps_def nth_list_update)
qed (use assms(2,3) in \<open>auto simp: keeps_def mod_shape_def mod_declare_def mod_set_entry_def nth_append\<close>)

lemma mod_steps_keeps:
  "(mod_step R)\<^sup>*\<^sup>* m m' \<Longrightarrow> mod_shape m \<Longrightarrow> i < length (mod_names m) \<Longrightarrow> keeps R i m m'"
proof (induction rule: rtranclp_induct)
  case (step y z)
  have k: "keeps R i m y" using step by blast
  then have "keeps R i y z"
    using mod_step_keeps [OF step.hyps(2) mod_steps_shape [OF step.hyps(1) step.prems(1)]] by (simp add: keeps_def)
  with k show ?case unfolding keeps_def by (metis rtranclp_trans)
qed (simp add: keeps_def)

subsection \<open>Properties\<close>

text \<open>The first declaration without a body.\<close>

definition first_undefined :: "ir_module \<Rightarrow> nat option" where
  "first_undefined m = List.find (\<lambda>i. mod_funcs m ! i = None) [0..<length (mod_names m)]"

lemma verify_funcs_eq:
  assumes "mod_shape m" "\<forall>f \<in> set fs. func_index f < length (mod_names m)"
  shows "verify_funcs m fs =
    (case List.find (\<lambda>f. mod_funcs m ! func_index f = None) fs of
       Some f \<Rightarrow> Err (Undefined f (mod_names m ! func_index f))
     | None \<Rightarrow> if mod_entry m = None then Err NoEntry else Ok ())"
  using assms(2)
proof (induction fs)
  case (Cons f fs)
  then show ?case
    using assms(1) by (auto simp: mod_get_def nth_opt_def mod_shape_def split: option.splits)
qed simp

lemma find_map: "List.find P (map g xs) = map_option g (List.find (\<lambda>x. P (g x)) xs)"
  by (induction xs) simp_all

lemma find_cong: "(\<And>x. x \<in> set xs \<Longrightarrow> P x = Q x) \<Longrightarrow> List.find P xs = List.find Q xs"
  by (induction xs) simp_all

lemma mod_verify_eq:
  assumes "mod_shape m" "length (mod_names m) \<le> 2 ^ 32"
  shows "mod_verify m =
    (case first_undefined m of
       Some i \<Rightarrow> Err (Undefined (func_new i) (mod_names m ! i))
     | None \<Rightarrow> if mod_entry m = None then Err NoEntry else Ok ())"
proof -
  have i: "func_index (func_new i) = i" if "i < length (mod_names m)" for i
    using that assms(2) by (intro fent.idx_mk_id) simp
  then have r: "\<forall>f \<in> set (mod_all_funcs m). func_index f < length (mod_names m)"
    by (auto simp: mod_all_funcs_def)
  have "List.find (\<lambda>f. mod_funcs m ! func_index f = None) (mod_all_funcs m) = map_option func_new (first_undefined m)"
    using i by (auto simp: mod_all_funcs_def find_map first_undefined_def intro!: find_cong arg_cong [where f = "map_option func_new"])
  moreover have "i < length (mod_names m)" if "first_undefined m = Some i" for i
    using that by (auto simp: first_undefined_def find_Some_iff)
  ultimately show ?thesis
    using verify_funcs_eq [OF assms(1) r] i by (auto simp: mod_verify_def split: option.splits)
qed

lemma mod_verify_Ok:
  assumes "mod_shape m" "length (mod_names m) \<le> 2 ^ 32" "mod_verify m = Ok ()"
  shows "i < length (mod_names m) \<Longrightarrow> mod_funcs m ! i \<noteq> None" and "mod_entry m \<noteq> None"
  using mod_verify_eq [OF assms(1,2)] assms(3)
  by (auto simp: first_undefined_def find_None_iff split: option.splits if_splits)

text \<open>C21 A module under every public operation, \<open>get_mut\<close> included, whose callers may change a body by any
  relation \<open>R\<close>: the handle of a declaration keeps its name and its declared signature for good; a body,
  once there, stays, changed by \<open>R\<close> at most; if \<open>R\<close> keeps the signature of a body then every body has the
  signature its declaration announced (otherwise \<open>get_mut\<close> can make them disagree, and \<open>verify\<close> does not
  look); and \<open>verify\<close> reports the first declaration without a body by handle and name, then a missing
  entry, and accepts everything else.\<close>

theorem module_sound:
  assumes "(mod_step R)\<^sup>*\<^sup>* (mod_new fk) m" "(mod_step R)\<^sup>*\<^sup>* m m'" "i < length (mod_names m)"
    and "length (mod_names m') \<le> 2 ^ 32"
  shows "mod_names m' ! i = mod_names m ! i \<and> mod_sigs m' ! i = mod_sigs m ! i \<and>
    (\<forall>b. mod_funcs m ! i = Some b \<longrightarrow> (\<exists>b'. mod_funcs m' ! i = Some b' \<and> R\<^sup>*\<^sup>* b b')) \<and>
    ((\<forall>b b'. R b b' \<longrightarrow> fn_sig b' = fn_sig b) \<longrightarrow>
       (\<forall>b. mod_funcs m' ! i = Some b \<longrightarrow> fn_sig b = mod_sigs m ! i)) \<and>
    mod_verify m' =
      (case List.find (\<lambda>j. mod_funcs m' ! j = None) [0..<length (mod_names m')] of
         Some j \<Rightarrow> Err (Undefined (func_new j) (mod_names m' ! j))
       | None \<Rightarrow> if mod_entry m' = None then Err NoEntry else Ok ())"
proof -
  have shape: "mod_shape m" using mod_steps_shape [OF assms(1) mod_new_inv(1)] .
  have shape': "mod_shape m'" using mod_steps_shape [OF assms(2) shape] .
  note k = mod_steps_keeps [OF assms(2) shape assms(3)]
  have "fn_sig b = mod_sigs m ! i" if "\<forall>b b'. R b b' \<longrightarrow> fn_sig b' = fn_sig b" "mod_funcs m' ! i = Some b" for b
  proof -
    have R: "fn_sig b' = fn_sig b" if "R b b'" for b b' using \<open>\<forall>b b'. _\<close> that by blast
    have "sigs_agree m" using mod_steps_sigs [OF assms(1) mod_new_inv R] by blast
    with assms(2) shape have "sigs_agree m'" using R by (rule mod_steps_sigs)
    then show ?thesis using k that(2) by (auto simp: sigs_agree_def keeps_def)
  qed
  then show ?thesis
    using k mod_verify_eq [OF shape' assms(4)] unfolding keeps_def first_undefined_def by blast
qed

definition demo_module :: ir_module where
  "demo_module = snd (mod_declare ''inc'' demo_sig (mod_new Cancun))"

definition demo_linked :: ir_module where
  "demo_linked = mod_set_entry (func_new 0)
     (demo_module\<lparr>mod_funcs := [Some (fb_func demo)]\<rparr>)"

theorem module_sound_witness:
  "(mod_step (=))\<^sup>*\<^sup>* demo_module demo_linked \<and> mod_verify demo_linked = Ok () \<and>
   fn_sig (fb_func demo) = demo_sig"
proof -
  have a: "(mod_step (=))\<^sup>*\<^sup>* (mod_new Cancun) demo_module"
    unfolding demo_module_def by (rule r_into_rtranclp) (rule ms_declare)
  have s: "fn_sig (fb_func demo) = demo_sig" by code_simp
  have "mod_define (func_new 0) (fb_func demo) demo_module =
      Ok (demo_module\<lparr>mod_funcs := [Some (fb_func demo)]\<rparr>)"
    by (simp add: mod_define_def demo_module_def mod_declare_def mod_new_def nth_opt_def s fent.idx_mk_id)
  then have b: "(mod_step (=))\<^sup>*\<^sup>* demo_module demo_linked"
    unfolding demo_linked_def by (meson converse_rtranclp_into_rtranclp ms_define ms_entry r_into_rtranclp)
  have n: "mod_names demo_module = [''inc'']" "mod_names demo_linked = [''inc'']"
    "mod_funcs demo_linked = [Some (fb_func demo)]" "mod_entry demo_linked = Some (func_new 0)"
    by (simp_all add: demo_linked_def demo_module_def mod_declare_def mod_new_def mod_set_entry_def)
  have "0 < length (mod_names demo_module)" "length (mod_names demo_linked) \<le> 2 ^ 32"
    by (simp_all add: n)
  from module_sound [OF a b this] b s show ?thesis by (simp add: n)
qed

end
