(* ===== verification/Ir_Program.thy ===== *)
theory Ir_Program
  imports Ir_Exec Ir_Module
begin

text \<open>
  What a module computes: the execution of \<open>Ir_Exec\<close> with the internal calls between the functions of a
  module (\<open>Op::Call\<close>, \<open>Terminator::Return\<close>) in place of an outside world. A call suspends the caller and
  starts the callee's entry block on the arguments; a return binds the values to the results of the call
  and resumes after it. The refinement of words to integers carries over to whole modules: here the
  guarantees of the builder, of the repairs and of \<open>define\<close> and \<open>verify\<close> meet.
\<close>

subsection \<open>Calls and returns\<close>

text \<open>A suspended caller: its function, the block and index of the call, and its values.\<close>

type_synonym 'v suspended = "fref \<times> bref \<times> nat \<times> (vref \<rightharpoonup> 'v)"

datatype ('v, 'w) run = Run "'v suspended list" fref "('v, 'w) exec"

definition mod_body :: "ir_module \<Rightarrow> fref \<Rightarrow> ir_function option" where
  "mod_body m fn = (case mod_get m fn of Some b \<Rightarrow> b | None \<Rightarrow> None)"

definition pending_call :: "ir_function \<Rightarrow> bref \<Rightarrow> nat \<Rightarrow> (fref \<times> inst_data) option" where
  "pending_call f k i =
     Option.bind (inst_at f k i) (\<lambda>d. case id_op d of OCall g \<Rightarrow> Some (g, d) | _ \<Rightarrow> None)"

definition return_to :: "ir_module \<Rightarrow> 'v list \<Rightarrow> 'w \<Rightarrow> 'v suspended \<Rightarrow> ('v, 'w) exec" where
  "return_to m xs w s =
     (let (fn, k, i, env) = s in
      or_stuck (mod_body m fn) (\<lambda>f.
      or_stuck (inst_at f k i) (\<lambda>d.
      or_stuck (bind_values (id_results d) xs env) (\<lambda>env'. Exec k (i + 1) env' w))))"

fun run_step ::
  "(ir_function \<Rightarrow> ('v, 'w) meaning) \<Rightarrow> ('v \<Rightarrow> word256) \<Rightarrow> ir_module \<Rightarrow> ('v, 'w) run \<Rightarrow> ('v, 'w) run" where
  "run_step sem word m (Run st fn (Exec k i env w)) =
     (case mod_body m fn of
        None \<Rightarrow> Run st fn Stuck
      | Some f \<Rightarrow>
          (case pending_call f k i of
             Some (g, d) \<Rightarrow>
               (case (read_values env (id_args d), mod_body m g) of
                  (Some xs, Some h) \<Rightarrow> Run ((fn, k, i, env) # st) g (ir_start h xs w)
                | _ \<Rightarrow> Run st fn Stuck)
           | None \<Rightarrow> Run st fn (ir_step (sem f) word f (Exec k i env w))))"
| "run_step sem word m (Run (s # st) fn (Ended (Return vs) xs w)) = Run st (fst s) (return_to m xs w s)"
| "run_step sem word m r = r"

subsection \<open>Types\<close>

text \<open>Calls agree with the declared signature of the callee, returns with that of the function.\<close>

definition calls_typed :: "ir_module \<Rightarrow> ir_function \<Rightarrow> bool" where
  "calls_typed m f \<longleftrightarrow>
     list_all (\<lambda>d. case id_op d of
         OCall g \<Rightarrow>
           (case mod_signature m g of
              Some s \<Rightarrow> map (value_type f) (id_args d) = map Some (sig_params s)
                \<and> map (value_type f) (id_results d) = map Some (sig_returns s)
            | None \<Rightarrow> False)
       | _ \<Rightarrow> True) (fn_insts f)
     \<and> list_all (\<lambda>bd. case bd_term bd of
         Some (Return vs) \<Rightarrow> map (value_type f) vs = map Some (sig_returns (fn_sig f))
       | _ \<Rightarrow> True) (fn_blocks f)"

definition typed_module :: "ir_module \<Rightarrow> bool" where
  "typed_module m \<longleftrightarrow>
     sigs_agree m
     \<and> list_all (\<lambda>b. case b of Some f \<Rightarrow> well_typed f \<and> calls_typed m f | None \<Rightarrow> True) (mod_funcs m)"

text \<open>Every body comes from a builder.\<close>

definition built_module :: "ir_module \<Rightarrow> bool" where
  "built_module m \<longleftrightarrow>
     (\<forall>f. Some f \<in> set (mod_funcs m) \<longrightarrow>
        (\<exists>name s b. built name s b \<and> small (fb_func b) \<and> fb_finish b = Inr f))"

fun ended_typed :: "ir_function \<Rightarrow> ('v, 'w) exec \<Rightarrow> bool" where
  "ended_typed f (Ended (Return vs) xs w) \<longleftrightarrow> map (value_type f) vs = map Some (sig_returns (fn_sig f))"
| "ended_typed f c \<longleftrightarrow> True"

fun stack_ok :: "ir_module \<Rightarrow> word256 suspended list \<Rightarrow> fref \<Rightarrow> bool" where
  "stack_ok m [] g \<longleftrightarrow> True"
| "stack_ok m ((fn, k, i, env) # st) g \<longleftrightarrow>
     (\<exists>f d. mod_body m fn = Some f \<and> env_ok f env \<and> inst_at f k i = Some d \<and> id_op d = OCall g)
     \<and> stack_ok m st fn"

text \<open>The representation invariant of a running module: every value of every active function is a well
  formed word of its type; and the integers it stands for.\<close>

fun run_ok :: "ir_module \<Rightarrow> (word256, 'w) run \<Rightarrow> bool" where
  "run_ok m (Run st fn c) \<longleftrightarrow>
     (\<exists>f. mod_body m fn = Some f \<and> exec_ok f c \<and> ended_typed f c) \<and> stack_ok m st fn"

fun suspended_ints :: "ir_module \<Rightarrow> word256 suspended \<Rightarrow> int suspended" where
  "suspended_ints m (fn, k, i, env) =
     (fn, k, i, case mod_body m fn of Some f \<Rightarrow> env_ints f env | None \<Rightarrow> Map.empty)"

fun run_ints :: "ir_module \<Rightarrow> (word256, 'w) run \<Rightarrow> (int, 'w) run" where
  "run_ints m (Run st fn c) =
     Run (map (suspended_ints m) st) fn (case mod_body m fn of Some f \<Rightarrow> exec_ints f c | None \<Rightarrow> Stuck)"

abbreviation run_words where "run_words m ext \<equiv> run_step (\<lambda>f. word_sem f ext) (\<lambda>x. x) m"

abbreviation run_integers where "run_integers m ext \<equiv> run_step (\<lambda>f. int_sem f ext) word_of_int m"

text \<open>The run of the module's entry function.\<close>

definition run_start :: "ir_module \<Rightarrow> fref \<Rightarrow> 'v list \<Rightarrow> 'w \<Rightarrow> ('v, 'w) run" where
  "run_start m fn xs w = Run [] fn (or_stuck (mod_body m fn) (\<lambda>f. ir_start f xs w))"

subsection \<open>The refinement\<close>

lemma mod_body_SomeD:
  assumes "mod_shape m" "sigs_agree m" "mod_body m fn = Some f"
  shows "Some f \<in> set (mod_funcs m)" "mod_signature m fn = Some (fn_sig f)"
proof -
  have b: "func_index fn < length (mod_funcs m)" "mod_funcs m ! func_index fn = Some f"
    using assms(3) by (auto simp: mod_body_def mod_get_def nth_opt_def split: if_splits)
  then show "Some f \<in> set (mod_funcs m)" by (metis nth_mem)
  show "mod_signature m fn = Some (fn_sig f)"
    using assms(1,2) b by (auto simp: mod_shape_def sigs_agree_def mod_signature_def nth_opt_def)
qed

lemma start_typed:
  assumes "built_module m" "Some f \<in> set (mod_funcs m)" "list_all2 wf_val (sig_params (fn_sig f)) xs"
  shows "ir_start f (map2 ty_val (sig_params (fn_sig f)) xs) w = exec_ints f (ir_start f xs w)
    \<and> exec_ok f (ir_start f xs w)"
proof -
  obtain name s b where "built name s b" "small (fb_func b)" "fb_finish b = Inr f"
    using assms(1,2) by (auto simp: built_module_def)
  note b = finished_function [OF this]
  show ?thesis using start_ints [OF b(3,4)] assms(3) by (simp add: b(2))
qed

lemma start_not_ended: "ended_typed f (ir_start g xs w)"
proof (cases "fn_block_params g (fn_entry g)")
  case (Some ps)
  then show ?thesis by (cases "bind_values ps xs Map.empty") (simp_all add: ir_start_def)
qed (simp add: ir_start_def)

lemma enter_not_ended: "ended_typed f (enter g c env w)"
proof (cases "fn_block_params g (bc_block c)")
  case (Some ps)
  show ?thesis
  proof (cases "read_values env (bc_args c)")
    case (Some xs)
    then show ?thesis
      using \<open>fn_block_params g (bc_block c) = Some ps\<close>
      by (cases "bind_values ps xs env") (simp_all add: enter_def)
  qed (simp add: enter_def Some)
qed (simp add: enter_def)

lemma or_stuck_ended: "(\<And>x. r = Some x \<Longrightarrow> ended_typed f (k x)) \<Longrightarrow> ended_typed f (or_stuck r k)"
  by (cases r) simp_all

lemma step_ended_typed:
  fixes c :: "('v, 'w) exec"
  assumes "calls_typed m f" "ended_typed f c"
  shows "ended_typed f (ir_step sem word f c)"
proof (cases c)
  case (Exec k i env w)
  have "ended_typed f (Ended t xs w)" if "fn_block f k = Some bd" "bd_term bd = Some t"
    for bd t and xs :: "'v list"
  proof -
    have "bd \<in> set (fn_blocks f)" using that(1) by (auto simp: fn_block_def nth_opt_Some_iff)
    then show ?thesis using assms(1) that(2) by (cases t) (auto simp: calls_typed_def list_all_iff)
  qed
  then show ?thesis
    by (auto simp: Exec enter_not_ended intro!: or_stuck_ended split: option.split)
qed (use assms(2) in simp_all)

lemma pending_call_Some_iff:
  "pending_call f k i = Some (g, d) \<longleftrightarrow> inst_at f k i = Some d \<and> id_op d = OCall g"
proof (cases "inst_at f k i")
  case (Some y)
  then show ?thesis by (cases "id_op y") (auto simp: pending_call_def)
qed (simp add: pending_call_def)

lemma inst_at_in: "inst_at f k i = Some d \<Longrightarrow> d \<in> set (fn_insts f)"
  by (auto simp: inst_at_def Option.bind_eq_Some_conv fn_inst_def nth_opt_Some_iff)

lemma call_signature:
  assumes "mod_shape m" "sigs_agree m" "calls_typed m f" "d \<in> set (fn_insts f)" "id_op d = OCall g" "mod_body m g = Some h"
  shows "map (value_type f) (id_args d) = map Some (sig_params (fn_sig h))"
    and "map (value_type f) (id_results d) = map Some (sig_returns (fn_sig h))"
  using assms(3-5) mod_body_SomeD(2) [OF assms(1,2,6)] by (auto simp: calls_typed_def list_all_iff)

text \<open>What the modules of the property guarantee of a body.\<close>

lemma module_body:
  assumes m: "mod_shape m" "built_module m" "typed_module m" and f: "mod_body m fn = Some f"
  shows "Some f \<in> set (mod_funcs m)" "well_typed f" "calls_typed m f" "\<forall>d \<in> set (fn_insts f). inst_ok f d"
proof -
  have sa: "sigs_agree m" using m(3) by (simp add: typed_module_def)
  show f': "Some f \<in> set (mod_funcs m)" using mod_body_SomeD(1) [OF m(1) sa f] .
  show "\<forall>d \<in> set (fn_insts f). inst_ok f d"
    using m(2) f' finished_function(1) by (auto simp: built_module_def)
  show "well_typed f" "calls_typed m f"
    using m(3) f' by (auto simp: typed_module_def list_all_iff split: option.splits)
qed

lemma call_step_ints:
  assumes m: "mod_shape m" "built_module m" "typed_module m" and f: "mod_body m fn = Some f"
    and env: "env_ok f env" and st: "stack_ok m st fn" and call: "pending_call f k i = Some (g, d)"
  shows "run_integers m ext (run_ints m (Run st fn (Exec k i env w))) =
      run_ints m (run_words m ext (Run st fn (Exec k i env w)))
    \<and> run_ok m (run_words m ext (Run st fn (Exec k i env w)))"
proof (cases "read_values env (id_args d)")
  case None
  then show ?thesis using f st by (simp add: call read_values_ints [OF env])
next
  case xs: (Some xs)
  note b = module_body [OF m f]
  have d: "inst_at f k i = Some d" "id_op d = OCall g" using call by (simp_all add: pending_call_Some_iff)
  show ?thesis
  proof (cases "mod_body m g")
    case None
    then show ?thesis using f st xs by (simp add: call read_values_ints [OF env])
  next
    case (Some h)
    have sa: "sigs_agree m" using m(3) by (simp add: typed_module_def)
    note sg = map_Some_the [OF call_signature(1) [OF m(1) sa b(3) inst_at_in [OF d(1)] d(2) Some]]
    have wf: "list_all2 wf_val (sig_params (fn_sig h)) xs" using read_values_wf [OF env xs] by (simp only: sg)
    have "map2 (\<lambda>v. ty_val (the (value_type f v))) (id_args d) xs = map2 ty_val (sig_params (fn_sig h)) xs"
      by (simp add: zip_map1 case_prod_unfold flip: sg)
    then have r: "read_values (env_ints f env) (id_args d) = Some (map2 ty_val (sig_params (fn_sig h)) xs)"
      using xs by (simp add: read_values_ints [OF env])
    from start_typed [OF m(2) module_body(1) [OF m Some] wf, of w] show ?thesis
      using xs r env d st f Some by (simp add: call start_not_ended)
  qed
qed

lemma return_ints:
  assumes m: "mod_shape m" "built_module m" "typed_module m" and f: "mod_body m fn = Some f"
    and ret: "exec_ok f (Ended (Return vs) xs w)" "ended_typed f (Ended (Return vs) xs w)"
    and st: "stack_ok m (s # st) fn"
  shows "run_integers m ext (run_ints m (Run (s # st) fn (Ended (Return vs) xs w))) =
      run_ints m (run_words m ext (Run (s # st) fn (Ended (Return vs) xs w)))
    \<and> run_ok m (run_words m ext (Run (s # st) fn (Ended (Return vs) xs w)))"
proof -
  obtain fn' k i env where s: "s = (fn', k, i, env)" by (metis prod_cases4)
  obtain f' d where f': "mod_body m fn' = Some f'" "env_ok f' env" "inst_at f' k i = Some d" "id_op d = OCall fn"
    "stack_ok m st fn'" using st by (auto simp: s)
  have sa: "sigs_agree m" using m(3) by (simp add: typed_module_def)
  note sg = call_signature(2) [OF m(1) sa module_body(3) [OF m f'(1)] inst_at_in [OF f'(3)] f'(4) f]
  let ?us = "sig_returns (fn_sig f)"
  have us: "map (\<lambda>v. the (value_type f v)) vs = ?us" using ret(2) by (intro map_Some_the) simp
  have xs: "list_all2 wf_val ?us xs" using ret(1) by (simp add: term_own_args_def list_all2_map1 flip: us)
  have ints: "map2 (\<lambda>v. ty_val (the (value_type f v))) vs xs = map2 ty_val ?us xs"
    by (simp add: zip_map1 case_prod_unfold flip: us)
  from bind_values_ints [OF f'(2) sg xs] show ?thesis
    by (cases "bind_values (id_results d) xs env")
       (simp_all add: s f f'(1,3,5) term_own_args_def ints return_to_def)
qed

lemma run_step_ints:
  assumes m: "mod_shape m" "built_module m" "typed_module m" and r: "run_ok m r" and ext: "frames_ok ext"
  shows "run_integers m ext (run_ints m r) = run_ints m (run_words m ext r) \<and> run_ok m (run_words m ext r)"
proof -
  obtain st fn c f where r': "r = Run st fn c" and f: "mod_body m fn = Some f"
    and c: "exec_ok f c" "ended_typed f c" and st: "stack_ok m st fn"
    using r by (cases r) auto
  note b = module_body [OF m f]
  show ?thesis
  proof (cases c)
    case (Exec k i env w)
    show ?thesis
    proof (cases "pending_call f k i")
      case None
      have "id_op d \<noteq> OCall g" if "c = Exec k' i' env' w'" "inst_at f k' i' = Some d" for k' i' env' w' d g
      proof
        assume "id_op d = OCall g"
        with that(2) have "pending_call f k' i' = Some (g, d)" by (simp add: pending_call_Some_iff)
        with that(1) None Exec show False by simp
      qed
      from step_ints [OF b(4,2) ext c(1) this] step_ended_typed [OF b(3) c(2)] show ?thesis
        using st by (simp add: r' f Exec None del: ir_step.simps)
    next
      case (Some gd)
      moreover obtain g d where "gd = (g, d)" by (cases gd)
      ultimately show ?thesis
        using call_step_ints [OF m f _ st] c(1) unfolding r' Exec by simp
    qed
  next
    case (Ended t xs w)
    show ?thesis
    proof (cases "\<exists>s st' vs. st = s # st' \<and> t = Return vs")
      case False
      then show ?thesis using r by (cases st; cases t) (auto simp: r' Ended)
    next
      case True
      then obtain s st' vs where s: "st = s # st'" "t = Return vs" by blast
      show ?thesis
        using return_ints [OF m f c [unfolded Ended s] st [unfolded s], of ext] unfolding r' Ended s .
    qed
  next
    case Stuck
    then show ?thesis using r by (simp add: r' f)
  qed
qed

lemma run_steps_ints:
  assumes m: "mod_shape m" "built_module m" "typed_module m" and "run_ok m r" and ext: "frames_ok ext"
  shows "(run_integers m ext ^^ n) (run_ints m r) = run_ints m ((run_words m ext ^^ n) r)
    \<and> run_ok m ((run_words m ext ^^ n) r)"
proof (induction n)
  case (Suc n)
  then show ?case using run_step_ints [OF m _ ext, of "(run_words m ext ^^ n) r"] by simp
qed (use assms(4) in simp)

subsection \<open>The property\<close>

text \<open>C3 Words compute with Rust's integers. Of the module: it is reached by the public operations, \<open>verify\<close>
  accepts it, its bodies come from builders, and (what nothing in the repository checks) it respects the
  types of operands, edges, calls and returns, its constants fit their types and its raw opcodes give full
  words (\<open>typed_module\<close>). Of the outside world: the address an \<open>alloca\<close> gets is one. Then on well-formed
  arguments of the entry function, after any number of steps, the word machine is in the same function, at
  the same instruction, under the same suspended callers as the integer machine, or both have ended alike,
  or both are stuck; every value of every active function is a well-formed word of its type, and the words
  stand for exactly the integers. The words are those of the raw 256-bit EVM operations, each followed by
  the repair the builder chose.\<close>

theorem verified_module_computes_integers:
  assumes "(mod_step R)\<^sup>*\<^sup>* (mod_new fk) m" and "mod_verify m = Ok ()" "length (mod_names m) \<le> 2 ^ 32"
    and "built_module m" "typed_module m" "frames_ok ext"
    and "mod_entry m = Some e" "mod_signature m e = Some s" "list_all2 wf_val (sig_params s) xs"
  shows "(run_integers m ext ^^ n) (run_start m e (map2 ty_val (sig_params s) xs) w) =
      run_ints m ((run_words m ext ^^ n) (run_start m e xs w))
    \<and> run_ok m ((run_words m ext ^^ n) (run_start m e xs w))"
proof -
  have shape: "mod_shape m" using mod_steps_shape [OF assms(1) mod_new_inv(1)] .
  have sa: "sigs_agree m" using assms(5) by (simp add: typed_module_def)
  have "func_index e < length (mod_names m)"
    using assms(8) shape by (simp add: mod_signature_def nth_opt_Some_iff mod_shape_def)
  then obtain f where "mod_body m e = Some f"
    using mod_verify_Ok(1) [OF shape assms(3,2)] shape
    by (auto simp: mod_body_def mod_get_def nth_opt_def mod_shape_def)
  note f = this mod_body_SomeD [OF shape sa this]
  have s: "fn_sig f = s" using f(3) assms(8) by simp
  note start = start_typed [OF assms(4) f(2), unfolded s, OF assms(9), of w]
  have "run_start m e (map2 ty_val (sig_params s) xs) w = run_ints m (run_start m e xs w)"
    "run_ok m (run_start m e xs w)"
    using start by (simp_all add: run_start_def f(1) start_not_ended)
  with run_steps_ints [OF shape assms(4,5) this(2) assms(6), of n] show ?thesis by simp
qed

text \<open>\<open>fn dist(x: i8, y: i8) -> i8 { abs(x - y) }\<close>, a call of the absolute value above.\<close>

definition dist_sig :: signature where "dist_sig = \<lparr>sig_params = [ty_i8, ty_i8], sig_returns = [ty_i8]\<rparr>"

definition dist_calls :: "fb_method list" where
  "dist_calls =
     [MIns (ISub ty_i8 (value_new 0) (value_new 1)), MIns (ICall (func_new 0) abs_sig [value_new 2]),
      MRet [value_new 3]]"

definition dist_builder :: builder where
  "dist_builder = the (fb_run dist_calls (the (fb_new ''dist'' dist_sig)))"

definition dist_fn :: ir_function where "dist_fn = fb_func dist_builder"

lemma dist_built: "built ''dist'' dist_sig dist_builder"
proof -
  have n: "fb_new ''dist'' dist_sig = Some (the (fb_new ''dist'' dist_sig))"
    by (simp add: fb_new_def fn_new_eq)
  have "fb_run dist_calls (the (fb_new ''dist'' dist_sig)) \<noteq> None" by code_simp
  then have "fb_run dist_calls (the (fb_new ''dist'' dist_sig)) = Some dist_builder"
    by (simp add: dist_builder_def)
  with built.new [OF n] show ?thesis by (rule built_run)
qed

lemma dist_fn_eq:
  "dist_fn =
    \<lparr>fn_name = ''dist'', fn_sig = dist_sig, fn_entry = Block 0,
     fn_insts =
       [\<lparr>id_op = OSub, id_ty = ty_i8, id_repair = RepairSext 8, id_args = [Value 0, Value 1],
         id_results = [Value 2], id_note = None\<rparr>,
        \<lparr>id_op = OCall (Func 0), id_ty = ty_i8, id_repair = RepairNone, id_args = [Value 2],
         id_results = [Value 3], id_note = None\<rparr>],
     fn_values =
       [\<lparr>vd_ty = ty_i8, vd_def = DefParam (Block 0) 0\<rparr>, \<lparr>vd_ty = ty_i8, vd_def = DefParam (Block 0) 1\<rparr>,
        \<lparr>vd_ty = ty_i8, vd_def = DefResult (Inst 0) 0\<rparr>, \<lparr>vd_ty = ty_i8, vd_def = DefResult (Inst 1) 0\<rparr>],
     fn_blocks =
       [\<lparr>bd_params = [Value 0, Value 1], bd_insts = [Inst 0, Inst 1], bd_term = Some (Return [Value 3]),
         bd_kind = KNormal\<rparr>]\<rparr>"
  and dist_no_error: "fb_error dist_builder = None"
  by code_simp+

definition dist_module :: ir_module where
  "dist_module =
     \<lparr>mod_fork = Cancun, mod_names = [''abs'', ''dist''], mod_sigs = [abs_sig, dist_sig],
      mod_funcs = [Some abs_fn, Some dist_fn], mod_entry = Some (Func 1)\<rparr>"

lemma dist_module_reached: "(mod_step (=))\<^sup>*\<^sup>* (mod_new Cancun) dist_module"
proof -
  let ?d = "snd (mod_declare ''dist'' dist_sig (snd (mod_declare ''abs'' abs_sig (mod_new Cancun))))"
  let ?a = "?d\<lparr>mod_funcs := [Some abs_fn, None]\<rparr>"
  let ?b = "?d\<lparr>mod_funcs := [Some abs_fn, Some dist_fn]\<rparr>"
  note s = mod_define_def mod_declare_def mod_new_def nth_opt_def abs_fn_eq dist_fn_eq
  have "mod_define (Func 0) abs_fn ?d = Ok ?a" "mod_define (Func 1) dist_fn ?a = Ok ?b" by (simp_all add: s)
  then have "(mod_step (=))\<^sup>*\<^sup>* (mod_new Cancun) (mod_set_entry (Func 1) ?b)"
    by (meson ms_declare ms_define ms_entry converse_rtranclp_into_rtranclp rtranclp.rtrancl_refl)
  then show ?thesis by (simp add: dist_module_def mod_set_entry_def mod_declare_def mod_new_def)
qed

lemma dist_module_built: "built_module dist_module"
proof -
  have "small (fb_func abs_builder)" "small (fb_func dist_builder)"
    "fb_finish abs_builder = Inr abs_fn" "fb_finish dist_builder = Inr dist_fn"
    by (simp_all add: small_def fb_finish_def abs_shape dist_no_error flip: abs_fn_def dist_fn_def)
       (simp add: dist_fn_eq)
  then show ?thesis using abs_built dist_built by (auto simp: built_module_def dist_module_def)
qed

lemma dist_module_typed: "typed_module dist_module" "mod_verify dist_module = Ok ()"
proof -
  have "well_typed dist_fn" "calls_typed dist_module abs_fn" "calls_typed dist_module dist_fn" by code_simp+
  moreover have "sigs_agree dist_module"
    by (auto simp: sigs_agree_def dist_module_def less_Suc_eq abs_fn_eq dist_fn_eq)
  ultimately show "typed_module dist_module" using abs_typed by (simp add: typed_module_def) (simp add: dist_module_def)
qed code_simp

fun run_result :: "('v, 'w) run \<Rightarrow> (fref \<times> terminator \<times> 'v list) option" where
  "run_result (Run [] fn (Ended t xs w)) = Some (fn, t, xs)"
| "run_result r = None"

lemma wrap_i8: "ty_wrap ty_i8 (- 128) = - 128"
  by (simp add: ty_wrap_def ty_defs ty_bits_def ty_is_signed_def)

lemma funpow_9: "(g ^^ 9) x = g (g (g (g (g (g (g (g (g x))))))))"
  by (simp add: numeral_eq_Suc)

lemma dist_runs:
  "run_result ((run_integers dist_module (\<lambda>x xs w. ([], w)) ^^ 9) (run_start dist_module (Func 1) [- 100, 28] ())) =
     Some (Func 1, Return [Value 3], [- 128])"
  by (simp add: funpow_9 dist_module_def run_start_def mod_body_def mod_get_def pending_call_def inst_at_def
      return_to_def dist_fn_eq abs_fn_eq exec_eval abs_zero bool_vals wrap_i8)

theorem verified_module_computes_integers_witness:
  "\<exists>r. run_result ((run_words dist_module (\<lambda>x xs w. ([], w)) ^^ 9)
       (run_start dist_module (Func 1) [- 100, 28] ())) = Some (Func 1, Return [Value 3], [r])
     \<and> ty_val ty_i8 r = - 128 \<and> wf_val ty_i8 r"
proof -
  note t = ty_defs ty_bits_def ty_is_signed_def
  have e: "mod_entry dist_module = Some (Func 1)" "mod_signature dist_module (Func 1) = Some dist_sig"
    "length (mod_names dist_module) \<le> 2 ^ 32"
    by (simp_all add: dist_module_def mod_signature_def nth_opt_def)
  have i8: "list_all2 wf_val (sig_params dist_sig) [- 100, 28]"
    "map2 ty_val (sig_params dist_sig) [- 100, 28] = [- 100, 28]"
    by (simp_all add: dist_sig_def ty_val_def wf_val_range is_well_formed_def WORD_BITS_def t)
  let ?r = "(run_words dist_module (\<lambda>x xs w. ([], w)) ^^ 9) (run_start dist_module (Func 1) [- 100, 28] ())"
  let ?i = "(run_integers dist_module (\<lambda>x xs w. ([], w)) ^^ 9) (run_start dist_module (Func 1) [- 100, 28] ())"
  have "frames_ok (\<lambda>x xs (w :: unit). ([], w))" by (simp add: frames_ok_def)
  from verified_module_computes_integers [OF dist_module_reached dist_module_typed(2) e(3) dist_module_built
      dist_module_typed(1) this e(1,2) i8(1), unfolded i8(2)]
  have "run_result (run_ints dist_module ?r) = Some (Func 1, Return [Value 3], [- 128])" "run_ok dist_module ?r"
    using dist_runs by simp_all
  moreover have "mod_body dist_module (Func 1) = Some dist_fn" "value_type dist_fn (Value 3) = Some ty_i8"
    by (simp_all add: dist_module_def mod_body_def mod_get_def nth_opt_def value_type_def dist_fn_eq)
  ultimately show ?thesis
    by (cases ?r rule: run_result.cases) (auto simp: term_own_args_def list_all2_Cons1 split: exec.splits)
qed

end
