(* ===== verification/Ir_Removal.thy ===== *)
theory Ir_Removal
  imports Ir_Exec
begin

text \<open>
  The rule \<open>effect.rs\<close> writes down for the passes to come: an instruction may be removed if its results
  are unused and its effects are pure. Here it is a theorem about the execution of \<open>Ir_Exec\<close>: taking such
  an instruction out of its block changes no run that ends.
\<close>

subsection \<open>Removing an instruction\<close>

definition remove_at :: "nat \<Rightarrow> 'a list \<Rightarrow> 'a list" where
  "remove_at i xs = take i xs @ drop (Suc i) xs"

definition remove_inst :: "bref \<Rightarrow> nat \<Rightarrow> ir_function \<Rightarrow> ir_function" where
  "remove_inst k i f =
     f\<lparr>fn_blocks := (fn_blocks f)[block_index k :=
         (fn_blocks f ! block_index k)\<lparr>bd_insts := remove_at i (bd_insts (fn_blocks f ! block_index k))\<rparr>]\<rparr>"

text \<open>No instruction, terminator or edge reads one of the values.\<close>

definition unused :: "ir_function \<Rightarrow> vref list \<Rightarrow> bool" where
  "unused f vs \<longleftrightarrow>
     list_all (\<lambda>d. set (id_args d) \<inter> set vs = {}) (fn_insts f)
     \<and> list_all (\<lambda>bd. case bd_term bd of Some t \<Rightarrow> set (term_args t) \<inter> set vs = {} | None \<Rightarrow> True) (fn_blocks f)"

text \<open>The bytes of the EVM's opcodes that touch nothing but the operand stack: arithmetic, comparisons and
  bitwise operations, \<open>POP\<close>, and the families of \<open>PUSH\<close>, \<open>DUP\<close> and \<open>SWAP\<close>. Of the outside world it is
  asked that these leave it alone, as the EVM has it; this knows nothing of the classification.\<close>

definition stack_only :: "byte \<Rightarrow> bool" where
  "stack_only b \<longleftrightarrow> 0x01 \<le> b \<and> b \<le> 0x0b \<or> 0x10 \<le> b \<and> b \<le> 0x1e \<or> b = 0x50 \<or> 0x5f \<le> b \<and> b \<le> 0x9f"

definition stack_world :: "(ir_op \<Rightarrow> word256 list \<Rightarrow> 'w \<Rightarrow> word256 list \<times> 'w) \<Rightarrow> bool" where
  "stack_world ext \<longleftrightarrow>
     (\<forall>s xs w. s \<in> set OPCODES \<longrightarrow> stack_only (byte s) \<longrightarrow> snd (ext (OOpcode s) xs w) = w)"

definition table_opcode :: "ir_op \<Rightarrow> bool" where
  "table_opcode x = (case x of OOpcode s \<Rightarrow> s \<in> set OPCODES | _ \<Rightarrow> True)"

text \<open>The classification calls no other opcode pure.\<close>

lemma removable_rows:
  "list_all (\<lambda>s. is_removable (of_opcode s) \<longrightarrow> stack_only (byte s)) OPCODES"
proof -
  note e = opcode_rows row_defs effects_eval stack_only_def
  show ?thesis unfolding OPCODES_def list_all_append by (intro conjI; simp add: e)
qed

lemma removable_stack_only: "s \<in> set OPCODES \<Longrightarrow> is_removable (of_opcode s) \<Longrightarrow> stack_only (byte s)"
  using removable_rows by (simp add: list_all_iff)

lemma length_remove_at: "i < length xs \<Longrightarrow> length (remove_at i xs) = length xs - 1"
  by (simp add: remove_at_def)

lemma nth_remove_at:
  "i < length xs \<Longrightarrow> j \<noteq> i \<Longrightarrow> j < length xs \<Longrightarrow>
     remove_at i xs ! (if i < j then j - 1 else j) = xs ! j"
  by (auto simp: remove_at_def nth_append)

lemma removed_simps [simp]:
  "fn_values (remove_inst k i f) = fn_values f" "fn_insts (remove_inst k i f) = fn_insts f"
  "fn_entry (remove_inst k i f) = fn_entry f"
  "value_type (remove_inst k i f) = value_type f" "fn_inst (remove_inst k i f) = fn_inst f"
  by (simp_all add: remove_inst_def value_type_def fn_inst_def fun_eq_iff)

lemma removed_block:
  assumes "fn_block f k = Some bd"
  shows "fn_block (remove_inst k i f) b =
    (if block_index b = block_index k then Some (bd\<lparr>bd_insts := remove_at i (bd_insts bd)\<rparr>) else fn_block f b)"
  using assms by (auto simp: fn_block_def nth_opt_def remove_inst_def split: if_splits)

lemma removed_params:
  assumes "fn_block f k = Some bd"
  shows "fn_block_params (remove_inst k i f) = fn_block_params f"
proof
  fix b
  have "fn_block_params g c = map_option bd_params (fn_block g c)" for g c
    by (simp add: fn_block_params_def fn_block_def)
  then show "fn_block_params (remove_inst k i f) b = fn_block_params f b"
    using assms removed_block [OF assms, of i b] by (auto simp: bent.idx_inject)
qed

lemma removed_sem: "word_sem (remove_inst k i f) ext = word_sem f ext"
proof -
  have a: "arg_tys (remove_inst k i f) d = arg_tys f d" for d by (simp add: arg_tys_def)
  show ?thesis unfolding word_sem_def [abs_def] raw_results_def [abs_def] a ..
qed

lemma removable_world:
  assumes "is_removable (op_effects (id_op d))" "table_opcode (id_op d)" "stack_world ext"
    and "word_sem f ext d xs w = Some (rs, w')"
  shows "w' = w"
proof (cases "external (id_op d)")
  case True
  then obtain s where s: "id_op d = OOpcode s"
    using assms(1)
    by (cases "id_op d") (auto simp: external_def op_effects_def is_removable_def eff_is_pure_def effect_defs
        eff_union_def)
  have "s \<in> set OPCODES" using assms(2) s by (simp add: table_opcode_def)
  moreover have "is_removable (of_opcode s)" using assms(1) s by (simp add: op_effects_def)
  ultimately have "snd (ext (OOpcode s) xs w) = w"
    using assms(3) removable_stack_only by (simp add: stack_world_def)
  then show ?thesis using assms(4) s
    by (auto simp: word_sem_def raw_results_def external_def split: prod.splits)
next
  case False
  then show ?thesis using assms(4)
    by (cases "id_op d") (auto simp: word_sem_def raw_results_def Let_def external_def)
qed

subsection \<open>The simulation\<close>

definition same_off :: "vref list \<Rightarrow> (vref \<rightharpoonup> 'v) \<Rightarrow> (vref \<rightharpoonup> 'v) \<Rightarrow> bool" where
  "same_off vs env env' \<longleftrightarrow> (\<forall>v. v \<notin> set vs \<longrightarrow> env v = env' v)"

lemma same_off_read: "same_off vs env env' \<Longrightarrow> set us \<inter> set vs = {} \<Longrightarrow> read_values env us = read_values env' us"
  unfolding read_values_def same_off_def by (intro arg_cong [where f = those] map_cong) auto

lemma same_off_bind:
  "same_off vs env env' \<Longrightarrow> bind_values us xs env = Some e \<Longrightarrow>
     \<exists>e'. bind_values us xs env' = Some e' \<and> same_off vs e e'"
proof (induction us xs env arbitrary: env' rule: bind_values.induct)
  case (2 v us x xs env)
  have "same_off vs (env(v \<mapsto> x)) (env'(v \<mapsto> x))" using "2.prems"(1) by (simp add: same_off_def)
  from "2.IH" [OF this] "2.prems"(2) show ?case by (simp only: bind_values.simps)
qed auto

lemma bind_off: "bind_values us xs env = Some e \<Longrightarrow> same_off us e env"
proof (induction us xs env rule: bind_values.induct)
  case (2 v us x xs env)
  then have "same_off us e (env(v \<mapsto> x))" by (simp only: bind_values.simps)
  then show ?case by (auto simp: same_off_def)
qed (auto simp: same_off_def)

text \<open>The position in the shortened block.\<close>

definition new_pos :: "bref \<Rightarrow> nat \<Rightarrow> bref \<Rightarrow> nat \<Rightarrow> nat" where
  "new_pos k i b j = (if block_index b = block_index k \<and> i < j then j - 1 else j)"

fun shortened :: "bref \<Rightarrow> nat \<Rightarrow> vref list \<Rightarrow> ('v, 'w) exec \<Rightarrow> ('v, 'w) exec \<Rightarrow> bool" where
  "shortened k i vs (Exec b j env w) c' \<longleftrightarrow>
     (\<exists>env'. c' = Exec b (new_pos k i b j) env' w \<and> same_off vs env env')"
| "shortened k i vs (Ended t xs w) c' \<longleftrightarrow> c' = Ended t xs w"
| "shortened k i vs Stuck c' \<longleftrightarrow> True"

lemma new_pos_0 [simp]: "new_pos k i b 0 = 0"
  by (simp add: new_pos_def)

lemma enter_shortened:
  assumes "fn_block f k = Some bd" "same_off vs env env'" "set (bc_args c) \<inter> set vs = {}"
  shows "shortened k i vs (enter f c env w) (enter (remove_inst k i f) c env' w)"
proof -
  note p = removed_params [OF assms(1), of i] and r = same_off_read [OF assms(2,3)]
  show ?thesis
  proof (cases "fn_block_params f (bc_block c)")
    case (Some ps)
    show ?thesis
    proof (cases "read_values env (bc_args c)")
      case xs: (Some xs)
      show ?thesis
        using same_off_bind [OF assms(2), of ps xs] Some xs r
        by (cases "bind_values ps xs env") (auto simp: enter_def p)
    qed (simp add: enter_def Some)
  qed (simp add: enter_def)
qed

lemma start_shortened:
  assumes "fn_block f k = Some bd"
  shows "shortened k i vs (ir_start f xs w) (ir_start (remove_inst k i f) xs w)"
proof -
  show ?thesis
  proof (cases "fn_block_params f (fn_entry f)")
    case (Some ps)
    then show ?thesis
      by (cases "bind_values ps xs Map.empty") (simp_all add: ir_start_def removed_params [OF assms] same_off_def)
  qed (simp add: ir_start_def)
qed

lemma step_shortened:
  assumes k: "fn_block f k = Some bd" "i < length (bd_insts bd)" "fn_inst f (bd_insts bd ! i) = Some d"
    and pure: "is_removable (op_effects (id_op d))" "table_opcode (id_op d)" "stack_world ext" and un: "unused f (id_results d)"
    and c: "shortened k i (id_results d) c c'"
  shows "shortened k i (id_results d) (word_step f ext c) c'
    \<or> shortened k i (id_results d) (word_step f ext c) (word_step (remove_inst k i f) ext c')"
proof (cases c)
  case (Exec b j env w)
  let ?vs = "id_results d"
  obtain env' where c': "c' = Exec b (new_pos k i b j) env' w" and off: "same_off ?vs env env'"
    using c by (auto simp: Exec)
  show ?thesis
  proof (cases "fn_block f b")
    case (Some bb)
    have kb: "bb = bd" if "block_index b = block_index k" using that Some k(1) by (simp add: bent.idx_inject)
    define bb' where "bb' = (if block_index b = block_index k then bd\<lparr>bd_insts := remove_at i (bd_insts bd)\<rparr> else bb)"
    have bb': "fn_block (remove_inst k i f) b = Some bb'" "bd_term bb' = bd_term bb"
      using removed_block [OF k(1), of i b] Some kb by (simp_all add: bb'_def)
    have len: "new_pos k i b j < length (bd_insts bb') \<longleftrightarrow> j < length (bd_insts bb)"
      if "\<not> (block_index b = block_index k \<and> j = i)"
      using that kb k(2) by (auto simp: new_pos_def bb'_def length_remove_at)
    show ?thesis
    proof (cases "block_index b = block_index k \<and> j = i")
      case True
      then have bi: "bb = bd" "j = i" using kb by simp_all
      have "shortened k i ?vs (word_step f ext c) c'"
      proof (cases "word_step f ext c = Stuck")
        case False
        then obtain xs rs w' e where e: "word_sem f ext d xs w = Some (rs, w')" "bind_values ?vs rs env = Some e"
          "word_step f ext c = Exec b (Suc i) e w'"
          using Some k(2,3) by (auto simp: Exec bi or_stuck_runs)
        then have "w' = w" using removable_world [OF pure] by blast
        moreover have "same_off ?vs e env'" using bind_off [OF e(2)] off by (simp add: same_off_def)
        ultimately show ?thesis using e(3) True by (simp add: c' new_pos_def)
      qed simp
      then show ?thesis ..
    next
      case False
      note l = len [OF False]
      have "shortened k i ?vs (word_step f ext c) (word_step (remove_inst k i f) ext c')"
      proof (cases "word_step f ext c = Stuck")
        case runs: False
        show ?thesis
        proof (cases "j < length (bd_insts bb)")
          case True
          have n: "bd_insts bb' ! new_pos k i b j = bd_insts bb ! j"
            using nth_remove_at [of i "bd_insts bd" j] True False k(2) kb
            by (auto simp: bb'_def new_pos_def)
          obtain d2 xs rs w' e where s: "fn_inst f (bd_insts bb ! j) = Some d2" "read_values env (id_args d2) = Some xs"
            "word_sem f ext d2 xs w = Some (rs, w')" "bind_values (id_results d2) rs env = Some e"
            using runs Some True by (auto simp: Exec or_stuck_runs split: prod.splits)
          have "d2 \<in> set (fn_insts f)" using s(1) by (auto simp: fn_inst_def nth_opt_Some_iff)
          then have "set (id_args d2) \<inter> set ?vs = {}" using un by (auto simp: unused_def list_all_iff)
          then have r: "read_values env' (id_args d2) = Some xs" using same_off_read [OF off] s(2) by metis
          obtain e' where e': "bind_values (id_results d2) rs env' = Some e'" "same_off ?vs e e'"
            using same_off_bind [OF off s(4)] by blast
          have p: "new_pos k i b (Suc j) = Suc (new_pos k i b j)" using False by (auto simp: new_pos_def)
          show ?thesis
            using Some True s r e' bb' l n by (simp add: Exec c' removed_sem p)
        next
          case stop: False
          obtain t xs where t: "bd_term bb = Some t" "read_values env (term_own_args t) = Some xs"
            using runs Some stop by (auto simp: Exec or_stuck_runs)
          have "bb \<in> set (fn_blocks f)" using Some by (auto simp: fn_block_def nth_opt_Some_iff)
          then have "case bd_term bb of Some t \<Rightarrow> set (term_args t) \<inter> set ?vs = {} | None \<Rightarrow> True"
            using un unfolding unused_def list_all_iff by blast
          then have ta: "set (term_args t) \<inter> set ?vs = {}" using t(1) by simp
          have fold: "set (foldl (\<lambda>as c. as @ bc_args c) as cs) = set as \<union> (\<Union>c \<in> set cs. set (bc_args c))" for as cs
            by (induction cs arbitrary: as) auto
          have own: "set (term_own_args t) \<inter> set ?vs = {}" and calls: "\<forall>c \<in> set (block_calls t). set (bc_args c) \<inter> set ?vs = {}"
            using ta by (auto simp: term_args_def fold)
          have r: "read_values env' (term_own_args t) = Some xs" using same_off_read [OF off own] t(2) by metis
          show ?thesis
          proof (cases "edge (\<lambda>x. x) t xs")
            case None
            then show ?thesis using Some stop t r bb' l by (simp add: Exec c')
          next
            case (Some call)
            have "set (bc_args call) \<inter> set ?vs = {}" using calls edge_calls [OF Some] by blast
            from enter_shortened [OF k(1) off this, of i w] show ?thesis
              using \<open>fn_block f b = Some bb\<close> Some stop t r bb' l by (simp add: Exec c')
          qed
        qed
      qed simp
      then show ?thesis ..
    qed
  qed (simp add: Exec)
qed (use c in auto)

lemma steps_shortened:
  assumes k: "fn_block f k = Some bd" "i < length (bd_insts bd)" "fn_inst f (bd_insts bd ! i) = Some d"
    and pure: "is_removable (op_effects (id_op d))" "table_opcode (id_op d)" "stack_world ext" and un: "unused f (id_results d)"
    and c: "shortened k i (id_results d) c c'"
  shows "\<exists>n' \<le> n. shortened k i (id_results d) ((word_step f ext ^^ n) c) ((word_step (remove_inst k i f) ext ^^ n') c')"
proof (induction n)
  case (Suc n)
  then obtain n' where n': "n' \<le> n"
    "shortened k i (id_results d) ((word_step f ext ^^ n) c) ((word_step (remove_inst k i f) ext ^^ n') c')"
    by blast
  from step_shortened [OF k pure un n'(2)] show ?case
  proof
    assume "shortened k i (id_results d) (word_step f ext ((word_step f ext ^^ n) c))
        ((word_step (remove_inst k i f) ext ^^ n') c')"
    then show ?thesis using n'(1) by (intro exI [of _ n']) simp
  next
    assume "shortened k i (id_results d) (word_step f ext ((word_step f ext ^^ n) c))
        (word_step (remove_inst k i f) ext ((word_step (remove_inst k i f) ext ^^ n') c'))"
    then show ?thesis using n'(1) by (intro exI [of _ "Suc n'"]) simp
  qed
qed (use c in auto)


subsection \<open>The property\<close>

text \<open>C8 The rule of \<open>effect.rs\<close> is sound for the classification of \<open>inst.rs\<close> and \<open>effect.rs\<close>: an
  instruction whose results nobody reads and whose effects are pure can be taken out of its block. For
  every outside world in which the EVM's stack opcodes (a fixed list of bytes, not the classification)
  leave the world as it is, and for raw opcodes that are rows of the instruction table, a run of the word
  machine that ends with a terminator, its values and a final world still ends with the same ones, in no
  more steps. An operation or opcode wrongly classified as pure breaks the statement. Gas is not part of
  the world.\<close>

theorem removable_instruction_removed:
  assumes "fn_block f k = Some bd" "i < length (bd_insts bd)" "fn_inst f (bd_insts bd ! i) = Some d"
    and "is_removable (op_effects (id_op d))" "table_opcode (id_op d)" "stack_world ext" "unused f (id_results d)"
    and "(word_step f ext ^^ n) (ir_start f xs w) = Ended t ys w'"
  shows "\<exists>n' \<le> n. (word_step (remove_inst k i f) ext ^^ n') (ir_start (remove_inst k i f) xs w) = Ended t ys w'"
proof -
  have "shortened k i (id_results d) (ir_start f xs w) (ir_start (remove_inst k i f) xs w)"
    using start_shortened [OF assms(1)] .
  from steps_shortened [OF assms(1-7) this, of n] assms(8) show ?thesis by auto
qed

text \<open>A comparison nobody reads before the return of the parameter.\<close>

definition idle_builder :: builder where
  "idle_builder =
     the (fb_run [MIns (IIcmp CmpLt (value_new 0) (value_new 0)), MRet [value_new 0]] (the (fb_new ''idle'' abs_sig)))"

definition idle_fn :: ir_function where "idle_fn = fb_func idle_builder"

lemma idle_fn_eq:
  "idle_fn =
    \<lparr>fn_name = ''idle'', fn_sig = abs_sig, fn_entry = Block 0,
     fn_insts =
       [\<lparr>id_op = OIcmp CmpLt, id_ty = ty_bool, id_repair = RepairNone, id_args = [Value 0, Value 0],
         id_results = [Value 1], id_note = None\<rparr>],
     fn_values = [\<lparr>vd_ty = ty_i8, vd_def = DefParam (Block 0) 0\<rparr>, \<lparr>vd_ty = ty_bool, vd_def = DefResult (Inst 0) 0\<rparr>],
     fn_blocks =
       [\<lparr>bd_params = [Value 0], bd_insts = [Inst 0], bd_term = Some (Return [Value 0]), bd_kind = KNormal\<rparr>]\<rparr>"
  by code_simp

theorem removable_instruction_removed_witness:
  "\<exists>n' \<le> 2. (word_step (remove_inst (Block 0) 0 idle_fn) (\<lambda>x xs w. ([], w)) ^^ n')
     (ir_start (remove_inst (Block 0) 0 idle_fn) [7] ()) = Ended (Return [Value 0]) [7] ()"
proof (rule removable_instruction_removed)
  show "fn_block idle_fn (Block 0) = Some (fn_blocks idle_fn ! 0)" "0 < length (bd_insts (fn_blocks idle_fn ! 0))"
    "fn_inst idle_fn (bd_insts (fn_blocks idle_fn ! 0) ! 0) = Some (fn_insts idle_fn ! 0)"
    "is_removable (op_effects (id_op (fn_insts idle_fn ! 0)))" "unused idle_fn (id_results (fn_insts idle_fn ! 0))"
    "table_opcode (id_op (fn_insts idle_fn ! 0))"
    by code_simp+
  show "stack_world (\<lambda>x xs (w :: unit). ([], w))" by (simp add: stack_world_def)
  show "(word_step idle_fn (\<lambda>x xs w. ([], w)) ^^ 2) (ir_start idle_fn [7] ()) = Ended (Return [Value 0]) [7] ()"
    by (simp add: idle_fn_eq exec_eval numeral_2_eq_2 word_sem_def raw_results_def
        raw_op_def raw_binary_def Let_def)
qed

end
