(* ===== verification/Evm_Sys.thy ===== *)
theory Evm_Sys
  imports Isa
begin

text \<open>
  \<open>evm-sys/src/opcode/\<close>: the typed opcode bindings. A binding has no behaviour in the repository: its
  body is a marker the backend replaces by the opcode. What the source states is the binding's
  mnemonic, name, safety and type, one row for each \<open>#[evm_opcode]\<close> function. The lemmas check the
  rows against the instruction table of \<open>evm-isa\<close>, which the attribute does not.
\<close>

subsection \<open>Bindings\<close>

datatype sys_ty = SU8 | SU16 | SU32 | SU64 | SU128 | SU256
datatype sys_ret = RUnit | RVal sys_ty | RNever

record binding =
  bd_mnemonic :: string
  bd_fn :: string
  bd_unsafe :: bool
  bd_params :: "sys_ty list"
  bd_ret :: sys_ret

definition sys_fn :: "string \<Rightarrow> string \<Rightarrow> bool \<Rightarrow> sys_ty list \<Rightarrow> sys_ret \<Rightarrow> binding" where
  "sys_fn m f u ps r = \<lparr>bd_mnemonic = m, bd_fn = f, bd_unsafe = u, bd_params = ps, bd_ret = r\<rparr>"

definition sys_account :: "binding list" where
  "sys_account =
    [sys_fn ''BALANCE'' ''balance'' False [SU256] (RVal SU256),
     sys_fn ''EXTCODESIZE'' ''extcodesize'' False [SU256] (RVal SU256),
     sys_fn ''EXTCODECOPY'' ''extcodecopy'' True [SU256, SU32, SU32, SU32] RUnit,
     sys_fn ''EXTCODEHASH'' ''extcodehash'' False [SU256] (RVal SU256),
     sys_fn ''CODESIZE'' ''codesize'' False [] (RVal SU256),
     sys_fn ''CODECOPY'' ''codecopy'' True [SU32, SU32, SU32] RUnit,
     sys_fn ''SELFDESTRUCT'' ''selfdestruct'' True [SU256] RNever]"

definition sys_arithmetic :: "binding list" where
  "sys_arithmetic =
    [sys_fn ''ADD'' ''add'' False [SU256, SU256] (RVal SU256),
     sys_fn ''MUL'' ''mul'' False [SU256, SU256] (RVal SU256),
     sys_fn ''SUB'' ''sub'' False [SU256, SU256] (RVal SU256),
     sys_fn ''DIV'' ''div'' False [SU256, SU256] (RVal SU256),
     sys_fn ''SDIV'' ''sdiv'' False [SU256, SU256] (RVal SU256),
     sys_fn ''MOD'' ''mod_'' False [SU256, SU256] (RVal SU256),
     sys_fn ''SMOD'' ''smod'' False [SU256, SU256] (RVal SU256),
     sys_fn ''ADDMOD'' ''addmod'' False [SU256, SU256, SU256] (RVal SU256),
     sys_fn ''MULMOD'' ''mulmod'' False [SU256, SU256, SU256] (RVal SU256),
     sys_fn ''EXP'' ''exp'' False [SU256, SU256] (RVal SU256),
     sys_fn ''SIGNEXTEND'' ''signextend'' False [SU256, SU256] (RVal SU256)]"

definition sys_bitwise :: "binding list" where
  "sys_bitwise =
    [sys_fn ''LT'' ''lt'' False [SU256, SU256] (RVal SU256),
     sys_fn ''GT'' ''gt'' False [SU256, SU256] (RVal SU256),
     sys_fn ''SLT'' ''slt'' False [SU256, SU256] (RVal SU256),
     sys_fn ''SGT'' ''sgt'' False [SU256, SU256] (RVal SU256),
     sys_fn ''EQ'' ''eq'' False [SU256, SU256] (RVal SU256),
     sys_fn ''ISZERO'' ''iszero'' False [SU256] (RVal SU256),
     sys_fn ''AND'' ''and'' False [SU256, SU256] (RVal SU256),
     sys_fn ''OR'' ''or'' False [SU256, SU256] (RVal SU256),
     sys_fn ''XOR'' ''xor'' False [SU256, SU256] (RVal SU256),
     sys_fn ''NOT'' ''not'' False [SU256] (RVal SU256),
     sys_fn ''BYTE'' ''byte'' False [SU256, SU256] (RVal SU256),
     sys_fn ''SHL'' ''shl'' False [SU256, SU256] (RVal SU256),
     sys_fn ''SHR'' ''shr'' False [SU256, SU256] (RVal SU256),
     sys_fn ''SAR'' ''sar'' False [SU256, SU256] (RVal SU256)]"

definition sys_block :: "binding list" where
  "sys_block =
    [sys_fn ''BLOCKHASH'' ''blockhash'' True [SU256] (RVal SU256),
     sys_fn ''COINBASE'' ''coinbase'' True [] (RVal SU256),
     sys_fn ''TIMESTAMP'' ''timestamp'' True [] (RVal SU256),
     sys_fn ''NUMBER'' ''number'' True [] (RVal SU256),
     sys_fn ''PREVRANDAO'' ''prevrandao'' True [] (RVal SU256),
     sys_fn ''GASLIMIT'' ''gaslimit'' True [] (RVal SU256),
     sys_fn ''CHAINID'' ''chainid'' True [] (RVal SU256),
     sys_fn ''BASEFEE'' ''basefee'' True [] (RVal SU256),
     sys_fn ''BLOBHASH'' ''blobhash'' True [SU256] (RVal SU256),
     sys_fn ''BLOBBASEFEE'' ''blobbasefee'' True [] (RVal SU256)]"

definition sys_call :: "binding list" where
  "sys_call =
    [sys_fn ''CALL'' ''call'' True [SU256, SU256, SU256, SU32, SU32, SU32, SU32] (RVal SU32),
     sys_fn ''STATICCALL'' ''staticcall'' True [SU256, SU256, SU32, SU32, SU32, SU32] (RVal SU32),
     sys_fn ''DELEGATECALL'' ''delegatecall'' True [SU256, SU256, SU32, SU32, SU32, SU32] (RVal SU32),
     sys_fn ''CALLCODE'' ''callcode'' True [SU256, SU256, SU256, SU32, SU32, SU32, SU32] (RVal SU32),
     sys_fn ''CREATE'' ''create'' True [SU256, SU32, SU32] (RVal SU256),
     sys_fn ''CREATE2'' ''create2'' True [SU256, SU32, SU32, SU256] (RVal SU256)]"

definition sys_calldata :: "binding list" where
  "sys_calldata =
    [sys_fn ''CALLDATALOAD'' ''calldataload'' True [SU256] (RVal SU256),
     sys_fn ''CALLDATASIZE'' ''calldatasize'' True [] (RVal SU256),
     sys_fn ''CALLDATACOPY'' ''calldatacopy'' True [SU32, SU32, SU32] RUnit,
     sys_fn ''RETURNDATASIZE'' ''returndatasize'' True [] (RVal SU256),
     sys_fn ''RETURNDATACOPY'' ''returndatacopy'' True [SU32, SU32, SU32] RUnit]"

definition sys_context :: "binding list" where
  "sys_context =
    [sys_fn ''ADDRESS'' ''address'' False [] (RVal SU256),
     sys_fn ''CALLER'' ''caller'' False [] (RVal SU256),
     sys_fn ''CALLVALUE'' ''callvalue'' False [] (RVal SU256),
     sys_fn ''ORIGIN'' ''origin'' False [] (RVal SU256),
     sys_fn ''GAS'' ''gas'' False [] (RVal SU256),
     sys_fn ''GASPRICE'' ''gasprice'' False [] (RVal SU256),
     sys_fn ''SELFBALANCE'' ''selfbalance'' False [] (RVal SU256)]"

definition sys_control :: "binding list" where
  "sys_control =
    [sys_fn ''RETURN'' ''ret'' True [SU32, SU32] RNever,
     sys_fn ''REVERT'' ''revert'' True [SU32, SU32] RNever,
     sys_fn ''STOP'' ''stop'' True [] RNever,
     sys_fn ''INVALID'' ''invalid'' True [] RNever,
     sys_fn ''PC'' ''pc'' True [] (RVal SU256),
     sys_fn ''JUMP'' ''jump'' True [SU256] RUnit,
     sys_fn ''JUMPI'' ''jumpi'' True [SU256, SU256] RUnit,
     sys_fn ''JUMPDEST'' ''jumpdest'' False [] RUnit,
     sys_fn ''POP'' ''pop'' False [SU256] RUnit]"

definition sys_hash :: "binding list" where
  "sys_hash =
    [sys_fn ''KECCAK256'' ''keccak256'' True [SU32, SU32] (RVal SU256)]"

definition sys_log :: "binding list" where
  "sys_log =
    [sys_fn ''LOG0'' ''log0'' True [SU32, SU32] RUnit,
     sys_fn ''LOG1'' ''log1'' True [SU32, SU32, SU256] RUnit,
     sys_fn ''LOG2'' ''log2'' True [SU32, SU32, SU256, SU256] RUnit,
     sys_fn ''LOG3'' ''log3'' True [SU32, SU32, SU256, SU256, SU256] RUnit,
     sys_fn ''LOG4'' ''log4'' True [SU32, SU32, SU256, SU256, SU256, SU256] RUnit]"

definition sys_memory :: "binding list" where
  "sys_memory =
    [sys_fn ''MLOAD'' ''mload'' True [SU32] (RVal SU256),
     sys_fn ''MSTORE'' ''mstore'' True [SU32, SU256] RUnit,
     sys_fn ''MSTORE8'' ''mstore8'' True [SU32, SU256] RUnit,
     sys_fn ''MCOPY'' ''mcopy'' True [SU32, SU32, SU32] RUnit,
     sys_fn ''MSIZE'' ''msize'' True [] (RVal SU256)]"

definition sys_storage :: "binding list" where
  "sys_storage =
    [sys_fn ''SLOAD'' ''sload'' True [SU256] (RVal SU256),
     sys_fn ''SSTORE'' ''sstore'' True [SU256, SU256] RUnit,
     sys_fn ''TLOAD'' ''tload'' True [SU256] (RVal SU256),
     sys_fn ''TSTORE'' ''tstore'' True [SU256, SU256] RUnit]"

definition sys_stack_push_low :: "binding list" where
  "sys_stack_push_low =
    [sys_fn ''PUSH0'' ''push0'' False [] (RVal SU256),
     sys_fn ''PUSH1'' ''push1'' False [SU8] (RVal SU256),
     sys_fn ''PUSH2'' ''push2'' False [SU16] (RVal SU256),
     sys_fn ''PUSH3'' ''push3'' False [SU32] (RVal SU256),
     sys_fn ''PUSH4'' ''push4'' False [SU32] (RVal SU256),
     sys_fn ''PUSH5'' ''push5'' False [SU64] (RVal SU256),
     sys_fn ''PUSH6'' ''push6'' False [SU64] (RVal SU256),
     sys_fn ''PUSH7'' ''push7'' False [SU64] (RVal SU256),
     sys_fn ''PUSH8'' ''push8'' False [SU64] (RVal SU256),
     sys_fn ''PUSH9'' ''push9'' False [SU128] (RVal SU256),
     sys_fn ''PUSH10'' ''push10'' False [SU128] (RVal SU256),
     sys_fn ''PUSH11'' ''push11'' False [SU128] (RVal SU256),
     sys_fn ''PUSH12'' ''push12'' False [SU128] (RVal SU256),
     sys_fn ''PUSH13'' ''push13'' False [SU128] (RVal SU256),
     sys_fn ''PUSH14'' ''push14'' False [SU128] (RVal SU256),
     sys_fn ''PUSH15'' ''push15'' False [SU128] (RVal SU256),
     sys_fn ''PUSH16'' ''push16'' False [SU128] (RVal SU256)]"

definition sys_stack_push_high :: "binding list" where
  "sys_stack_push_high =
    [sys_fn ''PUSH17'' ''push17'' False [SU256] (RVal SU256),
     sys_fn ''PUSH18'' ''push18'' False [SU256] (RVal SU256),
     sys_fn ''PUSH19'' ''push19'' False [SU256] (RVal SU256),
     sys_fn ''PUSH20'' ''push20'' False [SU256] (RVal SU256),
     sys_fn ''PUSH21'' ''push21'' False [SU256] (RVal SU256),
     sys_fn ''PUSH22'' ''push22'' False [SU256] (RVal SU256),
     sys_fn ''PUSH23'' ''push23'' False [SU256] (RVal SU256),
     sys_fn ''PUSH24'' ''push24'' False [SU256] (RVal SU256),
     sys_fn ''PUSH25'' ''push25'' False [SU256] (RVal SU256),
     sys_fn ''PUSH26'' ''push26'' False [SU256] (RVal SU256),
     sys_fn ''PUSH27'' ''push27'' False [SU256] (RVal SU256),
     sys_fn ''PUSH28'' ''push28'' False [SU256] (RVal SU256),
     sys_fn ''PUSH29'' ''push29'' False [SU256] (RVal SU256),
     sys_fn ''PUSH30'' ''push30'' False [SU256] (RVal SU256),
     sys_fn ''PUSH31'' ''push31'' False [SU256] (RVal SU256),
     sys_fn ''PUSH32'' ''push32'' False [SU256] (RVal SU256)]"

definition sys_stack_dup_low :: "binding list" where
  "sys_stack_dup_low =
    [sys_fn ''DUP1'' ''dup1'' False [SU256] (RVal SU256),
     sys_fn ''DUP2'' ''dup2'' False [SU256, SU256] (RVal SU256),
     sys_fn ''DUP3'' ''dup3'' False [SU256, SU256, SU256] (RVal SU256),
     sys_fn ''DUP4'' ''dup4'' False [SU256, SU256, SU256, SU256] (RVal SU256),
     sys_fn ''DUP5'' ''dup5'' False (replicate 5 SU256) (RVal SU256),
     sys_fn ''DUP6'' ''dup6'' False (replicate 6 SU256) (RVal SU256),
     sys_fn ''DUP7'' ''dup7'' False (replicate 7 SU256) (RVal SU256),
     sys_fn ''DUP8'' ''dup8'' False (replicate 8 SU256) (RVal SU256)]"

definition sys_stack_dup_high :: "binding list" where
  "sys_stack_dup_high =
    [sys_fn ''DUP9'' ''dup9'' False (replicate 9 SU256) (RVal SU256),
     sys_fn ''DUP10'' ''dup10'' False (replicate 10 SU256) (RVal SU256),
     sys_fn ''DUP11'' ''dup11'' False (replicate 11 SU256) (RVal SU256),
     sys_fn ''DUP12'' ''dup12'' False (replicate 12 SU256) (RVal SU256),
     sys_fn ''DUP13'' ''dup13'' False (replicate 13 SU256) (RVal SU256),
     sys_fn ''DUP14'' ''dup14'' False (replicate 14 SU256) (RVal SU256),
     sys_fn ''DUP15'' ''dup15'' False (replicate 15 SU256) (RVal SU256),
     sys_fn ''DUP16'' ''dup16'' False (replicate 16 SU256) (RVal SU256)]"

definition sys_stack_swap_low :: "binding list" where
  "sys_stack_swap_low =
    [sys_fn ''SWAP1'' ''swap1'' False [SU256, SU256] (RVal SU256),
     sys_fn ''SWAP2'' ''swap2'' False [SU256, SU256, SU256] (RVal SU256),
     sys_fn ''SWAP3'' ''swap3'' False [SU256, SU256, SU256, SU256] (RVal SU256),
     sys_fn ''SWAP4'' ''swap4'' False (replicate 5 SU256) (RVal SU256),
     sys_fn ''SWAP5'' ''swap5'' False (replicate 6 SU256) (RVal SU256),
     sys_fn ''SWAP6'' ''swap6'' False (replicate 7 SU256) (RVal SU256),
     sys_fn ''SWAP7'' ''swap7'' False (replicate 8 SU256) (RVal SU256),
     sys_fn ''SWAP8'' ''swap8'' False (replicate 9 SU256) (RVal SU256)]"

definition sys_stack_swap_high :: "binding list" where
  "sys_stack_swap_high =
    [sys_fn ''SWAP9'' ''swap9'' False (replicate 10 SU256) (RVal SU256),
     sys_fn ''SWAP10'' ''swap10'' False (replicate 11 SU256) (RVal SU256),
     sys_fn ''SWAP11'' ''swap11'' False (replicate 12 SU256) (RVal SU256),
     sys_fn ''SWAP12'' ''swap12'' False (replicate 13 SU256) (RVal SU256),
     sys_fn ''SWAP13'' ''swap13'' False (replicate 14 SU256) (RVal SU256),
     sys_fn ''SWAP14'' ''swap14'' False (replicate 15 SU256) (RVal SU256),
     sys_fn ''SWAP15'' ''swap15'' False (replicate 16 SU256) (RVal SU256),
     sys_fn ''SWAP16'' ''swap16'' False (replicate 17 SU256) (RVal SU256)]"

definition BINDINGS :: "binding list" where
  "BINDINGS =
     sys_account @
     sys_arithmetic @
     sys_bitwise @
     sys_block @
     sys_call @
     sys_calldata @
     sys_context @
     sys_control @
     sys_hash @
     sys_log @
     sys_memory @
     sys_storage @
     sys_stack_push_low @
     sys_stack_push_high @
     sys_stack_dup_low @
     sys_stack_dup_high @
     sys_stack_swap_low @
     sys_stack_swap_high"

text \<open>The attribute macro of \<open>evm-sys-macros\<close> returns the function it is given.\<close>

definition evm_opcode :: "'t \<Rightarrow> 'f \<Rightarrow> 'f" where "evm_opcode attr item = item"

subsection \<open>Against the instruction table\<close>

definition sys_ty_bytes :: "sys_ty \<Rightarrow> nat" where
  "sys_ty_bytes t =
     (case t of SU8 \<Rightarrow> 1 | SU16 \<Rightarrow> 2 | SU32 \<Rightarrow> 4 | SU64 \<Rightarrow> 8 | SU128 \<Rightarrow> 16 | SU256 \<Rightarrow> 32)"

definition results :: "sys_ret \<Rightarrow> nat" where
  "results r = (case r of RVal _ \<Rightarrow> 1 | _ \<Rightarrow> 0)"

text \<open>The type of an immediate of \<open>n\<close> bytes: the smallest integer that holds it.\<close>

definition imm_ty :: "nat \<Rightarrow> sys_ty" where
  "imm_ty n = (if n \<le> 1 then SU8 else if n \<le> 2 then SU16 else if n \<le> 4 then SU32
     else if n \<le> 8 then SU64 else if n \<le> 16 then SU128 else SU256)"

definition arity_ok :: "binding \<Rightarrow> op_spec \<Rightarrow> bool" where
  "arity_ok b s =
     (case op_form s of
        Push n \<Rightarrow> bd_params b = (if n = 0 then [] else [imm_ty (unat n)]) \<and> results (bd_ret b) = unat (stack_out s)
      | Simple \<Rightarrow> length (bd_params b) = unat (stack_in s) \<and> results (bd_ret b) = unat (stack_out s)
      | _ \<Rightarrow> bd_params b = replicate (unat (stack_in s)) SU256 \<and> bd_ret b = RVal SU256)"

definition row_ok :: "binding \<Rightarrow> op_spec \<Rightarrow> bool" where
  "row_ok b s \<longleftrightarrow>
     bd_mnemonic b = mnemonic s \<and> arity_ok b s \<and> (bd_ret b = RNever \<longleftrightarrow> terminating s)"

text \<open>The position of each row of the table among the bindings.\<close>

definition table_order :: "nat list" where
  "table_order =
    [62, 7, 8, 9, 10, 11, 12, 13, 14, 15, 16, 17, 18, 19, 20, 21, 22, 23, 24, 25, 26, 27, 28, 29,
     30, 31, 69, 53, 0, 56, 54, 55, 48, 49, 50, 4, 5, 58, 1, 2, 51, 52, 3, 32, 33, 34, 35, 36, 37,
     38, 59, 39, 40, 41, 68, 75, 76, 77, 80, 81, 65, 66, 64, 79, 57, 67, 82, 83, 78, 84, 85, 86, 87,
     88, 89, 90, 91, 92, 93, 94, 95, 96, 97, 98, 99, 100, 101, 102, 103, 104, 105, 106, 107, 108,
     109, 110, 111, 112, 113, 114, 115, 116, 117, 118, 119, 120, 121, 122, 123, 124, 125, 126, 127,
     128, 129, 130, 131, 132, 133, 134, 135, 136, 137, 138, 139, 140, 141, 142, 143, 144, 145, 146,
     147, 148, 70, 71, 72, 73, 74, 46, 42, 45, 60, 44, 47, 43, 61, 63, 6]"

lemma table_order_perm: "sort table_order = [0..<149]"
  by code_simp

lemma rows_ok: "list_all2 row_ok (map (\<lambda>i. BINDINGS ! i) table_order) OPCODES"
  by code_simp

lemma length_BINDINGS: "length BINDINGS = 149"
  by code_simp

lemma distinct_bindings: "distinct (map bd_mnemonic BINDINGS)"
  by code_simp

lemma row_of_binding:
  assumes "b \<in> set BINDINGS"
  obtains s where "s \<in> set OPCODES" "row_ok b s"
proof -
  obtain i where i: "i < 149" "b = BINDINGS ! i"
    using assms by (auto simp: in_set_conv_nth length_BINDINGS)
  have "i \<in> set table_order" using i(1) table_order_perm by (metis atLeastLessThan_iff le0 set_sort set_upt)
  then have "b \<in> set (map (\<lambda>i. BINDINGS ! i) table_order)" using i(2) by simp
  then show ?thesis using rows_ok that by (metis list_all2_conv_all_nth in_set_conv_nth nth_mem)
qed

text \<open>C36 The bindings of \<open>evm-sys\<close> against the table of \<open>evm-isa\<close>: there is exactly one binding for each
  opcode; it takes as many words as the opcode pops and returns what it pushes, never returns
  exactly when the opcode terminates, and a push takes its immediate in the smallest integer type
  that holds it. The one exception are \<open>DUP\<close> and \<open>SWAP\<close>, whose bindings return one word where the
  table counts all the words the opcode leaves.\<close>

theorem bindings_match_isa:
  "distinct (map bd_mnemonic BINDINGS)
   \<and> (\<forall>b \<in> set BINDINGS. \<exists>s. by_mnemonic (bd_mnemonic b) = Some s \<and> row_ok b s)
   \<and> (\<forall>s \<in> set OPCODES. \<exists>b \<in> set BINDINGS. row_ok b s)"
proof -
  have "\<exists>b \<in> set BINDINGS. row_ok b s" if "s \<in> set OPCODES" for s
  proof -
    obtain j where j: "j < length OPCODES" "s = OPCODES ! j" using \<open>s \<in> set OPCODES\<close> by (metis in_set_conv_nth)
    have l: "j < length table_order" using j(1) list_all2_lengthD [OF rows_ok] by simp
    have "row_ok (BINDINGS ! (table_order ! j)) s"
      using list_all2_nthD2 [OF rows_ok j(1)] l j(2) by simp
    moreover have "table_order ! j < length BINDINGS"
      using l table_order_perm nth_mem [OF l]
      by (metis length_BINDINGS atLeastLessThan_iff set_sort set_upt)
    ultimately show ?thesis using nth_mem by blast
  qed
  moreover have "\<exists>s. by_mnemonic (bd_mnemonic b) = Some s \<and> row_ok b s" if "b \<in> set BINDINGS" for b
    using row_of_binding [OF that] by_mnemonic_row by (metis row_ok_def)
  ultimately show ?thesis using distinct_bindings by blast
qed

theorem bindings_match_isa_witness:
  "\<exists>s. by_mnemonic ''PUSH32'' = Some s \<and> row_ok (sys_fn ''PUSH32'' ''push32'' False [SU256] (RVal SU256)) s"
proof -
  have "sys_fn ''PUSH32'' ''push32'' False [SU256] (RVal SU256) \<in> set BINDINGS"
    by (simp add: BINDINGS_def sys_stack_push_high_def)
  then show ?thesis using bindings_match_isa by (fastforce simp: sys_fn_def)
qed

end
