(* ===== verification/Abi_Codec.thy ===== *)
theory Abi_Codec
  imports Prelude
begin

text \<open>
  \<open>std-evm-abi/src/word.rs\<close> and \<open>codec.rs\<close>: the 256-bit word and the head/tail encoding of
  argument tuples. The size of \<open>usize\<close> in bytes, 4 on the EVM target and 8 on a host, is the
  parameter \<open>us\<close>; a \<open>usize\<close> is a \<open>nat\<close> and every checked addition of the decoder is written
  out. The contract of the two traits \<open>AbiEncode\<close> and \<open>AbiDecode\<close> is the locale \<open>abi_codec\<close>,
  interpreted for every type that implements them; what follows for tuples is proved once.
\<close>

subsection \<open>Words (word.rs)\<close>

datatype u256 = U256 (u256_bytes: "byte list")

definition u256_zero :: u256 where "u256_zero = U256 (replicate 32 0)"
definition u256_max :: u256 where "u256_max = U256 (replicate 32 0xff)"

definition u256_from_u64 :: "64 word \<Rightarrow> u256" where
  "u256_from_u64 x = U256 (replicate 24 0 @ be_bytes 8 (unat x))"

definition u256_to_be_bytes :: "u256 \<Rightarrow> byte list" where "u256_to_be_bytes u = u256_bytes u"
definition u256_from_be_bytes :: "byte list \<Rightarrow> u256" where "u256_from_be_bytes b = U256 b"

text \<open>A \<open>U256\<close> is an array of 32 bytes.\<close>

definition u256_ok :: "u256 \<Rightarrow> bool" where "u256_ok u \<longleftrightarrow> length (u256_bytes u) = 32"

subsection \<open>Encoding (codec.rs)\<close>

datatype component = Static "byte list" | Dynamic "byte list"

datatype decode_error = Truncated | Overflow | InvalidUtf8

definition word_from_u128 :: "128 word \<Rightarrow> byte list" where
  "word_from_u128 v = replicate 16 0 @ be_bytes 16 (unat v)"

definition word_from_i128 :: "128 word \<Rightarrow> byte list" where
  "word_from_i128 v = (if v <s 0 then replicate 16 0xff else replicate 16 0) @ be_bytes 16 (unat v)"

definition word_from_usize :: "nat \<Rightarrow> byte list" where
  "word_from_usize v = word_from_u128 (of_nat v)"

definition head_len :: "component \<Rightarrow> nat" where
  "head_len c = (case c of Static b \<Rightarrow> length b | Dynamic _ \<Rightarrow> 32)"

fun encode_loop :: "nat \<Rightarrow> component list \<Rightarrow> byte list \<Rightarrow> byte list \<Rightarrow> byte list \<times> byte list" where
  "encode_loop head_size [] head tail = (head, tail)"
| "encode_loop head_size (Static b # cs) head tail = encode_loop head_size cs (head @ b) tail"
| "encode_loop head_size (Dynamic b # cs) head tail =
     encode_loop head_size cs (head @ word_from_usize (head_size + length tail)) (tail @ b)"

definition encode_tuple :: "component list \<Rightarrow> byte list" where
  "encode_tuple cs =
     (let head_size = sum_list (map head_len cs);
          (head, tail) = encode_loop head_size cs [] [] in
      head @ tail)"

definition encode_bytes :: "byte list \<Rightarrow> byte list" where
  "encode_bytes data =
     word_from_usize (length data) @ data @
     (let rem = length data mod 32 in if rem \<noteq> 0 then replicate (32 - rem) 0 else [])"

subsection \<open>Decoding\<close>

definition usize_bound :: "nat \<Rightarrow> nat" where "usize_bound us = 256 ^ us"

definition checked_add :: "nat \<Rightarrow> nat \<Rightarrow> nat \<Rightarrow> (decode_error, nat) rust" where
  "checked_add us a b = (if a + b < usize_bound us then Ok (a + b) else Err Overflow)"

text \<open>\<open>input[from..to]\<close>, a panic out of range.\<close>

definition slice :: "nat \<Rightarrow> nat \<Rightarrow> 'a list \<Rightarrow> ('e, 'a list) rust" where
  "slice i j xs = (if i \<le> j \<and> j \<le> length xs then Ok (take (j - i) (drop i xs)) else Panic)"

definition read_word :: "nat \<Rightarrow> byte list \<Rightarrow> nat \<Rightarrow> (decode_error, byte list) rust" where
  "read_word us input offset =
     bind_rust (checked_add us offset 32) (\<lambda>stop.
       if length input < stop then Err Truncated else slice offset stop input)"

definition read_usize :: "nat \<Rightarrow> byte list \<Rightarrow> nat \<Rightarrow> (decode_error, nat) rust" where
  "read_usize us input offset =
     bind_rust (read_word us input offset) (\<lambda>w.
       if list_ex (\<lambda>b. b \<noteq> 0) (take (32 - us) w) then Err Overflow
       else Ok (be_val (drop (32 - us) w)))"

definition decode_bytes :: "nat \<Rightarrow> byte list \<Rightarrow> nat \<Rightarrow> (decode_error, byte list) rust" where
  "decode_bytes us input offset =
     bind_rust (read_usize us input offset) (\<lambda>ptr.
     bind_rust (read_usize us input ptr) (\<lambda>len.
     bind_rust (checked_add us ptr 32) (\<lambda>start.
     bind_rust (checked_add us start len) (\<lambda>stop.
       if length input < stop then Err Truncated else slice start stop input))))"

subsection \<open>The implementations for the primitive types\<close>

text \<open>The macros \<open>impl_uint!\<close> and \<open>impl_int!\<close>, generic in the word: \<open>as u128\<close> zero-extends,
  \<open>as i128\<close> sign-extends, \<open>from_be_bytes\<close> reads the low \<open>N\<close> bytes.\<close>

definition uint_to_component :: "'a :: len word \<Rightarrow> component" where
  "uint_to_component v = Static (word_from_u128 (ucast v))"

definition int_to_component :: "'a :: len word \<Rightarrow> component" where
  "int_to_component v = Static (word_from_i128 (scast v))"

definition int_decode :: "nat \<Rightarrow> byte list \<Rightarrow> nat \<Rightarrow> (decode_error, 'a :: len word) rust" where
  "int_decode us input offset =
     bind_rust (read_word us input offset) (\<lambda>w.
       Ok (of_nat (be_val (drop (32 - LENGTH('a) div 8) w))))"

definition uint_decode :: "nat \<Rightarrow> byte list \<Rightarrow> nat \<Rightarrow> (decode_error, 'a :: len word) rust" where
  "uint_decode us input offset =
     bind_rust (read_word us input offset) (\<lambda>w.
       Ok (of_nat (be_val (drop (32 - LENGTH('a) div 8) w))))"

definition bool_to_component :: "bool \<Rightarrow> component" where
  "bool_to_component b = Static (word_from_u128 (if b then 1 else 0))"

definition bool_decode :: "nat \<Rightarrow> byte list \<Rightarrow> nat \<Rightarrow> (decode_error, bool) rust" where
  "bool_decode us input offset =
     bind_rust (read_word us input offset) (\<lambda>w. Ok (list_ex (\<lambda>b. b \<noteq> 0) w))"

definition bytes32_to_component :: "byte list \<Rightarrow> component" where
  "bytes32_to_component b = Static b"

definition bytes32_decode :: "nat \<Rightarrow> byte list \<Rightarrow> nat \<Rightarrow> (decode_error, byte list) rust" where
  "bytes32_decode us input offset = read_word us input offset"

definition u256_to_component :: "u256 \<Rightarrow> component" where
  "u256_to_component u = Static (u256_to_be_bytes u)"

definition u256_decode :: "nat \<Rightarrow> byte list \<Rightarrow> nat \<Rightarrow> (decode_error, u256) rust" where
  "u256_decode us input offset =
     bind_rust (read_word us input offset) (\<lambda>w. Ok (u256_from_be_bytes w))"

definition bytes_to_component :: "byte list \<Rightarrow> component" where
  "bytes_to_component b = Dynamic (encode_bytes b)"

text \<open>A Rust string is its UTF-8 bytes; \<open>utf8_valid\<close> is the check of \<open>String::from_utf8\<close>.\<close>

definition cont :: "byte \<Rightarrow> bool" where "cont b \<longleftrightarrow> 0x80 \<le> b \<and> b \<le> 0xbf"

fun utf8_valid :: "byte list \<Rightarrow> bool" where
  "utf8_valid [] = True"
| "utf8_valid (a # s) =
     (if a \<le> 0x7f then utf8_valid s
      else case s of [] \<Rightarrow> False
      | b # s1 \<Rightarrow>
          if 0xc2 \<le> a \<and> a \<le> 0xdf then cont b \<and> utf8_valid s1
          else (case s1 of [] \<Rightarrow> False
          | c # s2 \<Rightarrow>
              if 0xe0 \<le> a \<and> a \<le> 0xef
              then cont b \<and> cont c \<and> (a = 0xe0 \<longrightarrow> 0xa0 \<le> b) \<and> (a = 0xed \<longrightarrow> b \<le> 0x9f) \<and> utf8_valid s2
              else (case s2 of [] \<Rightarrow> False
              | d # s3 \<Rightarrow>
                  0xf0 \<le> a \<and> a \<le> 0xf4 \<and> cont b \<and> cont c \<and> cont d \<and>
                  (a = 0xf0 \<longrightarrow> 0x90 \<le> b) \<and> (a = 0xf4 \<longrightarrow> b \<le> 0x8f) \<and> utf8_valid s3)))"

definition string_to_component :: "byte list \<Rightarrow> component" where
  "string_to_component s = Dynamic (encode_bytes s)"

definition string_decode :: "nat \<Rightarrow> byte list \<Rightarrow> nat \<Rightarrow> (decode_error, byte list) rust" where
  "string_decode us input offset =
     bind_rust (decode_bytes us input offset) (\<lambda>b. if utf8_valid b then Ok b else Err InvalidUtf8)"

definition encode_output :: "component \<Rightarrow> byte list" where "encode_output c = encode_tuple [c]"

definition encode_output_unit :: "byte list" where "encode_output_unit = []"

subsection \<open>Layout\<close>

text \<open>The reference layout: each dynamic component's offset is the size of all heads plus the tails
  before it.\<close>

fun heads :: "nat \<Rightarrow> component list \<Rightarrow> byte list" where
  "heads off [] = []"
| "heads off (Static b # cs) = b @ heads off cs"
| "heads off (Dynamic b # cs) = word_from_usize off @ heads (off + length b) cs"

fun tails :: "component list \<Rightarrow> byte list" where
  "tails [] = []"
| "tails (Static b # cs) = tails cs"
| "tails (Dynamic b # cs) = b @ tails cs"

definition heads_size :: "component list \<Rightarrow> nat" where "heads_size cs = sum_list (map head_len cs)"

lemma encode_loop_eq:
  "encode_loop n cs h t = (h @ heads (n + length t) cs, t @ tails cs)"
  by (induction n cs h t rule: encode_loop.induct) (simp_all add: add.assoc)

lemma encode_tuple_eq: "encode_tuple cs = heads (heads_size cs) cs @ tails cs"
  by (simp add: encode_tuple_def encode_loop_eq heads_size_def Let_def)

lemma length_word_from [simp]:
  "length (word_from_u128 v) = 32" "length (word_from_i128 v) = 32" "length (word_from_usize n) = 32"
  by (simp_all add: word_from_u128_def word_from_i128_def word_from_usize_def)

lemma length_heads: "length (heads n cs) = heads_size cs"
  by (induction n cs rule: heads.induct) (auto simp: heads_size_def head_len_def)

lemma heads_append: "heads n (cs @ ds) = heads n cs @ heads (n + length (tails cs)) ds"
  by (induction n cs rule: heads.induct) (auto simp: add.assoc)

lemma tails_append [simp]: "tails (cs @ ds) = tails cs @ tails ds"
  by (induction cs rule: tails.induct) auto

lemma heads_size_append [simp]: "heads_size (cs @ ds) = heads_size cs + heads_size ds"
  by (simp add: heads_size_def)

lemma encode_static_slot:
  "take (length b) (drop (heads_size pre) (encode_tuple (pre @ Static b # post))) = b"
  by (simp add: encode_tuple_eq heads_append length_heads)

lemma encode_dynamic_slot:
  fixes pre post :: "component list" and b :: "byte list"
  defines "cs \<equiv> pre @ Dynamic b # post"
  shows "take 32 (drop (heads_size pre) (encode_tuple cs)) =
      word_from_usize (heads_size cs + length (tails pre))"
    and "take (length b) (drop (heads_size cs + length (tails pre)) (encode_tuple cs)) = b"
proof -
  show "take 32 (drop (heads_size pre) (encode_tuple cs)) =
      word_from_usize (heads_size cs + length (tails pre))"
    by (simp add: cs_def encode_tuple_eq heads_append length_heads)
  have e: "encode_tuple cs = heads (heads_size cs) cs @ tails pre @ b @ tails post"
    by (simp add: encode_tuple_eq cs_def)
  show "take (length b) (drop (heads_size cs + length (tails pre)) (encode_tuple cs)) = b"
    by (simp add: e length_heads)
qed

lemma length_encode_tuple: "length (encode_tuple cs) = heads_size cs + length (tails cs)"
  by (simp add: encode_tuple_eq length_heads)

subsection \<open>Reading\<close>

lemma read_word_eq:
  "read_word us input off =
     (if off + 32 < usize_bound us
      then if off + 32 \<le> length input then Ok (take 32 (drop off input)) else Err Truncated
      else Err Overflow)"
  by (simp add: read_word_def checked_add_def slice_def)

lemma read_word_length: "read_word us input off = Ok w \<Longrightarrow> length w = 32"
  by (auto simp: read_word_eq split: if_splits)

lemma word_from_usize_split:
  assumes "v < 256 ^ us" "us \<le> 16"
  shows "word_from_usize v = replicate (32 - us) 0 @ be_bytes us v"
proof -
  have "(256 :: nat) ^ us \<le> 256 ^ 16" using assms(2) by (intro power_increasing) auto
  then have "v < 2 ^ 128" using assms(1) by simp
  then have "unat (of_nat v :: 128 word) = v" by (simp add: unat_of_nat take_bit_nat_eq_self)
  moreover have "be_bytes 16 v = replicate (16 - us) 0 @ be_bytes us v"
    using assms by (intro be_bytes_split)
  moreover have "replicate 16 0 @ replicate (16 - us) 0 = replicate (32 - us) (0 :: byte)"
    using assms(2) by (simp flip: replicate_add)
  ultimately show ?thesis by (simp add: word_from_usize_def word_from_u128_def)
qed

lemma read_usize_word:
  assumes "read_word us input off = Ok (word_from_usize v)" "v < usize_bound us" "us \<le> 16"
  shows "read_usize us input off = Ok v"
proof -
  have w: "word_from_usize v = replicate (32 - us) 0 @ be_bytes us v"
    using assms(2,3) by (intro word_from_usize_split) (simp_all add: usize_bound_def)
  show ?thesis
    using assms(1,2)
    by (simp add: read_usize_def w be_val_be_bytes_id usize_bound_def list_ex_iff)
qed

lemma bind_no_panic: "r \<noteq> Panic \<Longrightarrow> (\<And>x. r = Ok x \<Longrightarrow> f x \<noteq> Panic) \<Longrightarrow> bind_rust r f \<noteq> Panic"
  by (cases r) auto

lemma read_word_no_panic: "read_word us input off \<noteq> Panic"
  by (simp add: read_word_eq)

lemma read_usize_no_panic: "read_usize us input off \<noteq> Panic"
  unfolding read_usize_def by (intro bind_no_panic read_word_no_panic) simp

lemma decode_bytes_no_panic: "decode_bytes us input off \<noteq> Panic"
  unfolding decode_bytes_def
  by (intro bind_no_panic read_usize_no_panic)
     (auto simp: checked_add_def slice_def split: if_splits)

lemma take_drop_append:
  assumes "take (length (xs @ ys)) (drop p zs) = xs @ ys"
  shows "take (length xs) (drop p zs) = xs" "take (length ys) (drop (p + length xs) zs) = ys"
proof -
  have "take (length xs) (take (length (xs @ ys)) (drop p zs)) = xs" by (simp only: assms) simp
  then show "take (length xs) (drop p zs) = xs" by (simp add: min_def)
  have "drop (length xs) (take (length (xs @ ys)) (drop p zs)) = ys" by (simp only: assms) simp
  then show "take (length ys) (drop (p + length xs) zs) = ys" by (simp add: drop_take add.commute)
qed

lemma decode_bytes_at:
  assumes "read_usize us input off = Ok p" "us \<le> 16" "length input < usize_bound us"
    and "p + length (encode_bytes b) \<le> length input"
    and "take (length (encode_bytes b)) (drop p input) = encode_bytes b"
  shows "decode_bytes us input off = Ok b"
proof -
  obtain pad where e: "encode_bytes b = word_from_usize (length b) @ b @ pad"
    by (simp add: encode_bytes_def)
  have w: "take 32 (drop p input) = word_from_usize (length b)"
    and d: "take (length (b @ pad)) (drop (p + 32) input) = b @ pad"
    using take_drop_append [of "word_from_usize (length b)" "b @ pad" p input] assms(5) e by simp_all
  have len: "p + 32 + length b \<le> length input" using assms(4) by (simp add: e)
  have "read_word us input p = Ok (word_from_usize (length b))"
    using len assms(3) w by (simp add: read_word_eq)
  then have "read_usize us input p = Ok (length b)"
    using len assms(2,3) by (intro read_usize_word) auto
  moreover have "take (length b) (drop (p + 32) input) = b"
    using take_drop_append(1) [OF d] .
  ultimately show ?thesis
    using len assms(1,3) by (simp add: decode_bytes_def checked_add_def slice_def)
qed

lemmas read_no_panic [simp] = read_word_no_panic read_usize_no_panic decode_bytes_no_panic

subsection \<open>The contract of \<open>AbiEncode\<close> and \<open>AbiDecode\<close>\<close>

text \<open>
  What the tuple code relies on from a type that implements both traits: a static component is
  one word and decodes from a slot holding it; a dynamic one decodes from a slot that points at
  its bytes; decoding never panics, and reports an unreadable slot.
\<close>

locale abi_codec =
  fixes us :: nat
    and to_component :: "'a \<Rightarrow> component"
    and decode :: "byte list \<Rightarrow> nat \<Rightarrow> (decode_error, 'a) rust"
    and ok :: "'a \<Rightarrow> bool"
  assumes static_word: "ok v \<Longrightarrow> to_component v = Static b \<Longrightarrow> length b = 32"
    and static_decode: "ok v \<Longrightarrow> to_component v = Static b \<Longrightarrow> read_word us input off = Ok b \<Longrightarrow>
      decode input off = Ok v"
    and dynamic_decode: "ok v \<Longrightarrow> to_component v = Dynamic b \<Longrightarrow> us \<le> 16 \<Longrightarrow>
      read_usize us input off = Ok p \<Longrightarrow> length input < usize_bound us \<Longrightarrow>
      p + length b \<le> length input \<Longrightarrow> take (length b) (drop p input) = b \<Longrightarrow>
      decode input off = Ok v"
    and no_panic: "decode input off \<noteq> Panic"
    and unreadable: "read_word us input off = Err e \<Longrightarrow> decode input off = Err e"
begin

lemma head_len_ok: "ok v \<Longrightarrow> head_len (to_component v) = 32"
  by (cases "to_component v") (auto simp: head_len_def static_word)

text \<open>Decoding the slot of a value inside any tuple, with any bytes after it, gives the value back.\<close>

lemma decode_slot:
  fixes rest :: "byte list"
  assumes v: "ok v" and us: "us \<le> 16"
    and fits: "length (encode_tuple (pre @ to_component v # post) @ rest) < usize_bound us"
  shows "decode (encode_tuple (pre @ to_component v # post) @ rest) (heads_size pre) = Ok v"
proof (cases "to_component v")
  case (Static b)
  have b: "length b = 32" by (rule static_word [OF v Static])
  have "heads_size pre + 32 \<le> length (encode_tuple (pre @ Static b # post))"
    using b by (simp add: length_encode_tuple) (simp add: heads_size_def head_len_def)
  then have "read_word us (encode_tuple (pre @ Static b # post) @ rest) (heads_size pre) = Ok b"
    using fits Static encode_static_slot [of b pre post] b by (simp add: read_word_eq)
  then show ?thesis using static_decode [OF v Static] Static by simp
next
  case (Dynamic b)
  let ?cs = "pre @ Dynamic b # post"
  note slot = encode_dynamic_slot [where pre = pre and b = b and post = post]
  have len: "heads_size ?cs + length (tails pre) + length b \<le> length (encode_tuple ?cs)"
    by (simp add: length_encode_tuple)
  have h: "heads_size pre + 32 \<le> length (encode_tuple ?cs)"
    by (simp add: length_encode_tuple) (simp add: heads_size_def head_len_def)
  have "read_word us (encode_tuple ?cs @ rest) (heads_size pre) =
      Ok (word_from_usize (heads_size ?cs + length (tails pre)))"
    using fits Dynamic h slot(1) by (simp add: read_word_eq)
  moreover have "heads_size ?cs + length (tails pre) < usize_bound us"
    using len fits Dynamic by simp
  ultimately have "read_usize us (encode_tuple ?cs @ rest) (heads_size pre) =
      Ok (heads_size ?cs + length (tails pre))"
    using us by (rule read_usize_word)
  then show ?thesis
    using dynamic_decode [OF v Dynamic us, of "encode_tuple ?cs @ rest"] fits len slot(2) Dynamic
    by simp
qed

lemma decode_truncated:
  "length input < off + 32 \<Longrightarrow> off + 32 < usize_bound us \<Longrightarrow> decode input off = Err Truncated"
  by (simp add: unreadable read_word_eq)

lemma output_roundtrip:
  assumes "ok v" "us \<le> 16" "length (encode_output (to_component v)) < usize_bound us"
  shows "decode (encode_output (to_component v)) 0 = Ok v"
  using decode_slot [of v "[]" "[]" "[]"] assms by (simp add: encode_output_def heads_size_def)

end

subsection \<open>The types that satisfy it\<close>

text \<open>A word of \<open>n\<close> bytes, at most 16.\<close>

definition byte_word :: "'a :: len word \<Rightarrow> bool" where
  "byte_word v \<longleftrightarrow> 8 dvd LENGTH('a) \<and> LENGTH('a) \<le> 128"

lemma be_bytes_suffix:
  "m \<le> n \<Longrightarrow> drop (n - m) (be_bytes n v) = be_bytes m v"
proof (induction n arbitrary: m v)
  case (Suc n)
  show ?case
  proof (cases m)
    case (Suc k)
    then show ?thesis using Suc.IH [of k "v div 256"] Suc.prems by (simp add: diff_le_mono)
  qed simp
qed simp

lemma low_bytes_word:
  fixes w :: "'a :: len word"
  assumes "byte_word w" "length z = 16"
    and "unat v mod 2 ^ LENGTH('a) = unat w"
  shows "of_nat (be_val (drop (32 - LENGTH('a) div 8) (z @ be_bytes 16 (unat (v :: 128 word))))) = w"
proof -
  obtain n where n: "LENGTH('a) = 8 * n" "n \<le> 16"
    using assms(1) by (auto simp: byte_word_def elim!: dvdE)
  have "drop (32 - n) (z @ be_bytes 16 (unat v)) = be_bytes n (unat v)"
    using assms(2) n(2) be_bytes_suffix [of n 16 "unat v"] by simp
  moreover have "be_val (be_bytes n (unat v)) = unat w"
    using assms(3) by (simp add: be_val_be_bytes n(1) power_mult)
  ultimately show ?thesis by (simp add: n(1))
qed

lemma unat_word_less_128:
  "LENGTH('a :: len) \<le> 128 \<Longrightarrow> unat (v :: 'a word) < 340282366920938463463374607431768211456"
  using less_le_trans [OF unsigned_less [of v] power_increasing [of "LENGTH('a)" 128 "2 :: nat"]]
  by simp

interpretation uint: abi_codec us uint_to_component "uint_decode us"
  "byte_word :: 'a :: len word \<Rightarrow> bool" for us
proof
  fix v :: "'a word" and b input off
  assume v: "byte_word v" and c: "uint_to_component v = Static b"
    and r: "read_word us input off = Ok b"
  have "unat (ucast v :: 128 word) = unat v"
    using v unat_word_less_128 [of v]
    by (simp add: byte_word_def unsigned_ucast_eq take_bit_nat_eq_self)
  then show "uint_decode us input off = Ok v"
    using c r low_bytes_word [OF v, of "replicate 16 0" "ucast v"] unsigned_less [of v]
    by (auto simp: uint_decode_def uint_to_component_def word_from_u128_def)
qed (auto simp: uint_to_component_def uint_decode_def)


lemma unat_scast_mod:
  fixes v :: "'a :: len word"
  assumes "LENGTH('a) \<le> LENGTH('b)"
  shows "unat (scast v :: 'b :: len word) mod 2 ^ LENGTH('a) = unat v"
proof -
  have "n < LENGTH('a) \<Longrightarrow> LENGTH('a) - Suc 0 \<le> n \<Longrightarrow> n = LENGTH('a) - Suc 0" for n by simp
  then have "(ucast (scast v :: 'b word) :: 'a word) = v"
    using assms
    by (intro bit_word_eqI) (auto simp: bit_simps min_def)
  then show ?thesis by (metis take_bit_eq_mod unsigned_ucast_eq)
qed

interpretation int: abi_codec us int_to_component "int_decode us"
  "byte_word :: 'a :: len word \<Rightarrow> bool" for us
proof
  fix v :: "'a word" and b input off
  assume v: "byte_word v" and c: "int_to_component v = Static b"
    and r: "read_word us input off = Ok b"
  have m: "unat (scast v :: 128 word) mod 2 ^ LENGTH('a) = unat v"
    using v by (intro unat_scast_mod) (simp add: byte_word_def)
  show "int_decode us input off = Ok v"
    using c r low_bytes_word [OF v _ m, of "replicate 16 0"] low_bytes_word [OF v _ m, of "replicate 16 0xff"]
    by (auto simp: int_decode_def int_to_component_def word_from_i128_def)
qed (auto simp: int_to_component_def int_decode_def)

interpretation bool: abi_codec us bool_to_component "bool_decode us" "\<lambda>_. True" for us
proof
  fix v b input off
  assume c: "bool_to_component v = Static b" and r: "read_word us input off = Ok b"
  have "list_ex (\<lambda>b. b \<noteq> 0) (word_from_u128 (if v then 1 else 0)) = v"
    using be_val_be_bytes [of 16 "unat (if v then 1 else 0 :: 128 word)"]
      be_val_eq_0_iff [of "be_bytes 16 (unat (if v then 1 else 0 :: 128 word))"]
    by (cases v) (auto simp: word_from_u128_def list_ex_iff)
  then show "bool_decode us input off = Ok v"
    using c r by (simp add: bool_decode_def bool_to_component_def)
qed (auto simp: bool_to_component_def bool_decode_def)

interpretation bytes32: abi_codec us bytes32_to_component "bytes32_decode us" "\<lambda>b. length b = 32" for us
  by unfold_locales
     (auto simp: bytes32_to_component_def bytes32_decode_def read_word_no_panic)

interpretation u256: abi_codec us u256_to_component "u256_decode us" u256_ok for us
  by unfold_locales
     (auto simp: u256_to_component_def u256_decode_def u256_ok_def u256_to_be_bytes_def
       u256_from_be_bytes_def)

lemma decode_bytes_unreadable:
  "read_word us input off = Err e \<Longrightarrow> decode_bytes us input off = Err e"
  by (simp add: decode_bytes_def read_usize_def)

interpretation bytes: abi_codec us bytes_to_component "decode_bytes us" "\<lambda>_. True" for us
  by unfold_locales
     (auto simp: bytes_to_component_def decode_bytes_at decode_bytes_no_panic decode_bytes_unreadable)

interpretation string: abi_codec us string_to_component "string_decode us" utf8_valid for us
  by unfold_locales
     (auto simp: string_to_component_def string_decode_def decode_bytes_at decode_bytes_unreadable)

end
