(* ===== verification/Abi_Args.thy ===== *)
theory Abi_Args
  imports Abi_Codec
begin

text \<open>
  The users of the codec: \<open>std-evm/src/address.rs\<close>, argument lists (\<open>AbiDecodeArgs\<close>, the tuples of
  \<open>impl_decode_args!\<close>), \<open>std-evm/src/method.rs\<close> (decode, call, encode), \<open>guard.rs\<close>, and the revert
  payloads of \<open>std-evm-abi/src/revert.rs\<close>. A Rust tuple of arguments is a list of tagged values,
  one tag for each type that implements the traits, so that a tuple type is a list of tags.
\<close>

subsection \<open>Addresses (address.rs)\<close>

datatype address = Address (address_bytes: "byte list")

definition address_zero :: address where "address_zero = Address (replicate 20 0)"
definition address_from_be_bytes :: "byte list \<Rightarrow> address" where "address_from_be_bytes b = Address b"
definition address_to_be_bytes :: "address \<Rightarrow> byte list" where "address_to_be_bytes a = address_bytes a"

definition address_to_component :: "address \<Rightarrow> component" where
  "address_to_component a = Static (replicate 12 0 @ address_bytes a)"

definition address_decode :: "nat \<Rightarrow> byte list \<Rightarrow> nat \<Rightarrow> (decode_error, address) rust" where
  "address_decode us input offset =
     bind_rust (read_word us input offset) (\<lambda>word. Ok (Address (drop 12 word)))"

definition address_ok :: "address \<Rightarrow> bool" where "address_ok a \<longleftrightarrow> length (address_bytes a) = 20"

interpretation address: abi_codec us address_to_component "address_decode us" address_ok for us
  by unfold_locales
     (auto simp: address_to_component_def address_decode_def address_ok_def
      )

subsection \<open>Argument lists\<close>

datatype abi_kind =
  KU8 | KU16 | KU32 | KU64 | KU128 | KI8 | KI16 | KI32 | KI64 | KI128 | KBool | KBytes32 | KUint256 | KBytes | KStr | KAddr

datatype abi_value =
    VU8 "8 word"
  | VU16 "16 word"
  | VU32 "32 word"
  | VU64 "64 word"
  | VU128 "128 word"
  | VI8 "8 word"
  | VI16 "16 word"
  | VI32 "32 word"
  | VI64 "64 word"
  | VI128 "128 word"
  | VBool bool
  | VBytes32 "byte list"
  | VUint256 u256
  | VBytes "byte list"
  | VStr "byte list"
  | VAddr address

fun av_kind :: "abi_value \<Rightarrow> abi_kind" where
  "av_kind (VU8 _) = KU8"
| "av_kind (VU16 _) = KU16"
| "av_kind (VU32 _) = KU32"
| "av_kind (VU64 _) = KU64"
| "av_kind (VU128 _) = KU128"
| "av_kind (VI8 _) = KI8"
| "av_kind (VI16 _) = KI16"
| "av_kind (VI32 _) = KI32"
| "av_kind (VI64 _) = KI64"
| "av_kind (VI128 _) = KI128"
| "av_kind (VBool _) = KBool"
| "av_kind (VBytes32 _) = KBytes32"
| "av_kind (VUint256 _) = KUint256"
| "av_kind (VBytes _) = KBytes"
| "av_kind (VStr _) = KStr"
| "av_kind (VAddr _) = KAddr"

fun av_component :: "abi_value \<Rightarrow> component" where
  "av_component (VU8 v) = uint_to_component v"
| "av_component (VU16 v) = uint_to_component v"
| "av_component (VU32 v) = uint_to_component v"
| "av_component (VU64 v) = uint_to_component v"
| "av_component (VU128 v) = uint_to_component v"
| "av_component (VI8 v) = int_to_component v"
| "av_component (VI16 v) = int_to_component v"
| "av_component (VI32 v) = int_to_component v"
| "av_component (VI64 v) = int_to_component v"
| "av_component (VI128 v) = int_to_component v"
| "av_component (VBool v) = bool_to_component v"
| "av_component (VBytes32 v) = bytes32_to_component v"
| "av_component (VUint256 v) = u256_to_component v"
| "av_component (VBytes v) = bytes_to_component v"
| "av_component (VStr v) = string_to_component v"
| "av_component (VAddr v) = address_to_component v"

fun av_decode :: "nat \<Rightarrow> abi_kind \<Rightarrow> byte list \<Rightarrow> nat \<Rightarrow> (decode_error, abi_value) rust" where
  "av_decode us KU8 input offset = map_ok VU8 (uint_decode us input offset)"
| "av_decode us KU16 input offset = map_ok VU16 (uint_decode us input offset)"
| "av_decode us KU32 input offset = map_ok VU32 (uint_decode us input offset)"
| "av_decode us KU64 input offset = map_ok VU64 (uint_decode us input offset)"
| "av_decode us KU128 input offset = map_ok VU128 (uint_decode us input offset)"
| "av_decode us KI8 input offset = map_ok VI8 (int_decode us input offset)"
| "av_decode us KI16 input offset = map_ok VI16 (int_decode us input offset)"
| "av_decode us KI32 input offset = map_ok VI32 (int_decode us input offset)"
| "av_decode us KI64 input offset = map_ok VI64 (int_decode us input offset)"
| "av_decode us KI128 input offset = map_ok VI128 (int_decode us input offset)"
| "av_decode us KBool input offset = map_ok VBool (bool_decode us input offset)"
| "av_decode us KBytes32 input offset = map_ok VBytes32 (bytes32_decode us input offset)"
| "av_decode us KUint256 input offset = map_ok VUint256 (u256_decode us input offset)"
| "av_decode us KBytes input offset = map_ok VBytes (decode_bytes us input offset)"
| "av_decode us KStr input offset = map_ok VStr (string_decode us input offset)"
| "av_decode us KAddr input offset = map_ok VAddr (address_decode us input offset)"

text \<open>What the Rust types guarantee: array lengths, and the UTF-8 of a \<open>String\<close>.\<close>

fun av_ok :: "abi_value \<Rightarrow> bool" where
  "av_ok (VBytes32 b) = (length b = 32)"
| "av_ok (VUint256 u) = u256_ok u"
| "av_ok (VStr s) = utf8_valid s"
| "av_ok (VAddr a) = address_ok a"
| "av_ok _ = True"

lemma byte_word_prims [simp]:
  "byte_word (w8 :: 8 word)" "byte_word (w16 :: 16 word)" "byte_word (w32 :: 32 word)"
  "byte_word (w64 :: 64 word)" "byte_word (w128 :: 128 word)"
  by (simp_all add: byte_word_def)

lemmas static_word_laws =
  uint.static_word int.static_word bool.static_word bytes32.static_word u256.static_word bytes.static_word string.static_word address.static_word

lemmas static_decode_laws =
  uint.static_decode int.static_decode bool.static_decode bytes32.static_decode u256.static_decode bytes.static_decode string.static_decode address.static_decode

lemmas dynamic_decode_laws =
  uint.dynamic_decode int.dynamic_decode bool.dynamic_decode bytes32.dynamic_decode u256.dynamic_decode bytes.dynamic_decode string.dynamic_decode address.dynamic_decode

lemmas no_panic_laws =
  uint.no_panic int.no_panic bool.no_panic bytes32.no_panic u256.no_panic bytes.no_panic string.no_panic address.no_panic

lemmas unreadable_laws =
  uint.unreadable int.unreadable bool.unreadable bytes32.unreadable u256.unreadable bytes.unreadable string.unreadable address.unreadable

interpretation any: abi_codec us av_component "av_decode us k" "\<lambda>v. av_kind v = k \<and> av_ok v" for us k
proof
  fix v b
  assume "av_kind v = k \<and> av_ok v" "av_component v = Static b"
  then show "length b = 32" by (cases v) (auto dest: static_word_laws [rotated])
next
  fix v b input off
  assume "av_kind v = k \<and> av_ok v" "av_component v = Static b" "read_word us input off = Ok b"
  then show "av_decode us k input off = Ok v"
    by (cases v) (auto simp: static_decode_laws)
next
  fix v b input off p
  assume "av_kind v = k \<and> av_ok v" "av_component v = Dynamic b" "us \<le> 16"
    "read_usize us input off = Ok p" "length input < usize_bound us" "p + length b \<le> length input"
    "take (length b) (drop p input) = b"
  then show "av_decode us k input off = Ok v"
    by (cases v) (auto simp: dynamic_decode_laws)
next
  fix input off
  show "av_decode us k input off \<noteq> Panic" by (cases k) (auto simp: no_panic_laws)
next
  fix input off e
  assume "read_word us input off = Err e"
  then show "av_decode us k input off = Err e" by (cases k) (auto simp: unreadable_laws)
qed

text \<open>\<open>decode_args\<close> of the tuple type \<open>(k0, k1, ...)\<close>: argument \<open>i\<close> from slot \<open>32 * i\<close>, the first
  error returned by \<open>?\<close>. The macro makes the instances of up to eight arguments.\<close>

fun decode_args_from :: "nat \<Rightarrow> nat \<Rightarrow> abi_kind list \<Rightarrow> byte list \<Rightarrow> (decode_error, abi_value list) rust" where
  "decode_args_from us i [] calldata = Ok []"
| "decode_args_from us i (k # ks) calldata =
     bind_rust (av_decode us k calldata (32 * i)) (\<lambda>v.
     bind_rust (decode_args_from us (i + 1) ks calldata) (\<lambda>vs. Ok (v # vs)))"

definition decode_args :: "nat \<Rightarrow> abi_kind list \<Rightarrow> byte list \<Rightarrow> (decode_error, abi_value list) rust" where
  "decode_args us ks calldata = decode_args_from us 0 ks calldata"

text \<open>A method's output: nothing, or one value.\<close>

datatype abi_output = Unit | Value abi_value

fun output_bytes :: "abi_output \<Rightarrow> byte list" where
  "output_bytes Unit = encode_output_unit"
| "output_bytes (Value v) = encode_output (av_component v)"

text \<open>The default body of \<open>Method::dispatch\<close>. The method itself, \<open>Self::call\<close>, is the contract's
  code: a parameter that may change the state of the chain, \<open>None\<close> when it panics.\<close>

definition method_dispatch ::
  "nat \<Rightarrow> abi_kind list \<Rightarrow> (abi_value list \<Rightarrow> 's \<Rightarrow> (abi_output \<times> 's) option) \<Rightarrow> byte list \<Rightarrow>
     's \<Rightarrow> (decode_error, byte list \<times> 's) rust" where
  "method_dispatch us ks call calldata st =
     bind_rust (decode_args us ks calldata) (\<lambda>args.
       case call args st of None \<Rightarrow> Panic | Some (out, st') \<Rightarrow> Ok (output_bytes out, st'))"

text \<open>\<open>contract.rs\<close>, \<open>dispatch.rs\<close> and \<open>guard.rs\<close>: the answer to an unmatched selector is empty, and
  the call-value guard is, in this commit, an empty body.\<close>

definition no_matching_method :: "byte list" where "no_matching_method = []"

definition guard_not_payable :: "unit \<Rightarrow> unit" where "guard_not_payable u = ()"

subsection \<open>Revert payloads (revert.rs)\<close>

definition ERROR_SELECTOR :: "byte list" where "ERROR_SELECTOR = [0x08, 0xc3, 0x79, 0xa0]"
definition PANIC_SELECTOR :: "byte list" where "PANIC_SELECTOR = [0x4e, 0x48, 0x7b, 0x71]"

definition encode_error :: "byte list \<Rightarrow> byte list" where
  "encode_error reason = ERROR_SELECTOR @ encode_tuple [string_to_component reason]"

definition encode_panic :: "u256 \<Rightarrow> byte list" where
  "encode_panic code = PANIC_SELECTOR @ encode_tuple [u256_to_component code]"

subsection \<open>What argument lists guarantee\<close>

lemma heads_size_values:
  "list_all av_ok vs \<Longrightarrow> heads_size (map av_component vs) = 32 * length vs"
proof (induction vs)
  case (Cons v vs)
  then show ?case using any.head_len_ok [where v = v and k = "av_kind v"] by (simp add: heads_size_def)
qed (simp add: heads_size_def)

lemma decode_args_from_encode:
  assumes "list_all av_ok (done @ vs)" "us \<le> 16"
    and "length (encode_tuple (map av_component (done @ vs)) @ rest) < usize_bound us"
  shows "decode_args_from us (length done) (map av_kind vs)
      (encode_tuple (map av_component (done @ vs)) @ rest) = Ok vs"
  using assms
proof (induction vs arbitrary: "done")
  case (Cons v vs)
  have "av_decode us (av_kind v) (encode_tuple (map av_component (done @ v # vs)) @ rest)
      (32 * length done) = Ok v"
    using Cons.prems any.decode_slot [where v = v and k = "av_kind v" and us = us and rest = rest
      and pre = "map av_component done" and post = "map av_component vs"] by (simp add: heads_size_values)
  moreover have "decode_args_from us (length (done @ [v])) (map av_kind vs)
      (encode_tuple (map av_component ((done @ [v]) @ vs)) @ rest) = Ok vs"
    using Cons.prems by (intro Cons.IH) auto
  ultimately show ?case by simp
qed simp

lemma decode_args_encode:
  assumes "list_all av_ok vs" "us \<le> 16"
    and "length (encode_tuple (map av_component vs) @ rest) < usize_bound us"
  shows "decode_args us (map av_kind vs) (encode_tuple (map av_component vs) @ rest) = Ok vs"
  using decode_args_from_encode [of "[]" vs us rest] assms by (simp add: decode_args_def)

lemma decode_args_from_no_panic: "decode_args_from us i ks calldata \<noteq> Panic"
  by (induction us i ks calldata rule: decode_args_from.induct) (auto simp: any.no_panic)

lemma decode_args_from_Err:
  "decode_args_from us i ks calldata = Err e \<longleftrightarrow>
     (\<exists>j < length ks. av_decode us (ks ! j) calldata (32 * (i + j)) = Err e \<and>
        (\<forall>l < j. \<exists>v. av_decode us (ks ! l) calldata (32 * (i + l)) = Ok v))"
proof (induction us i ks calldata rule: decode_args_from.induct)
  case (2 us i k ks calldata)
  show ?case
  proof (cases "av_decode us k calldata (32 * i)")
    case (Ok v)
    then show ?thesis
      using 2 [OF Ok]
      by (cases "decode_args_from us (i + 1) ks calldata")
         (auto simp: Ex_less_Suc2 All_less_Suc2 simp del: mult_Suc_right distrib_left_numeral)
  qed (use any.no_panic in \<open>auto simp: Ex_less_Suc2 All_less_Suc2\<close>)
qed simp

lemma av_decode_kind: "av_decode us k input off = Ok v \<Longrightarrow> av_kind v = k"
  by (cases k) (auto simp: map_ok_Ok_iff)

lemma av_decode_read: "av_decode us k input off = Ok v \<Longrightarrow> off + 32 \<le> length input"
  using any.unreadable [where k = k and us = us and input = input and off = off]
  by (force simp: read_word_eq split: if_splits)

lemma decode_args_from_Ok:
  "decode_args_from us i ks calldata = Ok vs \<Longrightarrow>
     map av_kind vs = ks \<and> (ks \<noteq> [] \<longrightarrow> 32 * (i + length ks) \<le> length calldata)"
proof (induction us i ks calldata arbitrary: vs rule: decode_args_from.induct)
  case (2 us i k ks calldata)
  then obtain v ws where v: "av_decode us k calldata (32 * i) = Ok v" "vs = v # ws"
    and ws: "decode_args_from us (i + 1) ks calldata = Ok ws"
    by (auto simp: bind_rust_Ok_iff)
  show ?case
    using "2.IH" [OF v(1) ws] av_decode_kind [OF v(1)] av_decode_read [OF v(1)] v(2)
    by (cases "ks = []") auto
qed simp

text \<open>\<open>std-evm/src/method.rs\<close> and the codec: calling a method with the encoding of arguments of its
  types, whatever bytes follow them, runs it on exactly those arguments; the caller decodes the
  value it returned from the bytes it answers.\<close>

theorem method_call_roundtrip:
  assumes "list_all av_ok vs" "us \<le> 16"
    and "length (encode_tuple (map av_component vs) @ rest) < usize_bound us"
    and "call vs st = Some (Value w, st')" "av_ok w"
    and "length (encode_output (av_component w)) < usize_bound us"
  shows "\<exists>out. method_dispatch us (map av_kind vs) call (encode_tuple (map av_component vs) @ rest) st =
      Ok (out, st') \<and> av_decode us (av_kind w) out 0 = Ok w"
  using assms any.output_roundtrip [where v = w and k = "av_kind w" and us = us]
  by (simp add: method_dispatch_def decode_args_encode)

theorem method_call_roundtrip_witness:
  "\<exists>out. method_dispatch 4 [KU8, KStr, KBool]
       (\<lambda>vs st. Some (Value (hd (tl vs)), Suc st))
       (encode_tuple (map av_component [VU8 7, VStr [0x68, 0xc3, 0xa9], VBool True]) @ [1, 2]) 0 = Ok (out, 1)
     \<and> av_decode 4 KStr out 0 = Ok (VStr [0x68, 0xc3, 0xa9])"
  using method_call_roundtrip
    [of "[VU8 7, VStr [0x68, 0xc3, 0xa9], VBool True]" 4 "[1, 2]"
      "\<lambda>vs st. Some (Value (hd (tl vs)), Suc st)" 0 "VStr [0x68, 0xc3, 0xa9]" 1]
  by (simp add: cont_def length_encode_tuple heads_size_def head_len_def usize_bound_def encode_output_def
      uint_to_component_def string_to_component_def bool_to_component_def encode_bytes_def)

text \<open>C27 \<open>AbiDecodeArgs\<close> on arbitrary calldata: decoding never panics, reports the error of the first
  argument that has one, and on success gives one value of each type, from calldata that holds
  every head slot.\<close>

theorem decode_args_total:
  "decode_args us ks calldata \<noteq> Panic
   \<and> (decode_args us ks calldata = Err e \<longleftrightarrow>
       (\<exists>i < length ks. av_decode us (ks ! i) calldata (32 * i) = Err e
          \<and> (\<forall>j < i. \<exists>v. av_decode us (ks ! j) calldata (32 * j) = Ok v)))
   \<and> (decode_args us ks calldata = Ok vs \<longrightarrow>
       map av_kind vs = ks \<and> 32 * length ks \<le> length calldata)"
  using decode_args_from_Ok [of us 0 ks calldata vs]
  by (cases "ks = []")
     (simp_all add: decode_args_def decode_args_from_Err decode_args_from_no_panic)

theorem decode_args_total_witness:
  "decode_args 4 [KBool, KU8] (replicate 40 0) = Err Truncated
   \<and> map av_kind [VBool True] = [KBool] \<and> 32 * length [KBool] \<le> length (replicate 32 (1 :: byte))"
proof -
  note d = decode_args_def bool_decode_def uint_decode_def read_word_eq usize_bound_def list_ex_iff
  have "decode_args 4 [KBool] (replicate 32 (1 :: byte)) = Ok [VBool True]" by (simp add: d)
  moreover have "av_decode 4 KU8 (replicate 40 0) 32 = Err Truncated" by (simp add: d)
  moreover have "av_decode 4 KBool (replicate 40 0) 0 = Ok (VBool False)" by (simp add: d)
  ultimately show ?thesis
    using decode_args_total [of 4 "[KBool]" "replicate 32 1" Truncated "[VBool True]"]
      decode_args_total [of 4 "[KBool, KU8]" "replicate 40 0" Truncated "[]"]
    by (auto intro!: exI [of _ 1])
qed

subsection \<open>Integers in a slot\<close>

lemma be_val_ff: "be_val (replicate n 0xff) + 1 = 256 ^ n"
proof (induction n)
  case (Suc n)
  have "unat (0xff :: byte) = 255" by simp
  then show ?case using Suc.IH by (simp only: replicate_Suc be_val.simps length_replicate) simp
qed simp

lemma be_val_word_from_u128: "be_val (word_from_u128 v) = unat v"
  using be_val_be_bytes_word [of 16 v] by (simp add: word_from_u128_def)

lemma be_val_word_from_i128: "int (be_val (word_from_i128 v)) = sint v mod 2 ^ 256"
proof -
  have b: "- (2 ^ 127) \<le> sint v" "sint v < 2 ^ 127" using sint_ge [of v] sint_lt [of v] by simp_all
  have u: "int (unat v) = sint v mod 2 ^ 128" using uint_sint [of v] by (simp add: take_bit_eq_mod)
  show ?thesis
  proof (cases "v <s 0")
    case True
    then have neg: "sint v < 0" by (simp add: word_sless_alt)
    have "sint v mod 2 ^ 128 = sint v + 2 ^ 128"
      using neg b mod_pos_pos_trivial [of "sint v + 2 ^ 128" "2 ^ 128"] by simp
    moreover have "sint v mod 2 ^ 256 = sint v + 2 ^ 256"
      using neg b mod_pos_pos_trivial [of "sint v + 2 ^ 256" "2 ^ 256"] by simp
    moreover have "int (be_val (word_from_i128 v)) = int (be_val (replicate 16 0xff)) * 2 ^ 128 + int (unat v)"
      using True be_val_be_bytes_word [of 16 v]
      by (simp only: word_from_i128_def if_True be_val_append length_be_bytes) simp
    moreover have "int (be_val (replicate 16 0xff)) = 2 ^ 128 - 1"
      using arg_cong [OF be_val_ff [of 16], of int] by (simp only: of_nat_add of_nat_power) simp
    ultimately show ?thesis using u by (simp only:) simp
  next
    case False
    then have nn: "0 \<le> sint v" by (simp add: word_sless_alt)
    then show ?thesis
      using u b False be_val_be_bytes_word [of 16 v]
      by (simp add: word_from_i128_def be_val_append)
  qed
qed

lemma sint_scast_up: "LENGTH('a) \<le> LENGTH('b) \<Longrightarrow> sint (scast (v :: 'a :: len word) :: 'b :: len word) = sint v"
  by (rule bit_eqI) (auto simp: bit_simps min_def)

lemma of_nat_be_val_low:
  assumes "byte_word (v :: 'a :: len word)" "length w = 32"
  shows "(of_nat (be_val (drop (32 - LENGTH('a) div 8) w)) :: 'a word) = of_nat (be_val w)"
proof -
  obtain n where n: "LENGTH('a) = 8 * n" "n \<le> 16"
    using assms(1) by (auto simp: byte_word_def elim!: dvdE)
  have "be_val w = be_val (take (32 - n) w) * 256 ^ n + be_val (drop (32 - n) w)"
    using be_val_append [of "take (32 - n) w" "drop (32 - n) w"] assms(2) n(2) by simp
  moreover have "(256 :: 'a word) ^ n = 0"
    using word_exp_length_eq_0 [where 'a = 'a] by (simp add: n(1) power_mult)
  ultimately show ?thesis by (simp add: n(1))
qed

definition slot_value :: "component \<Rightarrow> nat" where
  "slot_value c = (case c of Static b \<Rightarrow> be_val b | Dynamic _ \<Rightarrow> 0)"

text \<open>C38 The integer implementations of the traits: the slot of a Rust integer holds its value as a
  256-bit two's complement number, and decoding any readable slot gives the number in it wrapped to
  the Rust type, so that dirty upper bytes are dropped and never an error.\<close>

theorem slots_are_twos_complement:
  fixes v :: "'a :: len word"
  assumes "byte_word v"
  shows "slot_value (uint_to_component v) = unat v
    \<and> int (slot_value (int_to_component v)) = sint v mod 2 ^ 256
    \<and> uint_decode us input off =
        map_ok (\<lambda>w. of_nat (be_val w) :: 'a word) (read_word us input off)
    \<and> int_decode us input off =
        map_ok (\<lambda>w. of_nat (be_val w) :: 'a word) (read_word us input off)"
proof -
  have l: "LENGTH('a) \<le> 128" using assms by (simp add: byte_word_def)
  have "unat (ucast v :: 128 word) = unat v"
    using unat_word_less_128 [OF l, of v] by (simp add: unsigned_ucast_eq take_bit_nat_eq_self)
  moreover have "sint (scast v :: 128 word) = sint v" using l by (simp add: sint_scast_up)
  moreover have "bind_rust (read_word us input off)
      (\<lambda>w. Ok (of_nat (be_val (drop (32 - LENGTH('a) div 8) w)) :: 'a word)) =
      map_ok (\<lambda>w. of_nat (be_val w) :: 'a word) (read_word us input off)"
    using of_nat_be_val_low [OF assms] read_word_length [of us input off]
    by (cases "read_word us input off") auto
  ultimately show ?thesis
    by (simp add: slot_value_def uint_to_component_def int_to_component_def be_val_word_from_u128
        be_val_word_from_i128 uint_decode_def int_decode_def)
qed

theorem slots_are_twos_complement_witness:
  "int (slot_value (int_to_component (- 1 :: 8 word))) = 2 ^ 256 - 1"
  using slots_are_twos_complement [of "- 1 :: 8 word"] by simp

end
