(* ===== verification/Abi_Spec.thy ===== *)
theory Abi_Spec
  imports Abi_Args
begin

text \<open>
  The encoder against the Solidity ABI. The reference below is written from the specification's
  formulas over mathematical integers, with no reference to the code's buffers: a value type is its
  256-bit two's complement word, a byte string its length, its bytes and zeros up to a whole word, and a
  tuple the heads of its components followed by their tails, where the head of a dynamic component is
  the distance of its tail from the start.
\<close>

subsection \<open>The specification\<close>

definition sol_word :: "int \<Rightarrow> byte list" where
  "sol_word z = be_bytes 32 (nat (z mod 2 ^ 256))"

fun sol_number :: "abi_value \<Rightarrow> int" where
  "sol_number (VU8 v) = uint v"
| "sol_number (VU16 v) = uint v"
| "sol_number (VU32 v) = uint v"
| "sol_number (VU64 v) = uint v"
| "sol_number (VU128 v) = uint v"
| "sol_number (VI8 v) = sint v"
| "sol_number (VI16 v) = sint v"
| "sol_number (VI32 v) = sint v"
| "sol_number (VI64 v) = sint v"
| "sol_number (VI128 v) = sint v"
| "sol_number (VBool v) = of_bool v"
| "sol_number (VBytes32 v) = int (be_val v)"
| "sol_number (VUint256 v) = int (be_val (u256_bytes v))"
| "sol_number (VAddr v) = int (be_val (address_to_be_bytes v))"
| "sol_number _ = 0"

fun sol_bytes :: "abi_value \<Rightarrow> byte list option" where
  "sol_bytes (VBytes b) = Some b"
| "sol_bytes (VStr b) = Some b"
| "sol_bytes _ = None"

definition sol_encode :: "abi_value \<Rightarrow> byte list" where
  "sol_encode v =
     (case sol_bytes v of
        None \<Rightarrow> sol_word (sol_number v)
      | Some b \<Rightarrow> sol_word (int (length b)) @ b @ replicate ((32 - length b mod 32) mod 32) 0)"

definition sol_tail :: "abi_value \<Rightarrow> byte list" where
  "sol_tail v = (if sol_bytes v = None then [] else sol_encode v)"

definition sol_head :: "abi_value list \<Rightarrow> nat \<Rightarrow> byte list" where
  "sol_head vs i =
     (if sol_bytes (vs ! i) = None then sol_encode (vs ! i)
      else sol_word (int (32 * length vs + (\<Sum>j<i. length (sol_tail (vs ! j))))))"

definition sol_tuple :: "abi_value list \<Rightarrow> byte list" where
  "sol_tuple vs = concat (map (sol_head vs) [0..<length vs]) @ concat (map sol_tail vs)"

subsection \<open>Words\<close>

lemma sol_wordI: "length w = 32 \<Longrightarrow> int (be_val w) = z mod 2 ^ 256 \<Longrightarrow> w = sol_word z"
  unfolding sol_word_def by (metis be_bytes_be_val nat_int)

lemma word_u128: "word_from_u128 v = sol_word (uint v)"
proof (rule sol_wordI)
  have "uint v < 2 ^ 128" using uint_lt2p [of v] by simp
  then show "int (be_val (word_from_u128 v)) = uint v mod 2 ^ 256"
    using uint_ge_0 [of v] by (simp add: be_val_word_from_u128)
qed simp

lemma word_i128: "word_from_i128 v = sol_word (sint v)"
  by (rule sol_wordI) (simp_all add: be_val_word_from_i128)

lemma word_usize: "n < 2 ^ 128 \<Longrightarrow> word_from_usize n = sol_word (int n)"
  by (simp add: word_from_usize_def word_u128 uint_nat unat_of_nat take_bit_eq_mod)

lemma word_bytes: "length b \<le> 32 \<Longrightarrow> replicate (32 - length b) 0 @ b = sol_word (int (be_val b))"
proof (rule sol_wordI)
  assume "length b \<le> 32"
  then have "be_val b < 256 ^ 32"
    using be_val_bound [of b] power_increasing [of "length b" 32 "256 :: nat"] by simp
  then have "int (be_val b) < 2 ^ 256" by simp
  then show "int (be_val (replicate (32 - length b) 0 @ b)) = int (be_val b) mod 2 ^ 256" by simp
qed simp

lemma bytes_word:
  "length b = 32 \<Longrightarrow> b = sol_word (int (be_val b))"
  "length b = 20 \<Longrightarrow> replicate 12 0 @ b = sol_word (int (be_val b))"
  using word_bytes [of b] by simp_all

lemma uint_component:
  assumes "LENGTH('a) \<le> 128"
  shows "uint_to_component (v :: 'a :: len word) = Static (sol_word (uint v))"
proof -
  have "unat (ucast v :: 128 word) = unat v"
    using unat_word_less_128 [OF assms, of v] by (simp add: unsigned_ucast_eq take_bit_nat_eq_self)
  then show ?thesis by (simp only: uint_to_component_def word_u128 uint_nat)
qed

lemma int_component:
  "LENGTH('a) \<le> 128 \<Longrightarrow> int_to_component (v :: 'a :: len word) = Static (sol_word (sint v))"
  by (simp add: int_to_component_def word_i128 sint_scast_up)

lemma pad_width: "(let r = n mod 32 in if r \<noteq> 0 then replicate (32 - r) x else []) =
    replicate ((32 - n mod 32) mod 32) x" for n :: nat
  by (cases "n mod 32 = 0") (simp_all add: Let_def)

lemma bytes_encoding: "length b < 2 ^ 128 \<Longrightarrow>
    encode_bytes b = sol_word (int (length b)) @ b @ replicate ((32 - length b mod 32) mod 32) 0"
  by (simp only: encode_bytes_def word_usize pad_width)

lemma av_component_spec:
  assumes "av_ok v" "\<forall>b. sol_bytes v = Some b \<longrightarrow> length b < 2 ^ 128"
  shows "av_component v = (if sol_bytes v = None then Static (sol_encode v) else Dynamic (sol_encode v))"
proof (cases v)
  case (VBytes32 b)
  then show ?thesis using assms bytes_word(1) [of b] by (simp add: sol_encode_def bytes32_to_component_def)
next
  case (VUint256 u)
  then show ?thesis
    using assms bytes_word(1) [of "u256_bytes u"]
    by (simp add: sol_encode_def u256_to_component_def u256_to_be_bytes_def u256_ok_def)
next
  case (VAddr a)
  then show ?thesis
    using assms bytes_word(2) [of "address_bytes a"]
    by (simp add: sol_encode_def address_to_component_def address_to_be_bytes_def address_ok_def)
qed (use assms in \<open>simp_all add: sol_encode_def uint_component int_component bool_to_component_def
    word_u128 bytes_to_component_def string_to_component_def bytes_encoding\<close>)

subsection \<open>Tuples\<close>

lemma length_sol_word [simp]: "length (sol_word z) = 32"
  by (simp add: sol_word_def)

text \<open>The heads from position \<open>i\<close> on, with the offset the loop has reached there.\<close>

lemma heads_spec:
  assumes "list_all av_ok vs" "\<forall>v \<in> set vs. \<forall>b. sol_bytes v = Some b \<longrightarrow> length b < 2 ^ 128"
    and "\<forall>i < length vs. off + (\<Sum>j<i. length (sol_tail (vs ! j))) < 2 ^ 128"
  shows "heads off (map av_component vs) =
      concat (map (\<lambda>i. if sol_bytes (vs ! i) = None then sol_encode (vs ! i)
        else sol_word (int (off + (\<Sum>j<i. length (sol_tail (vs ! j)))))) [0..<length vs])
    \<and> tails (map av_component vs) = concat (map sol_tail vs)"
  using assms
proof (induction vs arbitrary: off)
  case (Cons v vs)
  let ?off = "off + length (sol_tail v)"
  have sum: "(\<Sum>j<Suc i. length (sol_tail ((v # vs) ! j))) =
      length (sol_tail v) + (\<Sum>j<i. length (sol_tail (vs ! j)))" for i
    by (simp add: sum.lessThan_Suc_shift del: sum.lessThan_Suc)
  have b: "?off + (\<Sum>j<i. length (sol_tail (vs ! j))) < 2 ^ 128" if "i < length vs" for i
    using Cons.prems(3) [rule_format, of "Suc i"] that by (simp only: sum) simp
  have c: "av_component v = (if sol_bytes v = None then Static (sol_encode v) else Dynamic (sol_encode v))"
    using Cons.prems by (intro av_component_spec) simp_all
  have o: "off < 2 ^ 128" using Cons.prems(3) [rule_format, of 0] by simp
  have "[0..<length (v # vs)] = 0 # map Suc [0..<length vs]"
    by (simp add: map_Suc_upt upt_conv_Cons del: upt_Suc)
  moreover have "sol_tail v = (if sol_bytes v = None then [] else sol_encode v)" by (simp add: sol_tail_def)
  moreover have "heads ?off (map av_component vs) =
      concat (map (\<lambda>i. if sol_bytes (vs ! i) = None then sol_encode (vs ! i)
        else sol_word (int (?off + (\<Sum>j<i. length (sol_tail (vs ! j)))))) [0..<length vs])"
    "tails (map av_component vs) = concat (map sol_tail vs)"
    using Cons.IH [of ?off] Cons.prems(1,2) b by auto
  ultimately show ?case
    using c word_usize [OF o]
    by (cases "sol_bytes v = None") (auto simp add: sum add.assoc comp_def simp del: upt_Suc sum.lessThan_Suc
        of_nat_add of_nat_sum cong: if_cong)
qed simp

lemma heads_size_spec: "list_all av_ok vs \<Longrightarrow> heads_size (map av_component vs) = 32 * length vs"
  by (rule heads_size_values)

text \<open>C9 \<open>encode_tuple\<close> is the ABI's encoding: for values of every primitive type, whose encoding fits
  the address space, the bytes are those of the specification, heads and tails, offsets and padding
  included.\<close>

theorem encoding_is_the_abi:
  assumes "list_all av_ok vs" "length (sol_tuple vs) < 2 ^ 128"
  shows "encode_tuple (map av_component vs) = sol_tuple vs"
proof -
  let ?t = "concat (map sol_tail vs)"
  have sum: "(\<Sum>j<i. length (sol_tail (vs ! j))) \<le> length ?t" if "i \<le> length vs" for i
  proof -
    have "(\<Sum>j<i. length (sol_tail (vs ! j))) = length (concat (map sol_tail (take i vs)))"
      using that by (simp add: length_concat sum_list_sum_nth atLeast0LessThan comp_def)
    also have "\<dots> \<le> length (concat (map sol_tail (take i vs)) @ concat (map sol_tail (drop i vs)))" by simp
    also have "\<dots> = length ?t" by (metis append_take_drop_id concat_append map_append)
    finally show ?thesis .
  qed
  have "length (sol_head vs i) = 32" for i
    by (simp add: sol_head_def sol_encode_def split: option.split)
  then have n: "length (concat (map (sol_head vs) [0..<length vs])) = 32 * length vs"
    by (simp add: length_concat comp_def sum_list_triv)
  have len: "32 * length vs + length ?t < 2 ^ 128"
    using assms(2) n by (simp only: sol_tuple_def length_append)
  have "length b < 2 ^ 128" if v: "v \<in> set vs" "sol_bytes v = Some b" for v b
  proof -
    have "length b \<le> length (sol_tail v)" using v(2) by (simp add: sol_tail_def sol_encode_def)
    also have "\<dots> \<le> length ?t" using v(1) by (simp add: length_concat member_le_sum_list)
    finally show ?thesis using len by linarith
  qed
  moreover have "32 * length vs + (\<Sum>j<i. length (sol_tail (vs ! j))) < 2 ^ 128" if "i < length vs" for i
    using sum [of i] that len by linarith
  ultimately show ?thesis
    using heads_spec [OF assms(1), of "32 * length vs"] heads_size_spec [OF assms(1)]
    by (simp add: encode_tuple_eq sol_tuple_def sol_head_def [abs_def])
qed

theorem encoding_is_the_abi_witness:
  "encode_tuple (map av_component [VU8 5, VBytes [1, 2], VI8 (- 1)]) = sol_tuple [VU8 5, VBytes [1, 2], VI8 (- 1)]"
  by (rule encoding_is_the_abi)
     (simp_all add: sol_tuple_def sol_head_def sol_tail_def sol_encode_def upt_rec)

end
