(* ===== verification/Macro_Signature.thy ===== *)
theory Macro_Signature
  imports Abi_Args
begin

text \<open>
  The names a contract answers to: \<open>std-evm-abi/src/types.rs\<close> (Solidity type names and
  camelCase), \<open>selector.rs\<close>, and \<open>std-evm-macros/src/signature.rs\<close> and \<open>attrs.rs\<close>. The parts of the
  \<open>syn\<close> syntax tree the macros look at are data types: a type is a path, a reference or something
  else, a method has attributes and inputs. Identifiers are ASCII. Keccak-256 (the crate
  \<open>tiny_keccak\<close>) is the parameter \<open>keccak\<close>.
\<close>

subsection \<open>Names (types.rs)\<close>

definition solidity_type_name :: "string \<Rightarrow> string" where
  "solidity_type_name rust_ident =
     (if rust_ident = ''u8'' then ''uint8''
      else if rust_ident = ''u16'' then ''uint16''
      else if rust_ident = ''u32'' then ''uint32''
      else if rust_ident = ''u64'' then ''uint64''
      else if rust_ident = ''u128'' then ''uint128''
      else if rust_ident = ''i8'' then ''int8''
      else if rust_ident = ''i16'' then ''int16''
      else if rust_ident = ''i32'' then ''int32''
      else if rust_ident = ''i64'' then ''int64''
      else if rust_ident = ''i128'' then ''int128''
      else if rust_ident = ''bool'' then ''bool''
      else if rust_ident = ''U256'' then ''uint256''
      else if rust_ident = ''Address'' then ''address''
      else if rust_ident = ''Bytes32'' then ''bytes32''
      else ''bytes32'')"

text \<open>\<open>str::split('_')\<close>: the segments between underscores, at least one.\<close>

definition us_char :: char where "us_char = CHR ''_''"

fun split_us :: "string \<Rightarrow> string list" where
  "split_us [] = [[]]"
| "split_us (c # cs) =
     (if c = us_char then [] # split_us cs
      else case split_us cs of [] \<Rightarrow> [[c]] | s # ss \<Rightarrow> (c # s) # ss)"

definition to_upper :: "char \<Rightarrow> char" where
  "to_upper c = (if 97 \<le> (of_char c :: nat) \<and> (of_char c :: nat) \<le> 122
     then char_of ((of_char c :: nat) - 32) else c)"

fun camel_loop :: "nat \<Rightarrow> string list \<Rightarrow> string \<Rightarrow> string" where
  "camel_loop i [] out = out"
| "camel_loop i (segment # segments) out =
     camel_loop (i + 1) segments
       (if i = 0 then out @ segment
        else case segment of [] \<Rightarrow> out | first # chars \<Rightarrow> out @ [to_upper first] @ chars)"

definition camel_case :: "string \<Rightarrow> string" where
  "camel_case ident = camel_loop 0 (filter (\<lambda>s. s \<noteq> []) (split_us ident)) []"

subsection \<open>Selectors (selector.rs)\<close>

definition selector :: "(byte list \<Rightarrow> byte list) \<Rightarrow> string \<Rightarrow> byte list" where
  "selector keccak sig = take 4 (keccak (map of_char sig))"

subsection \<open>The syntax the macros read\<close>

datatype rust_ty =
    TPath (ty_qself: bool) (ty_leading: bool) (ty_segs: "path_seg list")
  | TRef bool rust_ty
  | TOther string
and path_seg = Seg (seg_ident: string) (seg_args: path_args)
and path_args = NoArgs | Angle "generic_arg list" | Paren
and generic_arg = GType rust_ty | GOther

text \<open>The type arguments among the generic arguments of a path segment.\<close>

fun type_args :: "generic_arg list \<Rightarrow> rust_ty list" where
  "type_args [] = []"
| "type_args (GType t # as) = t # type_args as"
| "type_args (GOther # as) = type_args as"

record attr =
  attr_ident :: "string option"
  attr_lit :: "string option"

datatype fn_arg = Receiver | Typed rust_ty

record fn_item =
  fn_pub :: bool
  fn_attrs :: "attr list"
  fn_ident :: string
  fn_inputs :: "fn_arg list"
  fn_output :: "rust_ty option"

datatype impl_item = IFn fn_item | IOther string

subsection \<open>Attributes (attrs.rs)\<close>

datatype handle_kind = Persistent | Transient

datatype macro_error =
    AttrArgs
  | BadSelector string
  | DuplicateAttr string string string
  | SelectorCollision string string "byte list"
  | SelfReceiver
  | TwoHandles handle_kind
  | HandleAfterAbi handle_kind
  | HandleShape handle_kind
  | HandleNoArgs handle_kind
  | HandleNoTypeArg handle_kind
  | HandleExtraTypeArg handle_kind
  | CtorReturns
  | UnnamedFields string
  | MappingNoArgs
  | MappingArity

definition INERT_ATTR_NAMES :: "string list" where
  "INERT_ATTR_NAMES = [''constructor'', ''payable'', ''fallback'', ''receive'', ''selector'']"

definition is_ident :: "attr \<Rightarrow> string \<Rightarrow> bool" where
  "is_ident a name \<longleftrightarrow> attr_ident a = Some name"

definition has_attr :: "fn_item \<Rightarrow> string \<Rightarrow> bool" where
  "has_attr m name = list_ex (\<lambda>a. is_ident a name) (fn_attrs m)"

text \<open>\<open>attr.parse_args::<LitStr>()\<close> of an attribute is \<open>attr_lit\<close>, \<open>None\<close> when it is not one string
  literal.\<close>

definition selector_shape :: "string \<Rightarrow> bool" where
  "selector_shape s \<longleftrightarrow> \<not> (s = [] \<or> CHR ''('' \<notin> set s \<or> last s \<noteq> CHR '')'')"

fun selector_override_loop :: "attr list \<Rightarrow> (macro_error, string option) rust" where
  "selector_override_loop [] = Ok None"
| "selector_override_loop (a # as) =
     (if is_ident a ''selector'' then
        case attr_lit a of
          None \<Rightarrow> Err AttrArgs
        | Some s \<Rightarrow> if selector_shape s then Ok (Some s) else Err (BadSelector s)
      else selector_override_loop as)"

definition selector_override :: "fn_item \<Rightarrow> (macro_error, string option) rust" where
  "selector_override m = selector_override_loop (fn_attrs m)"

definition strip_inert_attrs :: "fn_item \<Rightarrow> fn_item" where
  "strip_inert_attrs m =
     m\<lparr>fn_attrs := filter (\<lambda>a. \<not> list_ex (is_ident a) INERT_ATTR_NAMES) (fn_attrs m)\<rparr>"

fun attr_sites :: "impl_item list \<Rightarrow> string \<Rightarrow> string list" where
  "attr_sites [] name = []"
| "attr_sites (IFn f # items) name =
     (if has_attr f name then [fn_ident f] else []) @ attr_sites items name"
| "attr_sites (IOther x # items) name = attr_sites items name"

definition check_at_most_one :: "impl_item list \<Rightarrow> string \<Rightarrow> (macro_error, unit) rust" where
  "check_at_most_one items name =
     (case attr_sites items name of
        first # second # _ \<Rightarrow> Err (DuplicateAttr name first second)
      | _ \<Rightarrow> Ok ())"

subsection \<open>Signatures (signature.rs)\<close>

definition last_seg :: "path_seg list \<Rightarrow> path_seg option" where
  "last_seg segs = (if segs = [] then None else Some (last segs))"

fun is_handle_param :: "rust_ty \<Rightarrow> bool" where
  "is_handle_param (TRef _ elem) = is_handle_param elem"
| "is_handle_param (TPath _ _ segs) =
     (case last_seg segs of None \<Rightarrow> False
      | Some s \<Rightarrow> seg_ident s = ''Storage'' \<or> seg_ident s = ''TransientStorage'')"
| "is_handle_param (TOther _) = False"

fun rust_ty_to_solidity :: "rust_ty \<Rightarrow> string" where
  "rust_ty_to_solidity (TPath _ _ segs) =
     solidity_type_name (case last_seg segs of None \<Rightarrow> [] | Some s \<Rightarrow> seg_ident s)"
| "rust_ty_to_solidity (TRef _ elem) = rust_ty_to_solidity elem"
| "rust_ty_to_solidity (TOther _) = ''bytes32''"

text \<open>\<open>params.join(",")\<close>.\<close>

fun join_comma :: "string list \<Rightarrow> string" where
  "join_comma [] = []"
| "join_comma [s] = s"
| "join_comma (s # t # ss) = s @ '','' @ join_comma (t # ss)"

fun abi_params :: "fn_arg list \<Rightarrow> rust_ty list" where
  "abi_params [] = []"
| "abi_params (Typed ty # args) = (if is_handle_param ty then [] else [ty]) @ abi_params args"
| "abi_params (Receiver # args) = abi_params args"

definition eth_signature :: "fn_item \<Rightarrow> (macro_error, string) rust" where
  "eth_signature m =
     bind_rust (selector_override m) (\<lambda>ov.
       case ov of
         Some sig \<Rightarrow> Ok sig
       | None \<Rightarrow> Ok (camel_case (fn_ident m) @ ''('' @
           join_comma (map rust_ty_to_solidity (abi_params (fn_inputs m))) @ '')''))"

subsection \<open>Camel case\<close>

definition capitalize :: "string \<Rightarrow> string" where
  "capitalize s = (case s of [] \<Rightarrow> [] | c # cs \<Rightarrow> to_upper c # cs)"

lemma camel_loop_Suc: "camel_loop (Suc i) segs out = out @ concat (map capitalize segs)"
  by (induction segs arbitrary: i out) (auto simp: capitalize_def split: list.split)

lemma camel_case_eq:
  "camel_case s = (case filter (\<lambda>x. x \<noteq> []) (split_us s) of [] \<Rightarrow> []
     | t # ts \<Rightarrow> t @ concat (map capitalize ts))"
  by (auto simp: camel_case_def camel_loop_Suc split: list.split)

lemma split_us_ne: "split_us s \<noteq> []"
  by (cases s) (auto split: list.split)

lemma split_us_no_underscore: "t \<in> set (split_us s) \<Longrightarrow> us_char \<notin> set t"
  by (induction s arbitrary: t) (auto split: list.splits if_splits simp: split_us_ne)

lemma concat_split_us: "concat (split_us s) = filter (\<lambda>c. c \<noteq> us_char) s"
  by (induction s) (auto split: list.splits simp: split_us_ne)

lemma split_us_id: "us_char \<notin> set s \<Longrightarrow> split_us s = [s]"
  by (induction s) auto

lemma of_char_to_upper:
  "(of_char (to_upper c) :: nat) =
     (if 97 \<le> (of_char c :: nat) \<and> (of_char c :: nat) \<le> 122 then of_char c - 32 else of_char c)"
  by (auto simp: to_upper_def take_bit_eq_mod)

lemma to_upper_idem: "to_upper (to_upper c) = to_upper c"
proof -
  have "(of_char (to_upper (to_upper c)) :: nat) = of_char (to_upper c)"
    by (auto simp: of_char_to_upper)
  then show ?thesis by simp
qed

lemma to_upper_eq_iff:
  assumes "(of_char x :: nat) < 65 \<or> 90 < (of_char x :: nat) \<and> (of_char x :: nat) < 97"
  shows "to_upper c = x \<longleftrightarrow> c = x"
proof -
  have "to_upper c = x \<longleftrightarrow> (of_char (to_upper c) :: nat) = of_char x" by simp
  also have "\<dots> \<longleftrightarrow> (of_char c :: nat) = of_char x" using assms by (auto simp: of_char_to_upper)
  finally show ?thesis by simp
qed

lemma to_upper_underscore: "to_upper c = us_char \<longleftrightarrow> c = us_char"
  by (rule to_upper_eq_iff) (simp add: us_char_def)

lemma capitalize_no_underscore: "us_char \<notin> set t \<Longrightarrow> us_char \<notin> set (capitalize t)"
  by (auto simp: capitalize_def to_upper_underscore eq_commute [of us_char] split: list.split)

lemma capitalize_upper: "map to_upper (capitalize t) = map to_upper t"
  by (auto simp: capitalize_def to_upper_idem split: list.split)

lemma concat_filter_ne: "concat (filter (\<lambda>x. x \<noteq> []) xs) = concat xs"
  by (induction xs) auto

lemma concat_capitalize_no_underscore:
  "\<forall>t \<in> set ts. us_char \<notin> set t \<Longrightarrow> us_char \<notin> set (concat (map capitalize ts))"
  by (induction ts) (simp_all add: capitalize_no_underscore)

lemma camel_case_no_underscore: "us_char \<notin> set (camel_case s)"
proof (cases "filter (\<lambda>x. x \<noteq> []) (split_us s)")
  case Nil
  then show ?thesis by (simp add: camel_case_eq)
next
  case (Cons t ts)
  then have "set (t # ts) \<subseteq> set (split_us s)" by (metis filter_is_subset)
  then have "us_char \<notin> set t" "\<forall>t \<in> set ts. us_char \<notin> set t"
    using split_us_no_underscore by auto
  then show ?thesis
    using concat_capitalize_no_underscore [of ts] by (simp add: camel_case_eq Cons)
qed

lemma camel_case_id: "us_char \<notin> set s \<Longrightarrow> camel_case s = s"
  by (auto simp: camel_case_eq split_us_id)

lemma camel_case_letters:
  "map to_upper (camel_case s) = map to_upper (filter (\<lambda>c. c \<noteq> us_char) s)"
proof -
  have "map to_upper (concat (map capitalize ts)) = map to_upper (concat ts)" for ts
    by (induction ts) (auto simp: capitalize_upper)
  then have "map to_upper (camel_case s) = map to_upper (concat (filter (\<lambda>x. x \<noteq> []) (split_us s)))"
    by (auto simp: camel_case_eq split: list.split)
  then show ?thesis by (simp add: concat_filter_ne concat_split_us)
qed

text \<open>\<open>camel_case\<close>: the result has no underscore and the letters of the identifier in their order up
  to case, and an identifier already in camel case is kept, so that converting twice is converting
  once.\<close>

theorem camel_case_correct:
  "us_char \<notin> set (camel_case s)
   \<and> map to_upper (camel_case s) = map to_upper (filter (\<lambda>c. c \<noteq> us_char) s)
   \<and> camel_case (camel_case s) = camel_case s"
  by (simp add: camel_case_no_underscore camel_case_letters camel_case_id)

subsection \<open>Signatures\<close>

definition plain_name :: "string \<Rightarrow> bool" where
  "plain_name s \<longleftrightarrow> s \<noteq> [] \<and> CHR '','' \<notin> set s"

lemma solidity_type_name_plain: "plain_name (solidity_type_name s)"
  by (simp add: plain_name_def solidity_type_name_def)

lemma rust_ty_to_solidity_plain: "plain_name (rust_ty_to_solidity t)"
  by (induction t rule: rust_ty_to_solidity.induct)
     (simp_all add: solidity_type_name_plain, simp add: plain_name_def)

lemma append_sep_inject:
  "c \<notin> set a \<Longrightarrow> c \<notin> set b \<Longrightarrow> a @ c # xs = b @ c # ys \<longleftrightarrow> a = b \<and> xs = ys"
proof (induction a arbitrary: b)
  case (Cons x a)
  then show ?case by (cases b) auto
qed (auto simp: Cons_eq_append_conv)

lemma join_comma_Cons:
  "join_comma (s # ss) = s @ (if ss = [] then [] else CHR '','' # join_comma ss)"
  by (cases ss) auto

lemma join_comma_inject:
  "list_all plain_name ss \<Longrightarrow> list_all plain_name ts \<Longrightarrow> join_comma ss = join_comma ts \<Longrightarrow> ss = ts"
proof (induction ss arbitrary: ts)
  case Nil
  then show ?case by (cases ts) (auto simp: join_comma_Cons plain_name_def)
next
  case (Cons s ss)
  then obtain t ts' where ts: "ts = t # ts'"
    by (cases ts) (auto simp: join_comma_Cons plain_name_def)
  have c: "CHR '','' \<notin> set s" "CHR '','' \<notin> set t"
    using Cons.prems ts by (auto simp: plain_name_def)
  have e: "s @ (if ss = [] then [] else CHR '','' # join_comma ss) =
      t @ (if ts' = [] then [] else CHR '','' # join_comma ts')"
    using Cons.prems(3) by (simp add: ts join_comma_Cons)
  have "s = t \<and> (ss = [] \<longleftrightarrow> ts' = []) \<and> join_comma ss = join_comma ts'"
  proof (cases "ss = [] \<or> ts' = []")
    case True
    with e c show ?thesis by (auto split: if_splits)
  next
    case False
    with e show ?thesis by (simp add: append_sep_inject [OF c])
  qed
  then show ?case using Cons.IH [of ts'] Cons.prems ts by auto
qed

definition sol_params :: "fn_item \<Rightarrow> string list" where
  "sol_params m = map rust_ty_to_solidity (abi_params (fn_inputs m))"

lemma eth_signature_plain:
  "selector_override m = Ok None \<Longrightarrow>
     eth_signature m = Ok (camel_case (fn_ident m) @ CHR ''('' # join_comma (sol_params m) @ '')'')"
  by (simp add: eth_signature_def sol_params_def)

lemma camel_case_char:
  assumes "x \<in> set (camel_case s)"
    and "(of_char x :: nat) < 65 \<or> 90 < (of_char x :: nat) \<and> (of_char x :: nat) < 97"
  shows "x \<in> set s"
proof -
  have "to_upper x \<in> set (map to_upper (camel_case s))" using assms(1) by simp
  then have "to_upper x \<in> set (map to_upper (filter (\<lambda>c. c \<noteq> us_char) s))"
    by (simp only: camel_case_letters)
  then obtain c where c: "c \<in> set s" "to_upper x = to_upper c" by auto
  then show ?thesis using to_upper_eq_iff [OF assms(2)] by metis
qed

text \<open>\<open>eth_signature\<close>: two methods without an override have the same signature string exactly when
  their camel-case names and the Solidity names of their ABI-visible parameters agree, so that
  nothing but those goes into the selector and nothing of them is lost.\<close>

lemma eth_signature_injective:
  assumes "selector_override m = Ok None" "selector_override m' = Ok None"
    and "CHR ''('' \<notin> set (fn_ident m)" "CHR ''('' \<notin> set (fn_ident m')"
  shows "eth_signature m = eth_signature m' \<longleftrightarrow>
     camel_case (fn_ident m) = camel_case (fn_ident m')
     \<and> map rust_ty_to_solidity (abi_params (fn_inputs m)) =
         map rust_ty_to_solidity (abi_params (fn_inputs m'))"
proof -
  have c: "CHR ''('' \<notin> set (camel_case (fn_ident m))" "CHR ''('' \<notin> set (camel_case (fn_ident m'))"
    using assms(3,4) camel_case_char [of "CHR ''(''"] by auto
  have p: "list_all plain_name (sol_params m)" "list_all plain_name (sol_params m')"
    by (auto simp: sol_params_def list_all_iff rust_ty_to_solidity_plain)
  show ?thesis
    using join_comma_inject [OF p] unfolding sol_params_def [symmetric]
    by (auto simp: eth_signature_plain assms(1,2) append_sep_inject [OF c])
qed

definition sample_fn :: "string \<Rightarrow> rust_ty list \<Rightarrow> fn_item" where
  "sample_fn name tys = \<lparr>fn_pub = True, fn_attrs = [], fn_ident = name, fn_inputs = map Typed tys,
     fn_output = None\<rparr>"

definition named_ty :: "string \<Rightarrow> rust_ty" where
  "named_ty name = TPath False False [Seg name NoArgs]"

text \<open>The Rust name under which a type of the codec is written, and the name the Solidity ABI gives
  to its encoding.\<close>

fun rust_name :: "abi_kind \<Rightarrow> string" where
  "rust_name KU8 = ''u8''" | "rust_name KU16 = ''u16''" | "rust_name KU32 = ''u32''"
| "rust_name KU64 = ''u64''" | "rust_name KU128 = ''u128''" | "rust_name KI8 = ''i8''"
| "rust_name KI16 = ''i16''" | "rust_name KI32 = ''i32''" | "rust_name KI64 = ''i64''"
| "rust_name KI128 = ''i128''" | "rust_name KBool = ''bool''" | "rust_name KBytes32 = ''Bytes32''"
| "rust_name KUint256 = ''U256''" | "rust_name KBytes = ''Vec''" | "rust_name KStr = ''String''"
| "rust_name KAddr = ''Address''"

fun abi_name :: "abi_kind \<Rightarrow> string" where
  "abi_name KBytes = ''bytes''"
| "abi_name KStr = ''string''"
| "abi_name KU8 = ''uint8''" | "abi_name KU16 = ''uint16''" | "abi_name KU32 = ''uint32''"
| "abi_name KU64 = ''uint64''" | "abi_name KU128 = ''uint128''" | "abi_name KI8 = ''int8''"
| "abi_name KI16 = ''int16''" | "abi_name KI32 = ''int32''" | "abi_name KI64 = ''int64''"
| "abi_name KI128 = ''int128''" | "abi_name KBool = ''bool''" | "abi_name KBytes32 = ''bytes32''"
| "abi_name KUint256 = ''uint256''" | "abi_name KAddr = ''address''"

text \<open>\<open>solidity_type_name\<close> against the codec: the name a type gets in a signature is the Solidity
  name of the encoding the codec uses for it, except for \<open>Vec<u8>\<close> and \<open>String\<close>, which the codec
  encodes dynamically and the signature calls \<open>bytes32\<close>.\<close>

lemma signature_names_match_codec:
  "solidity_type_name (rust_name k) = abi_name k \<longleftrightarrow> k \<notin> {KBytes, KStr}"
  by (cases k) (simp_all add: solidity_type_name_def)

text \<open>The signature a method should have, written without the macro's helpers: the words of the identifier in
  camel case, and the Solidity name of each parameter's type, storage handles left out.\<close>

fun snake :: "string list \<Rightarrow> string" where
  "snake [] = []"
| "snake [w] = w"
| "snake (w # v # ws) = w @ us_char # snake (v # ws)"

fun camel :: "string list \<Rightarrow> string" where
  "camel [] = []"
| "camel (w # ws) = w @ concat (map capitalize ws)"

fun names_type :: "rust_ty \<Rightarrow> string \<Rightarrow> bool" where
  "names_type (TPath _ _ segs) n \<longleftrightarrow> segs \<noteq> [] \<and> seg_ident (last segs) = n"
| "names_type (TRef _ t) n \<longleftrightarrow> names_type t n"
| "names_type (TOther _) n \<longleftrightarrow> False"

definition handle_type :: "rust_ty \<Rightarrow> bool" where
  "handle_type t \<longleftrightarrow> names_type t ''Storage'' \<or> names_type t ''TransientStorage''"

definition denotes :: "rust_ty \<Rightarrow> abi_kind \<Rightarrow> bool" where
  "denotes t k \<longleftrightarrow> names_type t (rust_name k)"

text \<open>\<open>Vec<u8>\<close> and \<open>String\<close> are the two types that do not get their Solidity name.\<close>

definition signature_name :: "abi_kind \<Rightarrow> string" where
  "signature_name k = (if k = KBytes \<or> k = KStr then ''bytes32'' else abi_name k)"

lemma names_type_code: "names_type t n \<Longrightarrow> rust_ty_to_solidity t = solidity_type_name n
    \<and> (is_handle_param t \<longleftrightarrow> n = ''Storage'' \<or> n = ''TransientStorage'')"
  by (induction t rule: rust_ty_to_solidity.induct) (auto simp: last_seg_def)

lemma handle_type_param: "handle_type t \<Longrightarrow> is_handle_param t"
  using names_type_code unfolding handle_type_def by blast

lemma denotes_param:
  assumes "denotes t k"
  shows "rust_ty_to_solidity t = signature_name k" "\<not> is_handle_param t"
proof -
  have "solidity_type_name (rust_name k) = signature_name k"
    by (cases k) (simp_all add: solidity_type_name_def signature_name_def)
  then show "rust_ty_to_solidity t = signature_name k" using names_type_code assms by (simp add: denotes_def)
  have "rust_name k \<noteq> ''Storage''" "rust_name k \<noteq> ''TransientStorage''" by (cases k; simp)+
  then show "\<not> is_handle_param t" using names_type_code assms unfolding denotes_def by blast
qed

fun params_denote :: "fn_arg list \<Rightarrow> abi_kind list \<Rightarrow> bool" where
  "params_denote [] ks \<longleftrightarrow> ks = []"
| "params_denote (Receiver # args) ks \<longleftrightarrow> False"
| "params_denote (Typed t # args) ks \<longleftrightarrow> handle_type t \<and> params_denote args ks
     \<or> (case ks of [] \<Rightarrow> False | k # ks' \<Rightarrow> denotes t k \<and> params_denote args ks')"

lemma params_denote_code:
  "params_denote args ks \<Longrightarrow> map rust_ty_to_solidity (abi_params args) = map signature_name ks"
  by (induction args ks rule: params_denote.induct)
     (auto simp: handle_type_param denotes_param split: list.splits)

lemma split_us_snake: "ws \<noteq> [] \<Longrightarrow> list_all (\<lambda>w. us_char \<notin> set w) ws \<Longrightarrow> split_us (snake ws) = ws"
proof (induction ws rule: snake.induct)
  case (3 w v ws)
  have "split_us (w @ us_char # cs) = w # split_us cs" if "us_char \<notin> set w" for w cs
    using that by (induction w) auto
  then show ?case using 3 by simp
qed (simp_all add: split_us_id)

lemma camel_case_snake:
  assumes "list_all (\<lambda>w. w \<noteq> [] \<and> us_char \<notin> set w) ws"
  shows "camel_case (snake ws) = camel ws"
proof (cases "ws = []")
  case False
  have "filter (\<lambda>w. w \<noteq> []) ws = ws" using assms by (simp add: list_all_iff)
  moreover have "list_all (\<lambda>w. us_char \<notin> set w) ws" using assms by (simp add: list_all_iff)
  ultimately show ?thesis
    using False split_us_snake [OF False] by (cases ws) (simp_all add: camel_case_eq)
qed (simp add: camel_case_eq)

text \<open>C37 \<open>eth_signature\<close>: a method without an override whose identifier is words joined by underscores and
  whose parameters are storage handles (\<open>Storage\<close> or \<open>TransientStorage\<close>, by reference or value, under any
  path and in any position) and types that denote codec types has the canonical signature: the words in
  camel case and the Solidity names of the parameter types (\<open>u64\<close> is \<open>uint64\<close>, \<open>U256\<close> is \<open>uint256\<close>
  and so on for every type of the codec) in order, the handles left out. \<open>Vec<u8>\<close> and \<open>String\<close> are the
  exception: they appear as \<open>bytes32\<close>.\<close>

theorem eth_signature_canonical:
  assumes "selector_override m = Ok None"
    and "fn_ident m = snake ws" "list_all (\<lambda>w. w \<noteq> [] \<and> us_char \<notin> set w) ws"
    and "params_denote (fn_inputs m) ks"
  shows "eth_signature m = Ok (camel ws @ ''('' @ join_comma (map signature_name ks) @ '')'')"
  using params_denote_code [OF assms(4)] camel_case_snake [OF assms(3)]
  by (simp add: eth_signature_plain [OF assms(1)] sol_params_def assms(2))

theorem eth_signature_canonical_witness:
  "eth_signature (sample_fn ''transfer_from''
     [named_ty ''Address'', TRef True (TPath False False [Seg ''TransientStorage'' (Angle [GType (named_ty ''Temp'')])]),
      named_ty ''u64'', named_ty ''U256'']) = Ok ''transferFrom(address,uint64,uint256)''"
proof -
  have c: "camel [''transfer'', ''from''] = ''transferFrom''" by code_simp
  show ?thesis using eth_signature_canonical
    [of "sample_fn ''transfer_from''
       [named_ty ''Address'', TRef True (TPath False False [Seg ''TransientStorage'' (Angle [GType (named_ty ''Temp'')])]),
        named_ty ''u64'', named_ty ''U256'']" "[''transfer'', ''from'']" "[KAddr, KU64, KUint256]"]
    by (simp add: sample_fn_def selector_override_def us_char_def handle_type_def denotes_def named_ty_def
        c signature_name_def del: camel.simps)
qed

end
