(* ===== verification/Macro_Contract.thy ===== *)
theory Macro_Contract
  imports Macro_Signature
begin

text \<open>
  \<open>std-evm-macros/src/contract.rs\<close>: the expansion of \<open>#[contract]\<close> and what the generated code does.
  The expansion is a data structure in place of the token stream, one field for each thing a
  \<open>quote!\<close> emits: the re-emitted impl block, one \<open>Method\<close> implementation per method, the arms of the
  dispatch \<open>match\<close>, the fallback and receive branches and the constructor. The meaning of the
  generated \<open>Dispatch::dispatch\<close> and \<open>Contract::deploy\<close> is defined on it.
\<close>

subsection \<open>Handle parameters\<close>

definition handle_kind_of_path :: "path_seg list \<Rightarrow> handle_kind" where
  "handle_kind_of_path segs =
     (case last_seg segs of
        Some s \<Rightarrow> if seg_ident s = ''TransientStorage'' then Transient else Persistent
      | None \<Rightarrow> Persistent)"

fun handle_kind_of :: "rust_ty \<Rightarrow> handle_kind" where
  "handle_kind_of (TRef _ elem) = handle_kind_of elem"
| "handle_kind_of (TPath _ _ segs) = handle_kind_of_path segs"
| "handle_kind_of (TOther _) = Persistent"

record handle_param =
  h_kind :: handle_kind
  h_mut :: bool
  h_layout :: rust_ty

definition handle_layout_ty :: "rust_ty \<Rightarrow> handle_kind \<Rightarrow> (macro_error, rust_ty) rust" where
  "handle_layout_ty ty kind =
     (let inner = (case ty of TRef _ elem \<Rightarrow> elem | other \<Rightarrow> other) in
      case inner of
        TPath _ _ segs \<Rightarrow>
          (case last_seg segs of
             None \<Rightarrow> Err (HandleShape kind)
           | Some seg \<Rightarrow>
               (case seg_args seg of
                  Angle args \<Rightarrow>
                    (case type_args args of
                       [] \<Rightarrow> Err (HandleNoTypeArg kind)
                     | [layout_ty] \<Rightarrow> Ok layout_ty
                     | _ # _ # _ \<Rightarrow> Err (HandleExtraTypeArg kind))
                | _ \<Rightarrow> Err (HandleNoArgs kind)))
      | _ \<Rightarrow> Err (HandleShape kind))"

definition is_mut_ref :: "rust_ty \<Rightarrow> bool" where
  "is_mut_ref ty = (case ty of TRef m _ \<Rightarrow> m | _ \<Rightarrow> False)"

fun split_loop ::
  "fn_arg list \<Rightarrow> handle_param list \<Rightarrow> rust_ty list \<Rightarrow>
     (macro_error, handle_param list \<times> rust_ty list) rust" where
  "split_loop [] handles abi_types = Ok (handles, abi_types)"
| "split_loop (Receiver # args) handles abi_types = Err SelfReceiver"
| "split_loop (Typed ty # args) handles abi_types =
     (if \<not> is_handle_param ty then split_loop args handles (abi_types @ [ty])
      else let kind = handle_kind_of ty in
        if list_ex (\<lambda>h. h_kind h = kind) handles then Err (TwoHandles kind)
        else if abi_types \<noteq> [] then Err (HandleAfterAbi kind)
        else bind_rust (handle_layout_ty ty kind) (\<lambda>layout_ty.
          split_loop args
            (handles @ [\<lparr>h_kind = kind, h_mut = is_mut_ref ty, h_layout = layout_ty\<rparr>]) abi_types))"

definition split_handle_params ::
  "fn_item \<Rightarrow> (macro_error, handle_param list \<times> rust_ty list) rust" where
  "split_handle_params m = split_loop (fn_inputs m) [] []"

subsection \<open>What is generated for one method\<close>

record method_impl =
  mi_marker :: string
  mi_selector :: "byte list"
  mi_args :: "rust_ty list"
  mi_output :: "rust_ty option"
  mi_guard :: bool
  mi_handles :: "handle_param list"
  mi_fn :: string

definition method_marker_ident :: "string \<Rightarrow> string" where
  "method_marker_ident name = ''__Method_'' @ name"

definition expand_method ::
  "fn_item \<Rightarrow> string \<Rightarrow> byte list \<Rightarrow> bool \<Rightarrow> (macro_error, method_impl) rust" where
  "expand_method m marker sel is_payable =
     bind_rust (split_handle_params m) (\<lambda>(handles, abi_types).
       Ok \<lparr>mi_marker = marker, mi_selector = sel, mi_args = abi_types, mi_output = fn_output m,
           mi_guard = (\<not> is_payable), mi_handles = handles, mi_fn = fn_ident m\<rparr>)"

record ctor_impl =
  ci_args :: "rust_ty list"
  ci_handles :: "handle_param list"
  ci_fn :: string

definition expand_constructor :: "fn_item \<Rightarrow> (macro_error, ctor_impl) rust" where
  "expand_constructor m =
     (if fn_output m \<noteq> None then Err CtorReturns
      else bind_rust (split_handle_params m) (\<lambda>(handles, abi_types).
        Ok \<lparr>ci_args = abi_types, ci_handles = handles, ci_fn = fn_ident m\<rparr>))"

subsection \<open>The loop over the items of the block\<close>

record expansion =
  x_items :: "impl_item list"
  x_methods :: "method_impl list"
  x_arms :: "(byte list \<times> method_impl) list"
  x_fallback :: "method_impl option"
  x_receive :: "method_impl option"
  x_ctor :: "ctor_impl option"
  x_seen :: "(byte list \<times> string) list"

definition x_empty :: expansion where
  "x_empty = \<lparr>x_items = [], x_methods = [], x_arms = [], x_fallback = None, x_receive = None,
     x_ctor = None, x_seen = []\<rparr>"

definition add_item :: "fn_item \<Rightarrow> expansion \<Rightarrow> expansion" where
  "add_item m x = x\<lparr>x_items := x_items x @ [IFn (strip_inert_attrs m)]\<rparr>"

text \<open>The collision check, for a method that gets an arm.\<close>

definition see_selector ::
  "byte list \<Rightarrow> fn_item \<Rightarrow> expansion \<Rightarrow> (macro_error, expansion) rust" where
  "see_selector sel m x =
     (if has_attr m ''fallback'' \<or> has_attr m ''receive'' then Ok x
      else case List.find (\<lambda>p. fst p = sel) (x_seen x) of
        Some (_, other) \<Rightarrow> Err (SelectorCollision other (fn_ident m) sel)
      | None \<Rightarrow> Ok (x\<lparr>x_seen := x_seen x @ [(sel, fn_ident m)]\<rparr>))"

definition place_method :: "fn_item \<Rightarrow> method_impl \<Rightarrow> expansion \<Rightarrow> expansion" where
  "place_method m mi x =
     (let x = x\<lparr>x_methods := x_methods x @ [mi]\<rparr> in
      if has_attr m ''fallback'' then x\<lparr>x_fallback := Some mi\<rparr>
      else if has_attr m ''receive'' then x\<lparr>x_receive := Some mi\<rparr>
      else x\<lparr>x_arms := x_arms x @ [(mi_selector mi, mi)]\<rparr>)"

definition expand_fn ::
  "(byte list \<Rightarrow> byte list) \<Rightarrow> fn_item \<Rightarrow> expansion \<Rightarrow> (macro_error, expansion) rust" where
  "expand_fn keccak m x =
     (if \<not> fn_pub m then Ok (add_item m x)
      else if has_attr m ''constructor'' then
        bind_rust (expand_constructor m) (\<lambda>c. Ok (add_item m (x\<lparr>x_ctor := Some c\<rparr>)))
      else
        bind_rust (eth_signature m) (\<lambda>sig_str.
        let sel = selector keccak sig_str in
        bind_rust (see_selector sel m x) (\<lambda>x.
        bind_rust (expand_method m (method_marker_ident (fn_ident m)) sel (has_attr m ''payable''))
          (\<lambda>mi. Ok (add_item m (place_method m mi x))))))"

fun expand_items ::
  "(byte list \<Rightarrow> byte list) \<Rightarrow> impl_item list \<Rightarrow> expansion \<Rightarrow> (macro_error, expansion) rust" where
  "expand_items keccak [] x = Ok x"
| "expand_items keccak (IOther i # items) x =
     expand_items keccak items (x\<lparr>x_items := x_items x @ [IOther i]\<rparr>)"
| "expand_items keccak (IFn m # items) x =
     bind_rust (expand_fn keccak m x) (\<lambda>x. expand_items keccak items x)"

definition expand_contract ::
  "(byte list \<Rightarrow> byte list) \<Rightarrow> impl_item list \<Rightarrow> (macro_error, expansion) rust" where
  "expand_contract keccak items =
     bind_rust (check_at_most_one items ''constructor'') (\<lambda>_.
     bind_rust (check_at_most_one items ''fallback'') (\<lambda>_.
     bind_rust (check_at_most_one items ''receive'') (\<lambda>_.
       expand_items keccak items x_empty)))"

subsection \<open>What the generated code does\<close>

text \<open>
  The codec type a syntactic type names is resolved by the compiler: the parameter \<open>resolve\<close>. The
  contract's own functions are the parameter \<open>body\<close>, \<open>None\<close> for a panic. A result \<open>None\<close> is a panic
  of the generated code.
\<close>

definition mi_call ::
  "(string \<Rightarrow> abi_value list \<Rightarrow> 's \<Rightarrow> (abi_output \<times> 's) option) \<Rightarrow> method_impl \<Rightarrow> abi_value list \<Rightarrow>
     's \<Rightarrow> (abi_output \<times> 's) option" where
  "mi_call body mi args st =
     (let u = (if mi_guard mi then guard_not_payable () else ()) in body (mi_fn mi) args st)"

definition invalid_calldata :: "byte list" where
  "invalid_calldata = map of_char ''invalid calldata''"

definition call_expr ::
  "nat \<Rightarrow> (rust_ty \<Rightarrow> abi_kind) \<Rightarrow> (string \<Rightarrow> abi_value list \<Rightarrow> 's \<Rightarrow> (abi_output \<times> 's) option) \<Rightarrow>
     method_impl \<Rightarrow> byte list \<Rightarrow> 's \<Rightarrow> (byte list \<times> 's) option" where
  "call_expr us resolve body mi calldata st =
     (case method_dispatch us (map resolve (mi_args mi)) (mi_call body mi) calldata st of
        Ok out \<Rightarrow> Some out
      | Err _ \<Rightarrow> Some (encode_error invalid_calldata, st)
      | Panic \<Rightarrow> None)"

definition dispatch ::
  "nat \<Rightarrow> (rust_ty \<Rightarrow> abi_kind) \<Rightarrow> (string \<Rightarrow> abi_value list \<Rightarrow> 's \<Rightarrow> (abi_output \<times> 's) option) \<Rightarrow>
     expansion \<Rightarrow> byte list \<Rightarrow> byte list \<Rightarrow> u256 \<Rightarrow> 's \<Rightarrow> (byte list \<times> 's) option" where
  "dispatch us resolve body x sel calldata callvalue st =
     (let run = (\<lambda>mi. call_expr us resolve body mi calldata st);
          by_selector =
            (case map_of (x_arms x) sel of
               Some mi \<Rightarrow> run mi
             | None \<Rightarrow>
                 (case x_fallback x of
                    Some mi \<Rightarrow> run mi
                  | None \<Rightarrow> Some (no_matching_method, st))) in
      case x_receive x of
        Some mi \<Rightarrow> if calldata = [] \<and> callvalue \<noteq> u256_zero then run mi else by_selector
      | None \<Rightarrow> by_selector)"

text \<open>\<open>Contract::deploy\<close>: bad constructor calldata is a panic.\<close>

definition deploy ::
  "nat \<Rightarrow> (rust_ty \<Rightarrow> abi_kind) \<Rightarrow> (string \<Rightarrow> abi_value list \<Rightarrow> 's \<Rightarrow> (abi_output \<times> 's) option) \<Rightarrow>
     ctor_impl \<Rightarrow> byte list \<Rightarrow> 's \<Rightarrow> 's option" where
  "deploy us resolve body c calldata st =
     (case decode_args us (map resolve (ci_args c)) calldata of
        Ok args \<Rightarrow> map_option snd (body (ci_fn c) args st)
      | _ \<Rightarrow> None)"

subsection \<open>The loop as a reference function\<close>

definition plain_fn :: "fn_item \<Rightarrow> bool" where
  "plain_fn m \<longleftrightarrow> fn_pub m \<and> \<not> has_attr m ''constructor''"

definition routed :: "fn_item \<Rightarrow> bool" where
  "routed m \<longleftrightarrow> plain_fn m \<and> \<not> has_attr m ''fallback'' \<and> \<not> has_attr m ''receive''"

definition is_fallback :: "fn_item \<Rightarrow> bool" where
  "is_fallback m \<longleftrightarrow> plain_fn m \<and> has_attr m ''fallback''"

definition is_receive :: "fn_item \<Rightarrow> bool" where
  "is_receive m \<longleftrightarrow> plain_fn m \<and> has_attr m ''receive'' \<and> \<not> has_attr m ''fallback''"

definition is_ctor :: "fn_item \<Rightarrow> bool" where
  "is_ctor m \<longleftrightarrow> fn_pub m \<and> has_attr m ''constructor''"

lemmas fn_class_defs = plain_fn_def routed_def is_fallback_def is_receive_def is_ctor_def

text \<open>What the macro requires of a method by itself.\<close>

definition fn_ok :: "fn_item \<Rightarrow> bool" where
  "fn_ok m \<longleftrightarrow>
     (plain_fn m \<longrightarrow> (\<exists>s. eth_signature m = Ok s)) \<and> (is_ctor m \<longrightarrow> fn_output m = None)
     \<and> (fn_pub m \<longrightarrow> (\<exists>p. split_handle_params m = Ok p))"

definition sel_of :: "(byte list \<Rightarrow> byte list) \<Rightarrow> fn_item \<Rightarrow> byte list" where
  "sel_of keccak m = (case eth_signature m of Ok s \<Rightarrow> selector keccak s | _ \<Rightarrow> [])"

definition handles_of :: "fn_item \<Rightarrow> handle_param list" where
  "handles_of m = (case split_handle_params m of Ok (h, _) \<Rightarrow> h | _ \<Rightarrow> [])"

definition impl_of :: "(byte list \<Rightarrow> byte list) \<Rightarrow> fn_item \<Rightarrow> method_impl" where
  "impl_of keccak m =
     \<lparr>mi_marker = method_marker_ident (fn_ident m), mi_selector = sel_of keccak m,
      mi_args = abi_params (fn_inputs m), mi_output = fn_output m,
      mi_guard = (\<not> has_attr m ''payable''), mi_handles = handles_of m, mi_fn = fn_ident m\<rparr>"

definition ctor_of :: "fn_item \<Rightarrow> ctor_impl" where
  "ctor_of m = \<lparr>ci_args = abi_params (fn_inputs m), ci_handles = handles_of m, ci_fn = fn_ident m\<rparr>"

definition fn_step :: "(byte list \<Rightarrow> byte list) \<Rightarrow> fn_item \<Rightarrow> expansion \<Rightarrow> expansion" where
  "fn_step keccak m x =
     \<lparr>x_items = x_items x @ [IFn (strip_inert_attrs m)],
      x_methods = x_methods x @ (if plain_fn m then [impl_of keccak m] else []),
      x_arms = x_arms x @ (if routed m then [(sel_of keccak m, impl_of keccak m)] else []),
      x_fallback = (if is_fallback m then Some (impl_of keccak m) else x_fallback x),
      x_receive = (if is_receive m then Some (impl_of keccak m) else x_receive x),
      x_ctor = (if is_ctor m then Some (ctor_of m) else x_ctor x),
      x_seen = x_seen x @ (if routed m then [(sel_of keccak m, fn_ident m)] else [])\<rparr>"

lemma split_loop_abi: "split_loop args h a = Ok (h', a') \<Longrightarrow> a' = a @ abi_params args"
  by (induction args h a rule: split_loop.induct)
     (auto simp: Let_def bind_rust_Ok_iff split: if_splits)

lemma split_handle_params_cases:
  obtains "split_handle_params m = Ok (handles_of m, abi_params (fn_inputs m))"
  | "\<forall>p. split_handle_params m \<noteq> Ok p"
  by (cases "split_handle_params m")
     (auto simp: handles_of_def split_handle_params_def dest: split_loop_abi)

lemma find_fst_None: "List.find (\<lambda>p. fst p = s) xs = None \<longleftrightarrow> s \<notin> fst ` set xs"
  by (force simp: find_None_iff)

lemma see_selector_Ok:
  "see_selector sel m x = Ok y \<longleftrightarrow>
     (if has_attr m ''fallback'' \<or> has_attr m ''receive'' then y = x
      else sel \<notin> fst ` set (x_seen x) \<and> y = x\<lparr>x_seen := x_seen x @ [(sel, fn_ident m)]\<rparr>)"
  by (auto simp: see_selector_def find_fst_None [symmetric] split: option.splits)

lemma expand_fn_Ok:
  "expand_fn keccak m x = Ok y \<longleftrightarrow>
     fn_ok m \<and> (routed m \<longrightarrow> sel_of keccak m \<notin> fst ` set (x_seen x)) \<and> y = fn_step keccak m x"
proof (cases "fn_pub m")
  case False
  then show ?thesis by (auto simp: expand_fn_def fn_ok_def fn_class_defs fn_step_def add_item_def)
next
  case pub: True
  show ?thesis
  proof (cases m rule: split_handle_params_cases)
    case 2
    then have "\<not> fn_ok m" using pub by (simp add: fn_ok_def)
    moreover have "expand_fn keccak m x \<noteq> Ok y"
      using 2 pub by (auto simp: expand_fn_def expand_constructor_def expand_method_def bind_rust_Ok_iff Let_def)
    ultimately show ?thesis by simp
  next
    case 1
    show ?thesis
    proof (cases "has_attr m ''constructor''")
      case True
      then show ?thesis
        using pub 1
        by (auto simp: expand_fn_def fn_ok_def fn_class_defs fn_step_def add_item_def
            expand_constructor_def ctor_of_def)
    next
      case False
      then have p: "plain_fn m" "\<not> is_ctor m" using pub by (auto simp: fn_class_defs)
      show ?thesis
      proof (cases "eth_signature m")
        case (Ok s)
        have sel: "sel_of keccak m = selector keccak s" by (simp add: sel_of_def Ok)
        show ?thesis
          using p pub False Ok 1
          by (auto simp: expand_fn_def fn_ok_def sel see_selector_Ok bind_rust_Ok_iff expand_method_def
              Let_def place_method_def add_item_def fn_step_def impl_of_def
              routed_def is_fallback_def is_receive_def)
      qed (use p pub False in \<open>auto simp: expand_fn_def fn_ok_def\<close>)
    qed
  qed
qed

fun fns :: "impl_item list \<Rightarrow> fn_item list" where
  "fns [] = []"
| "fns (IFn m # items) = m # fns items"
| "fns (IOther i # items) = fns items"

fun strip_item :: "impl_item \<Rightarrow> impl_item" where
  "strip_item (IFn m) = IFn (strip_inert_attrs m)"
| "strip_item (IOther i) = IOther i"

definition last_impl ::
  "(byte list \<Rightarrow> byte list) \<Rightarrow> (fn_item \<Rightarrow> bool) \<Rightarrow> fn_item list \<Rightarrow> method_impl option \<Rightarrow>
     method_impl option" where
  "last_impl keccak P ms d =
     (if filter P ms = [] then d else Some (impl_of keccak (last (filter P ms))))"

lemma last_impl_Cons:
  "last_impl keccak P (m # ms) d =
     last_impl keccak P ms (if P m then Some (impl_of keccak m) else d)"
  by (auto simp: last_impl_def)

lemma expand_items_Ok:
  assumes "expand_items keccak items x = Ok y" "distinct (map fst (x_seen x))"
  shows "list_all fn_ok (fns items)
    \<and> distinct (map fst (x_seen x) @ map (sel_of keccak) (filter routed (fns items)))
    \<and> x_items y = x_items x @ map strip_item items
    \<and> x_methods y = x_methods x @ map (impl_of keccak) (filter plain_fn (fns items))
    \<and> x_arms y = x_arms x @ map (\<lambda>m. (sel_of keccak m, impl_of keccak m)) (filter routed (fns items))
    \<and> x_fallback y = last_impl keccak is_fallback (fns items) (x_fallback x)
    \<and> x_receive y = last_impl keccak is_receive (fns items) (x_receive x)"
  using assms
proof (induction keccak items x rule: expand_items.induct)
  case (3 keccak m items x)
  let ?x = "fn_step keccak m x"
  have f: "fn_ok m" "routed m \<longrightarrow> sel_of keccak m \<notin> fst ` set (x_seen x)"
    and r: "expand_items keccak items ?x = Ok y" and e: "expand_fn keccak m x = Ok ?x"
    using "3.prems"(1) by (auto simp: bind_rust_Ok_iff expand_fn_Ok)
  have "distinct (map fst (x_seen ?x))"
    using "3.prems"(2) f(2) by (auto simp: fn_step_def)
  from "3.IH" [OF e r this] f(1) show ?case
    by (auto simp: fn_step_def last_impl_Cons split: if_splits)
qed (simp_all add: last_impl_def)

lemma expand_items_total:
  assumes "list_all fn_ok (fns items)"
    and "distinct (map fst (x_seen x) @ map (sel_of keccak) (filter routed (fns items)))"
  shows "\<exists>y. expand_items keccak items x = Ok y"
  using assms
proof (induction keccak items x rule: expand_items.induct)
  case (3 keccak m items x)
  let ?x = "fn_step keccak m x"
  have e: "expand_fn keccak m x = Ok ?x"
    using "3.prems" by (auto simp: expand_fn_Ok)
  have "\<exists>y. expand_items keccak items ?x = Ok y"
    using "3.prems" by (intro "3.IH" [OF e]) (auto simp: fn_step_def)
  then show ?case by (simp add: e)
qed simp_all

subsection \<open>What the expansion guarantees\<close>

lemma attr_sites_eq: "attr_sites items name = map fn_ident (filter (\<lambda>m. has_attr m name) (fns items))"
  by (induction items name rule: attr_sites.induct) auto

lemma check_at_most_one_Ok:
  "check_at_most_one items name = Ok () \<longleftrightarrow> length (attr_sites items name) \<le> 1"
  by (auto simp: check_at_most_one_def split: list.split)

lemma expand_contract_Ok:
  "expand_contract keccak items = Ok x \<longleftrightarrow>
     (\<forall>name \<in> {''constructor'', ''fallback'', ''receive''}. length (attr_sites items name) \<le> 1)
     \<and> expand_items keccak items x_empty = Ok x"
  by (auto simp: expand_contract_def bind_rust_Ok_iff check_at_most_one_Ok)

text \<open>\<open>expand_contract\<close> accepts exactly the impl blocks in which no constructor, fallback or
  receive attribute occurs twice, every public method has a valid signature attribute and
  parameter list, the constructor returns nothing, and the selectors of the dispatched methods are
  pairwise different.\<close>

theorem expand_contract_accepts:
  "(\<exists>x. expand_contract keccak items = Ok x) \<longleftrightarrow>
     (\<forall>name \<in> {''constructor'', ''fallback'', ''receive''}. length (attr_sites items name) \<le> 1)
     \<and> list_all fn_ok (fns items)
     \<and> distinct (map (sel_of keccak) (filter routed (fns items)))"
  using expand_items_Ok [of keccak items x_empty] expand_items_total [of items x_empty keccak]
  by (auto simp: expand_contract_Ok x_empty_def)

theorem expand_contract_accepts_witness:
  "\<exists>x. expand_contract (\<lambda>_. replicate 32 0) [IFn (sample_fn ''balance_of'' [named_ty ''Address''])] = Ok x"
  by (subst expand_contract_accepts)
     (simp add: sample_fn_def named_ty_def fn_ok_def fn_class_defs has_attr_def eth_signature_def
       selector_override_def split_handle_params_def last_seg_def)

lemma map_of_arms:
  "map_of (map (\<lambda>m. (sel_of keccak m, impl_of keccak m)) (filter routed ms)) sel =
     map_option (impl_of keccak) (List.find (\<lambda>m. routed m \<and> sel_of keccak m = sel) ms)"
  by (induction ms) auto

lemma length_filter_mono: "(\<And>m. P m \<Longrightarrow> Q m) \<Longrightarrow> length (filter P ms) \<le> length (filter Q ms)"
  by (induction ms) (auto intro: le_SucI)

lemma last_impl_find:
  "length (filter P ms) \<le> 1 \<Longrightarrow> last_impl keccak P ms None = map_option (impl_of keccak) (List.find P ms)"
proof (induction ms)
  case (Cons m ms)
  then show ?case by (cases "P m") (auto simp: last_impl_def)
qed (simp add: last_impl_def)

definition answer ::
  "nat \<Rightarrow> (rust_ty \<Rightarrow> abi_kind) \<Rightarrow> (string \<Rightarrow> abi_value list \<Rightarrow> 's \<Rightarrow> (abi_output \<times> 's) option) \<Rightarrow>
     fn_item \<Rightarrow> byte list \<Rightarrow> 's \<Rightarrow> (byte list \<times> 's) option" where
  "answer us resolve body m calldata st =
     (case method_dispatch us (map resolve (abi_params (fn_inputs m))) (body (fn_ident m)) calldata st of
        Ok out \<Rightarrow> Some out
      | Err _ \<Rightarrow> Some (encode_error invalid_calldata, st)
      | Panic \<Rightarrow> None)"

lemma call_expr_impl:
  "call_expr us resolve body (impl_of keccak m) calldata st = answer us resolve body m calldata st"
  by (simp add: call_expr_def answer_def impl_of_def mi_call_def [abs_def])

lemma expansion_fields:
  assumes "expand_contract keccak items = Ok x"
  shows "map_of (x_arms x) sel =
      map_option (impl_of keccak) (List.find (\<lambda>m. routed m \<and> sel_of keccak m = sel) (fns items))"
    and "x_fallback x = map_option (impl_of keccak) (List.find is_fallback (fns items))"
    and "x_receive x = map_option (impl_of keccak) (List.find is_receive (fns items))"
proof -
  have one: "length (attr_sites items name) \<le> 1"
    if "name \<in> {''constructor'', ''fallback'', ''receive''}" for name
    using assms that by (auto simp: expand_contract_Ok)
  have "length (filter is_fallback (fns items)) \<le> 1" "length (filter is_receive (fns items)) \<le> 1"
    using one [of "''fallback''"] one [of "''receive''"]
      length_filter_mono [of is_fallback "\<lambda>m. has_attr m ''fallback''" "fns items"]
      length_filter_mono [of is_receive "\<lambda>m. has_attr m ''receive''" "fns items"]
    by (simp_all add: attr_sites_eq is_fallback_def is_receive_def)
  moreover have "expand_items keccak items x_empty = Ok x"
    using assms by (simp add: expand_contract_Ok)
  ultimately show "map_of (x_arms x) sel =
      map_option (impl_of keccak) (List.find (\<lambda>m. routed m \<and> sel_of keccak m = sel) (fns items))"
    and "x_fallback x = map_option (impl_of keccak) (List.find is_fallback (fns items))"
    and "x_receive x = map_option (impl_of keccak) (List.find is_receive (fns items))"
    using expand_items_Ok [of keccak items x_empty x]
    by (simp_all add: x_empty_def map_of_arms last_impl_find)
qed

text \<open>A sample contract with two methods, and a hash that keeps the first bytes.\<close>

definition sample_items :: "impl_item list" where
  "sample_items = [IFn (sample_fn ''balance_of'' [named_ty ''Address'']),
     IOther ''const'', IFn (sample_fn ''set'' [named_ty ''u8'', named_ty ''bool''])]"

definition sample_x :: expansion where
  "sample_x = (case expand_contract (\<lambda>b. b) sample_items of Ok x \<Rightarrow> x | _ \<Rightarrow> x_empty)"

lemma sample_expands: "expand_contract (\<lambda>b. b) sample_items = Ok sample_x"
proof -
  have "(case expand_contract (\<lambda>b. b) sample_items of Ok _ \<Rightarrow> True | _ \<Rightarrow> False)" by code_simp
  then show ?thesis by (auto simp: sample_x_def split: rust.splits)
qed

definition sample_resolve :: "rust_ty \<Rightarrow> abi_kind" where
  "sample_resolve ty =
     (if ty = named_ty ''u8'' then KU8 else if ty = named_ty ''bool'' then KBool else KAddr)"

text \<open>The routing \<open>lib.rs\<close> documents, on the whole data of a message: Ether without data goes to the
  receive method, data that starts with a method's selector to that method, anything else to the
  fallback.\<close>

definition documented_route ::
  "(byte list \<Rightarrow> byte list) \<Rightarrow> impl_item list \<Rightarrow> byte list \<Rightarrow> u256 \<Rightarrow> fn_item option" where
  "documented_route keccak items data callvalue =
     (case (if data = [] \<and> callvalue \<noteq> u256_zero then List.find is_receive (fns items) else None) of
        Some r \<Rightarrow> Some r
      | None \<Rightarrow>
          (case List.find (\<lambda>m. routed m \<and> length data \<ge> 4 \<and> sel_of keccak m = take 4 data) (fns items) of
             Some m \<Rightarrow> Some m
           | None \<Rightarrow> List.find is_fallback (fns items)))"

definition taken_route ::
  "(byte list \<Rightarrow> byte list) \<Rightarrow> impl_item list \<Rightarrow> byte list \<Rightarrow> byte list \<Rightarrow> u256 \<Rightarrow> fn_item option" where
  "taken_route keccak items sel calldata callvalue =
     (if calldata = [] \<and> callvalue \<noteq> u256_zero \<and> (\<exists>r\<in>set (fns items). is_receive r)
      then List.find is_receive (fns items)
      else documented_route keccak items (sel @ calldata) callvalue)"

lemma find_class: "List.find P ms = Some m \<Longrightarrow> P m"
  by (induction ms) (auto split: if_splits)

lemma dispatch_taken_route:
  assumes "expand_contract keccak items = Ok x" "length sel = 4"
  shows "dispatch us resolve body x sel calldata callvalue st =
     (case taken_route keccak items sel calldata callvalue of
        Some m \<Rightarrow> answer us resolve body m calldata st
      | None \<Rightarrow> Some ([], st))"
proof -
  have "sel \<noteq> []" using assms(2) by auto
  moreover have "(\<exists>r\<in>set (fns items). is_receive r) \<longleftrightarrow> List.find is_receive (fns items) \<noteq> None"
    by (auto simp: find_None_iff)
  ultimately show ?thesis
    using assms(2)
    by (auto simp: dispatch_def Let_def expansion_fields [OF assms(1)] call_expr_impl no_matching_method_def
        taken_route_def documented_route_def split: option.splits)
qed

lemma documented_not_receive:
  assumes "length sel = 4"
  shows "documented_route keccak items (sel @ calldata) callvalue = Some r \<Longrightarrow> \<not> is_receive r"
  using assms find_class [of is_fallback "fns items" r]
    find_class [of "\<lambda>m. routed m \<and> length (sel @ calldata) \<ge> 4 \<and> sel_of keccak m = take 4 (sel @ calldata)" "fns items" r]
  by (auto simp: documented_route_def is_receive_def routed_def is_fallback_def split: option.splits if_splits)

text \<open>C20 The generated \<open>Dispatch::dispatch\<close> runs the method \<open>taken_route\<close> picks, on every selector, calldata
  and value, and answers with nothing when there is none. The method differs from the one \<open>documented_route\<close>
  gives for the message (selector followed by calldata) exactly when the contract has a receive method,
  there is no calldata after the selector and Ether is sent: the receive branch looks at the calldata
  without the selector, so it takes the call of every method without arguments that carries Ether, and
  every call of an unknown bare selector that would be the fallback's.\<close>

theorem dispatch_reference:
  assumes "expand_contract keccak items = Ok x" "length sel = 4"
  shows "dispatch us resolve body x sel calldata callvalue st =
      (case taken_route keccak items sel calldata callvalue of
         Some m \<Rightarrow> answer us resolve body m calldata st
       | None \<Rightarrow> Some ([], st))
    \<and> (taken_route keccak items sel calldata callvalue \<noteq>
         documented_route keccak items (sel @ calldata) callvalue \<longleftrightarrow>
       calldata = [] \<and> callvalue \<noteq> u256_zero \<and> (\<exists>r\<in>set (fns items). is_receive r))"
proof (intro conjI dispatch_taken_route assms)
  let ?P = "calldata = [] \<and> callvalue \<noteq> u256_zero \<and> (\<exists>r\<in>set (fns items). is_receive r)"
  have "taken_route keccak items sel calldata callvalue \<noteq> documented_route keccak items (sel @ calldata) callvalue" if p: ?P
  proof -
    have "List.find is_receive (fns items) \<noteq> None" using p by (auto simp: find_None_iff)
    then obtain r where "List.find is_receive (fns items) = Some r" by blast
    then show ?thesis
      using p find_class [of is_receive "fns items" r] documented_not_receive [OF assms(2), of keccak items calldata callvalue r]
      by (auto simp: taken_route_def)
  qed
  then show "taken_route keccak items sel calldata callvalue \<noteq>
         documented_route keccak items (sel @ calldata) callvalue \<longleftrightarrow> ?P"
    by (auto simp: taken_route_def)
qed

text \<open>A vault whose payable method \<open>deposit\<close> has no arguments, and a receive method: Ether sent along with
  the selector of \<open>deposit\<close> runs the receive method.\<close>

definition vault_items :: "impl_item list" where
  "vault_items =
     [IFn ((sample_fn ''deposit'' [])\<lparr>fn_attrs := [\<lparr>attr_ident = Some ''payable'', attr_lit = None\<rparr>]\<rparr>),
      IFn ((sample_fn ''on_ether'' [])\<lparr>fn_attrs := [\<lparr>attr_ident = Some ''receive'', attr_lit = None\<rparr>]\<rparr>)]"

definition vault_x :: expansion where
  "vault_x = (case expand_contract (\<lambda>b. b) vault_items of Ok x \<Rightarrow> x | _ \<Rightarrow> x_empty)"

lemma vault_expands: "expand_contract (\<lambda>b. b) vault_items = Ok vault_x"
proof -
  have "(case expand_contract (\<lambda>b. b) vault_items of Ok _ \<Rightarrow> True | _ \<Rightarrow> False)" by code_simp
  then show ?thesis by (auto simp: vault_x_def split: rust.splits)
qed

theorem dispatch_reference_witness:
  "dispatch 4 sample_resolve (\<lambda>f vs st. Some (Unit, st @ [f])) vault_x (selector (\<lambda>b. b) ''deposit()'') [] (U256 (replicate 32 1)) []
     = Some ([], [''on_ether''])"
proof -
  have l: "length (selector (\<lambda>b. b) ''deposit()'') = 4" by code_simp
  have "map_option fn_ident (taken_route (\<lambda>b. b) vault_items (selector (\<lambda>b. b) ''deposit()'') [] (U256 (replicate 32 1))) = Some ''on_ether''"
    by code_simp
  moreover have "map_option fn_inputs (taken_route (\<lambda>b. b) vault_items (selector (\<lambda>b. b) ''deposit()'') [] (U256 (replicate 32 1))) = Some []"
    by code_simp
  ultimately show ?thesis
    using dispatch_reference [OF vault_expands l, of 4 sample_resolve "\<lambda>f vs st. Some (Unit, st @ [f])" "[]" "U256 (replicate 32 1)" "[]"]
    by (auto simp: answer_def method_dispatch_def decode_args_def encode_output_unit_def)
qed

lemma find_distinct:
  "distinct (map f (filter P ms)) \<Longrightarrow> m \<in> set ms \<Longrightarrow> P m \<Longrightarrow> List.find (\<lambda>n. P n \<and> f n = f m) ms = Some m"
  by (induction ms) (auto split: if_splits)

lemma fns_set: "m \<in> set (fns items) \<longleftrightarrow> IFn m \<in> set items"
  by (induction items rule: fns.induct) auto

lemma encoded_call_runs:
  assumes "expand_contract keccak items = Ok x" "IFn m \<in> set items" "routed m"
    and "eth_signature m = Ok sig"
    and "map resolve (abi_params (fn_inputs m)) = map av_kind vs" "list_all av_ok vs" "us \<le> 16"
    and "length (encode_tuple (map av_component vs) @ rest) < usize_bound us"
  shows "dispatch us resolve body x (selector keccak sig) (encode_tuple (map av_component vs) @ rest) callvalue st =
     (case (if encode_tuple (map av_component vs) @ rest = [] \<and> callvalue \<noteq> u256_zero
            then List.find is_receive (fns items) else None) of
        Some r \<Rightarrow> answer us resolve body r [] st
      | None \<Rightarrow> map_option (\<lambda>(out, st'). (output_bytes out, st')) (body (fn_ident m) vs st))"
proof -
  have "distinct (map (sel_of keccak) (filter routed (fns items)))"
    using assms(1) expand_items_Ok [of keccak items x_empty x]
    by (simp add: expand_contract_Ok x_empty_def)
  then have f: "List.find (\<lambda>n. routed n \<and> sel_of keccak n = sel_of keccak m) (fns items) = Some m"
    using assms(2,3) by (intro find_distinct) (simp_all add: fns_set)
  have "answer us resolve body m (encode_tuple (map av_component vs) @ rest) st =
      map_option (\<lambda>(out, st'). (output_bytes out, st')) (body (fn_ident m) vs st)"
    using decode_args_encode [OF assms(6,7,8)] assms(5)
    by (simp add: answer_def method_dispatch_def split: option.split prod.split)
  moreover have "selector keccak sig = sel_of keccak m" by (simp add: sel_of_def assms(4))
  ultimately show ?thesis
    using f
    by (auto simp: dispatch_def Let_def expansion_fields [OF assms(1)] call_expr_impl split: option.splits)
qed

lemma contract_call_runs:
  assumes "expand_contract keccak items = Ok x" "IFn m \<in> set items" "routed m"
    and "eth_signature m = Ok sig"
    and "map resolve (abi_params (fn_inputs m)) = map av_kind vs" "list_all av_ok vs" "us \<le> 16"
    and "length (encode_tuple (map av_component vs) @ rest) < usize_bound us"
    and "callvalue = u256_zero \<or> encode_tuple (map av_component vs) @ rest \<noteq> []"
  shows "dispatch us resolve body x (selector keccak sig) (encode_tuple (map av_component vs) @ rest)
      callvalue st = map_option (\<lambda>(out, st'). (output_bytes out, st')) (body (fn_ident m) vs st)"
proof -
  have "\<not> (encode_tuple (map av_component vs) @ rest = [] \<and> callvalue \<noteq> u256_zero)" using assms(9) by blast
  then show ?thesis unfolding encoded_call_runs [OF assms(1-8)] by (simp only: if_False option.case)
qed

text \<open>C4 Calling a dispatched method of a contract, with its selector and the encoding of arguments of its
  parameter types, whatever follows them: the dispatcher runs that method on exactly those arguments and
  the current state, answers with nothing or with the encoding of the value it returns, leaves the state
  it leaves and panics when it does; a caller decodes the encoding of a value to that value. The one
  exception is a call with neither arguments nor further data that carries Ether, in a contract with a
  receive method: the receive method answers it.\<close>

theorem contract_call:
  assumes "expand_contract keccak items = Ok x" "IFn m \<in> set items" "routed m"
    and "eth_signature m = Ok sig"
    and "map resolve (abi_params (fn_inputs m)) = map av_kind vs" "list_all av_ok vs" "us \<le> 16"
    and "length (encode_tuple (map av_component vs) @ rest) < usize_bound us"
  shows "dispatch us resolve body x (selector keccak sig) (encode_tuple (map av_component vs) @ rest) callvalue st =
     (case (if encode_tuple (map av_component vs) @ rest = [] \<and> callvalue \<noteq> u256_zero
            then List.find is_receive (fns items) else None) of
        Some r \<Rightarrow> answer us resolve body r [] st
      | None \<Rightarrow>
          (case body (fn_ident m) vs st of
             None \<Rightarrow> None
           | Some (Unit, st') \<Rightarrow> Some ([], st')
           | Some (Value w, st') \<Rightarrow> Some (encode_output (av_component w), st')))
    \<and> (\<forall>w. av_ok w \<and> length (encode_output (av_component w)) < usize_bound us \<longrightarrow>
          av_decode us (av_kind w) (encode_output (av_component w)) 0 = Ok w)"
proof (intro conjI allI impI)
  show "av_decode us (av_kind w) (encode_output (av_component w)) 0 = Ok w"
    if "av_ok w \<and> length (encode_output (av_component w)) < usize_bound us" for w
    using any.output_roundtrip [where v = w and k = "av_kind w" and us = us] that assms(7) by simp
qed (unfold encoded_call_runs [OF assms], auto simp: encode_output_unit_def split: option.splits abi_output.splits)

theorem contract_call_witness:
  "dispatch 4 sample_resolve (\<lambda>f vs n. if f = ''set'' then Some (Value (hd vs), Suc n) else None)
     sample_x (selector (\<lambda>b. b) ''set(uint8,bool)'')
     (encode_tuple (map av_component [VU8 7, VBool True]) @ []) u256_zero 0 =
   Some (encode_output (av_component (VU8 7)), 1)"
proof -
  let ?m = "sample_fn ''set'' [named_ty ''u8'', named_ty ''bool'']"
  have "IFn ?m \<in> set sample_items" by (simp add: sample_items_def)
  moreover have "routed ?m" "eth_signature ?m = Ok ''set(uint8,bool)''"
    "map sample_resolve (abi_params (fn_inputs ?m)) = map av_kind [VU8 7, VBool True]" by code_simp+
  moreover have "length (encode_tuple (map av_component [VU8 7, VBool True]) @ []) < usize_bound 4"
    by (simp add: length_encode_tuple heads_size_def head_len_def usize_bound_def
        uint_to_component_def bool_to_component_def)
  ultimately show ?thesis
    by (subst contract_call [OF sample_expands, of ?m, THEN conjunct1]) (simp_all add: sample_fn_def)
qed

text \<open>The call-value guard of this commit: for nonempty calldata the answer does not depend on the
  value sent, whether or not the method is \<open>#[payable]\<close>, so no call is rejected for carrying
  Ether.\<close>

lemma callvalue_ignored:
  assumes "calldata \<noteq> []"
  shows "dispatch us resolve body x sel calldata callvalue st =
    dispatch us resolve body x sel calldata u256_zero st"
  using assms by (simp add: dispatch_def Let_def split: option.splits)

subsection \<open>The constructor\<close>

lemma expand_items_ctor:
  "expand_items keccak items x = Ok y \<Longrightarrow>
     x_ctor y = fold (\<lambda>m c. if is_ctor m then Some (ctor_of m) else c) (fns items) (x_ctor x)"
  by (induction keccak items x rule: expand_items.induct)
     (auto simp: bind_rust_Ok_iff expand_fn_Ok fn_step_def)

lemma fold_ctor_none:
  "filter is_ctor ms = [] \<Longrightarrow> fold (\<lambda>m c. if is_ctor m then Some (ctor_of m) else c) ms d = d"
  by (induction ms) (auto split: if_splits)

lemma fold_ctor_one:
  "m \<in> set ms \<Longrightarrow> is_ctor m \<Longrightarrow> length (filter is_ctor ms) \<le> 1 \<Longrightarrow>
     fold (\<lambda>m c. if is_ctor m then Some (ctor_of m) else c) ms d = Some (ctor_of m)"
proof (induction ms arbitrary: d)
  case (Cons n ms)
  show ?case
  proof (cases "is_ctor n")
    case True
    then have "filter is_ctor ms = []" using Cons.prems(3) by simp
    moreover from this have "m = n" using Cons.prems(1,2) by (auto simp: filter_empty_conv)
    ultimately show ?thesis using True by (simp add: fold_ctor_none)
  next
    case False
    then show ?thesis using Cons by auto
  qed
qed simp

lemma contract_ctor:
  assumes "expand_contract keccak items = Ok x" "IFn m \<in> set items" "is_ctor m"
  shows "x_ctor x = Some (ctor_of m)"
proof -
  have "length (filter is_ctor (fns items)) \<le> 1"
    using assms(1) length_filter_mono [of is_ctor "\<lambda>m. has_attr m ''constructor''" "fns items"]
    by (auto simp: expand_contract_Ok attr_sites_eq is_ctor_def)
  then show ?thesis
    using assms expand_items_ctor [of keccak items x_empty x]
    by (simp add: expand_contract_Ok fold_ctor_one fns_set)
qed

text \<open>The constructor of an expanded contract, on the encoding of arguments of its types and whatever
  follows them.\<close>

lemma contract_deploy_runs:
  assumes "expand_contract keccak items = Ok x" "IFn m \<in> set items" "is_ctor m"
    and "map resolve (abi_params (fn_inputs m)) = map av_kind vs" "list_all av_ok vs" "us \<le> 16"
    and "length (encode_tuple (map av_component vs) @ rest) < usize_bound us"
  shows "x_ctor x = Some (ctor_of m)"
    and "deploy us resolve body (ctor_of m) (encode_tuple (map av_component vs) @ rest) st =
      map_option snd (body (fn_ident m) vs st)"
  using contract_ctor [OF assms(1-3)] decode_args_encode [OF assms(5,6,7)] assms(4)
  by (simp_all add: deploy_def ctor_of_def)

end
