(* ===== verification/Storage.thy ===== *)
theory Storage
  imports Abi_Args
begin

text \<open>
  \<open>std-evm/src/storage/\<close>: typed slots, mappings, guards and the reentrancy lock, over the state the
  opcodes act on: the persistent and the transient address space and the memory. The opcode
  bindings of \<open>evm-sys\<close> have no body in the repository; the ones the storage layer calls are given
  the meaning the EVM documents for \<open>SLOAD\<close>, \<open>SSTORE\<close>, \<open>TLOAD\<close>, \<open>TSTORE\<close>, \<open>MSTORE\<close> and
  \<open>KECCAK256\<close>, the hash itself a parameter. A handle (\<open>handle.rs\<close>) has no data; what it permits is
  the type checker's business.
\<close>

subsection \<open>The state and the opcodes\<close>

record world =
  w_storage :: "u256 \<Rightarrow> u256"
  w_transient :: "u256 \<Rightarrow> u256"
  w_memory :: "nat \<Rightarrow> byte"

definition sload :: "u256 \<Rightarrow> world \<Rightarrow> u256" where "sload slot w = w_storage w slot"

definition sstore :: "u256 \<Rightarrow> u256 \<Rightarrow> world \<Rightarrow> world" where
  "sstore slot v w = w\<lparr>w_storage := (w_storage w)(slot := v)\<rparr>"

definition tload :: "u256 \<Rightarrow> world \<Rightarrow> u256" where "tload slot w = w_transient w slot"

definition tstore :: "u256 \<Rightarrow> u256 \<Rightarrow> world \<Rightarrow> world" where
  "tstore slot v w = w\<lparr>w_transient := (w_transient w)(slot := v)\<rparr>"

definition mstore :: "nat \<Rightarrow> u256 \<Rightarrow> world \<Rightarrow> world" where
  "mstore off v w = w\<lparr>w_memory :=
     (\<lambda>a. if off \<le> a \<and> a < off + 32 then u256_bytes v ! (a - off) else w_memory w a)\<rparr>"

definition keccak256 :: "(byte list \<Rightarrow> byte list) \<Rightarrow> nat \<Rightarrow> nat \<Rightarrow> world \<Rightarrow> u256" where
  "keccak256 keccak off len w = U256 (keccak (map (w_memory w) [off..<off + len]))"

subsection \<open>Values (value.rs)\<close>

definition u256_read_from :: "u256 \<Rightarrow> world \<Rightarrow> u256" where "u256_read_from slot w = sload slot w"

definition u256_write_to :: "u256 \<Rightarrow> u256 \<Rightarrow> world \<Rightarrow> world" where
  "u256_write_to v slot w = sstore slot v w"

definition address_word :: "address \<Rightarrow> byte list" where
  "address_word a = replicate 12 0 @ address_to_be_bytes a"

definition address_read_from :: "u256 \<Rightarrow> world \<Rightarrow> address" where
  "address_read_from slot w =
     address_from_be_bytes (drop 12 (u256_to_be_bytes (u256_read_from slot w)))"

definition address_write_to :: "address \<Rightarrow> u256 \<Rightarrow> world \<Rightarrow> world" where
  "address_write_to a slot w = u256_write_to (u256_from_be_bytes (address_word a)) slot w"

definition bool_read_from :: "u256 \<Rightarrow> world \<Rightarrow> bool" where
  "bool_read_from slot w \<longleftrightarrow> u256_read_from slot w \<noteq> u256_zero"

definition bool_word :: "bool \<Rightarrow> u256" where
  "bool_word b = (if b then u256_from_u64 1 else u256_zero)"

definition bool_write_to :: "bool \<Rightarrow> u256 \<Rightarrow> world \<Rightarrow> world" where
  "bool_write_to b slot w = u256_write_to (bool_word b) slot w"

definition u256_key_bytes :: "u256 \<Rightarrow> byte list" where "u256_key_bytes u = u256_to_be_bytes u"
definition address_key_bytes :: "address \<Rightarrow> byte list" where "address_key_bytes a = address_word a"

subsection \<open>Transient values (transient.rs)\<close>

definition u256_read_from_transient :: "u256 \<Rightarrow> world \<Rightarrow> u256" where
  "u256_read_from_transient slot w = tload slot w"

definition u256_write_to_transient :: "u256 \<Rightarrow> u256 \<Rightarrow> world \<Rightarrow> world" where
  "u256_write_to_transient v slot w = tstore slot v w"

definition bool_read_from_transient :: "u256 \<Rightarrow> world \<Rightarrow> bool" where
  "bool_read_from_transient slot w \<longleftrightarrow> u256_read_from_transient slot w \<noteq> u256_zero"

definition bool_write_to_transient :: "bool \<Rightarrow> u256 \<Rightarrow> world \<Rightarrow> world" where
  "bool_write_to_transient b slot w = u256_write_to_transient (bool_word b) slot w"

definition address_read_from_transient :: "u256 \<Rightarrow> world \<Rightarrow> address" where
  "address_read_from_transient slot w =
     address_from_be_bytes (drop 12 (u256_to_be_bytes (u256_read_from_transient slot w)))"

definition address_write_to_transient :: "address \<Rightarrow> u256 \<Rightarrow> world \<Rightarrow> world" where
  "address_write_to_transient a slot w =
     u256_write_to_transient (u256_from_be_bytes (address_word a)) slot w"

subsection \<open>Slots (slot.rs, transient.rs)\<close>

text \<open>\<open>Slot<T>\<close> and \<open>TransientSlot<T>\<close> hold a slot number; the reading and writing of \<open>T\<close> are
  arguments.\<close>

datatype slot_of = Slot (slot_word: u256)

definition slot_new :: "64 word \<Rightarrow> slot_of" where "slot_new n = Slot (u256_from_u64 n)"

definition slot_read :: "(u256 \<Rightarrow> world \<Rightarrow> 'a) \<Rightarrow> slot_of \<Rightarrow> world \<Rightarrow> 'a" where
  "slot_read read s w = read (slot_word s) w"

definition slot_write :: "('a \<Rightarrow> u256 \<Rightarrow> world \<Rightarrow> world) \<Rightarrow> slot_of \<Rightarrow> 'a \<Rightarrow> world \<Rightarrow> world" where
  "slot_write write s v w = write v (slot_word s) w"

datatype transient_slot = TransientSlot (tslot_word: u256)

definition transient_slot_new :: "64 word \<Rightarrow> transient_slot" where
  "transient_slot_new n = TransientSlot (u256_from_u64 n)"

definition transient_slot_read :: "(u256 \<Rightarrow> world \<Rightarrow> 'a) \<Rightarrow> transient_slot \<Rightarrow> world \<Rightarrow> 'a" where
  "transient_slot_read read s w = read (tslot_word s) w"

definition transient_slot_write ::
  "('a \<Rightarrow> u256 \<Rightarrow> world \<Rightarrow> world) \<Rightarrow> transient_slot \<Rightarrow> 'a \<Rightarrow> world \<Rightarrow> world" where
  "transient_slot_write write s v w = write v (tslot_word s) w"

subsection \<open>Mappings (mapping.rs)\<close>

text \<open>A view holds the base slot of its mapping. Deriving a slot writes the two scratch words of
  memory, so reading a mapping changes the state.\<close>

definition derived_slot ::
  "(byte list \<Rightarrow> byte list) \<Rightarrow> u256 \<Rightarrow> byte list \<Rightarrow> world \<Rightarrow> u256 \<times> world" where
  "derived_slot keccak base key w =
     (let w = mstore 0 (u256_from_be_bytes key) w;
          w = mstore 32 base w in
      (keccak256 keccak 0 64 w, w))"

datatype mapping_view = MappingView (map_slot: u256)

definition mapping_new :: "u256 \<Rightarrow> mapping_view" where "mapping_new slot = MappingView slot"

definition mapping_get ::
  "(byte list \<Rightarrow> byte list) \<Rightarrow> (u256 \<Rightarrow> world \<Rightarrow> 'v) \<Rightarrow> mapping_view \<Rightarrow> byte list \<Rightarrow> world \<Rightarrow>
     'v \<times> world" where
  "mapping_get keccak read m key w =
     (let (slot, w) = derived_slot keccak (map_slot m) key w in (read slot w, w))"

definition mapping_set ::
  "(byte list \<Rightarrow> byte list) \<Rightarrow> ('v \<Rightarrow> u256 \<Rightarrow> world \<Rightarrow> world) \<Rightarrow> mapping_view \<Rightarrow> byte list \<Rightarrow> 'v \<Rightarrow>
     world \<Rightarrow> world" where
  "mapping_set keccak write m key v w =
     (let (slot, w) = derived_slot keccak (map_slot m) key w in write v slot w)"

text \<open>The read-only view and the transient twins of both views.\<close>

definition mapping_ref_new :: "u256 \<Rightarrow> mapping_view" where "mapping_ref_new slot = MappingView slot"

definition mapping_ref_get ::
  "(byte list \<Rightarrow> byte list) \<Rightarrow> (u256 \<Rightarrow> world \<Rightarrow> 'v) \<Rightarrow> mapping_view \<Rightarrow> byte list \<Rightarrow> world \<Rightarrow>
     'v \<times> world" where
  "mapping_ref_get keccak read m key w =
     (let (slot, w) = derived_slot keccak (map_slot m) key w in (read slot w, w))"

datatype transient_view = TransientView (tmap_slot: u256)

definition transient_mapping_ref_new :: "u256 \<Rightarrow> transient_view" where
  "transient_mapping_ref_new slot = TransientView slot"

definition transient_mapping_ref_get ::
  "(byte list \<Rightarrow> byte list) \<Rightarrow> (u256 \<Rightarrow> world \<Rightarrow> 'v) \<Rightarrow> transient_view \<Rightarrow> byte list \<Rightarrow> world \<Rightarrow>
     'v \<times> world" where
  "transient_mapping_ref_get keccak read m key w =
     (let (slot, w) = derived_slot keccak (tmap_slot m) key w in (read slot w, w))"

definition transient_mapping_new :: "u256 \<Rightarrow> transient_view" where
  "transient_mapping_new slot = TransientView slot"

definition transient_mapping_get ::
  "(byte list \<Rightarrow> byte list) \<Rightarrow> (u256 \<Rightarrow> world \<Rightarrow> 'v) \<Rightarrow> transient_view \<Rightarrow> byte list \<Rightarrow> world \<Rightarrow>
     'v \<times> world" where
  "transient_mapping_get keccak read m key w =
     (let (slot, w) = derived_slot keccak (tmap_slot m) key w in (read slot w, w))"

definition transient_mapping_set ::
  "(byte list \<Rightarrow> byte list) \<Rightarrow> ('v \<Rightarrow> u256 \<Rightarrow> world \<Rightarrow> world) \<Rightarrow> transient_view \<Rightarrow> byte list \<Rightarrow> 'v \<Rightarrow>
     world \<Rightarrow> world" where
  "transient_mapping_set keccak write m key v w =
     (let (slot, w) = derived_slot keccak (tmap_slot m) key w in write v slot w)"

subsection \<open>Guards and the reentrancy lock (transient.rs)\<close>

datatype transient_guard = TransientGuard (guard_slot: u256)

definition guard_acquire :: "u256 \<Rightarrow> world \<Rightarrow> transient_guard \<times> world" where
  "guard_acquire slot w = (TransientGuard slot, bool_write_to_transient True slot w)"

definition guard_drop :: "transient_guard \<Rightarrow> world \<Rightarrow> world" where
  "guard_drop g w = bool_write_to_transient False (guard_slot g) w"

definition LOCK_SLOT :: u256 where
  "LOCK_SLOT = u256_from_be_bytes
     [0x30, 0xd3, 0x35, 0xfe, 0x93, 0x63, 0xe1, 0x30, 0x34, 0x4a, 0xba, 0x98, 0x8f, 0x03, 0x0a, 0x18,
      0x7d, 0x71, 0xdf, 0xf2, 0xf1, 0xcb, 0xda, 0x9b, 0x4d, 0x15, 0x58, 0x6f, 0xac, 0xd9, 0x32, 0xda]"

text \<open>\<open>None\<close> is the panic of a reentrant call.\<close>

definition lock_acquire :: "world \<Rightarrow> world option" where
  "lock_acquire w =
     (if bool_read_from_transient LOCK_SLOT w then None
      else Some (bool_write_to_transient True LOCK_SLOT w))"

definition lock_drop :: "world \<Rightarrow> world" where
  "lock_drop w = bool_write_to_transient False LOCK_SLOT w"

subsection \<open>The contract of a typed slot\<close>

text \<open>
  What slots, mappings and accessors rely on from \<open>StorageValue\<close> and \<open>TransientValue\<close>, where \<open>cell\<close> is
  the address space of the trait: a value is read from its own word, a write changes only that
  word, and what was written is read back.
\<close>

locale typed_cell =
  fixes cell :: "world \<Rightarrow> u256 \<Rightarrow> u256"
    and read :: "u256 \<Rightarrow> world \<Rightarrow> 'a"
    and put :: "'a \<Rightarrow> u256 \<Rightarrow> world \<Rightarrow> world"
    and ok :: "'a \<Rightarrow> bool"
  assumes read_local: "cell w s = cell w' s \<Longrightarrow> read s w = read s w'"
    and read_write: "ok v \<Longrightarrow> read s (put v s w) = v"
    and write_local: "t \<noteq> s \<Longrightarrow> cell (put v s w) t = cell w t"
    and cell_mstore: "cell (mstore off u w) = cell w"
begin

lemma read_write_other: "t \<noteq> s \<Longrightarrow> read t (put v s w) = read t w"
  by (rule read_local) (simp add: write_local)

lemma read_mstore: "read s (mstore off u w) = read s w"
  by (rule read_local) (simp add: cell_mstore)

lemma read_derived: "read s (snd (derived_slot keccak base key w)) = read s w"
  by (simp add: derived_slot_def Let_def read_mstore)

end

lemmas value_defs = u256_read_from_def u256_write_to_def address_read_from_def address_write_to_def
  bool_read_from_def bool_write_to_def u256_read_from_transient_def u256_write_to_transient_def
  address_read_from_transient_def address_write_to_transient_def bool_read_from_transient_def
  bool_write_to_transient_def address_word_def address_to_be_bytes_def address_from_be_bytes_def
  u256_to_be_bytes_def u256_from_be_bytes_def

lemmas opcode_defs = sload_def sstore_def tload_def tstore_def mstore_def

lemma u256_one_ne_zero: "u256_from_u64 1 \<noteq> u256_zero"
proof
  assume "u256_from_u64 1 = u256_zero"
  then have "be_val (u256_bytes (u256_from_u64 1)) = be_val (u256_bytes u256_zero)" by simp
  then show False by (simp add: u256_from_u64_def u256_zero_def be_val_be_bytes)
qed

lemma bool_word_eq_zero [simp]: "bool_word b = u256_zero \<longleftrightarrow> \<not> b"
  by (simp add: bool_word_def u256_one_ne_zero)

interpretation u256_value: typed_cell w_storage u256_read_from u256_write_to "\<lambda>_. True"
  by unfold_locales (auto simp: value_defs opcode_defs)

interpretation address_value: typed_cell w_storage address_read_from address_write_to address_ok
  by unfold_locales (auto simp: value_defs opcode_defs)

interpretation bool_value: typed_cell w_storage bool_read_from bool_write_to "\<lambda>_. True"
  by unfold_locales (auto simp: value_defs opcode_defs)

interpretation u256_transient: typed_cell w_transient u256_read_from_transient u256_write_to_transient "\<lambda>_. True"
  by unfold_locales (auto simp: value_defs opcode_defs)

interpretation address_transient: typed_cell w_transient address_read_from_transient
  address_write_to_transient address_ok
  by unfold_locales (auto simp: value_defs opcode_defs)

interpretation bool_transient: typed_cell w_transient bool_read_from_transient bool_write_to_transient "\<lambda>_. True"
  by unfold_locales (auto simp: value_defs opcode_defs)

subsection \<open>Mappings\<close>

text \<open>The word a mapping entry lives at: Solidity's \<open>keccak256(key ++ slot)\<close>.\<close>

definition hashed_slot :: "(byte list \<Rightarrow> byte list) \<Rightarrow> u256 \<Rightarrow> byte list \<Rightarrow> u256" where
  "hashed_slot keccak base key = U256 (keccak (key @ u256_bytes base))"

lemma map_nth_shift: "length xs = n \<Longrightarrow> map (\<lambda>a. xs ! (a - k)) [k..<k + n] = xs"
  by (rule nth_equalityI) auto

lemma fst_derived_slot:
  assumes "length key = 32" "u256_ok base"
  shows "fst (derived_slot keccak base key w) = hashed_slot keccak base key"
proof -
  let ?w = "mstore 32 base (mstore 0 (u256_from_be_bytes key) w)"
  have b: "length (u256_bytes base) = 32" using assms(2) by (simp add: u256_ok_def)
  have "[0..<0 + 64] = [0..<0 + 32] @ [32..<32 + (32 :: nat)]"
    using upt_add_eq_append [of 0 32 32] by simp
  moreover have "map (w_memory ?w) [0..<0 + 32] = map (\<lambda>a. key ! (a - 0)) [0..<0 + 32]"
    by (rule map_cong) (auto simp: mstore_def u256_from_be_bytes_def)
  moreover have "map (w_memory ?w) [32..<32 + 32] = map (\<lambda>a. u256_bytes base ! (a - 32)) [32..<32 + 32]"
    by (rule map_cong) (auto simp: mstore_def)
  ultimately show ?thesis
    by (simp only: derived_slot_def keccak256_def hashed_slot_def Let_def fst_conv map_append
      map_nth_shift [OF assms(1)] map_nth_shift [OF b])
qed

context typed_cell begin

lemma mapping_get_eq:
  "length key = 32 \<Longrightarrow> u256_ok (map_slot m) \<Longrightarrow>
     fst (mapping_get keccak read m key w) = read (hashed_slot keccak (map_slot m) key) w"
  using fst_derived_slot [of key "map_slot m" keccak w] read_derived
  by (simp add: mapping_get_def split_beta)

lemma put_derived:
  "t \<noteq> s \<Longrightarrow> read t (put v s (snd (derived_slot keccak base key w))) = read t w"
  by (simp add: read_write_other read_derived)

lemma mapping_set_read:
  assumes "length key = 32" "u256_ok (map_slot m)" "ok v"
  shows "read t (mapping_set keccak put m key v w) =
     (if t = hashed_slot keccak (map_slot m) key then v else read t w)"
  using fst_derived_slot [OF assms(1,2), of keccak w] assms(3)
  by (auto simp: mapping_set_def split_beta read_write put_derived)

end

subsection \<open>The reentrancy lock as a state machine\<close>

text \<open>
  A state is the world and the number of live locks. Taking the lock and dropping a live one are
  the steps of \<open>transient.rs\<close>; any other code is a step that keeps the lock's word. A call that
  finds the lock held panics, so it makes no step.
\<close>

definition held :: "world \<Rightarrow> bool" where "held w \<longleftrightarrow> bool_read_from_transient LOCK_SLOT w"

inductive lock_step :: "world \<times> nat \<Rightarrow> world \<times> nat \<Rightarrow> bool" where
  take_lock: "lock_acquire w = Some w' \<Longrightarrow> lock_step (w, n) (w', n + 1)"
| drop_lock: "lock_step (w, n + 1) (lock_drop w, n)"
| other_code: "w_transient w' LOCK_SLOT = w_transient w LOCK_SLOT \<Longrightarrow> lock_step (w, n) (w', n)"

inductive_cases lock_stepE: "lock_step (w, n) c"

lemma held_acquire: "lock_acquire w = Some w' \<Longrightarrow> \<not> held w \<and> held w'"
  by (auto simp: lock_acquire_def held_def bool_transient.read_write split: if_splits)

lemma held_drop: "\<not> held (lock_drop w)"
  by (simp add: lock_drop_def held_def bool_transient.read_write)

lemma held_local: "w_transient w' LOCK_SLOT = w_transient w LOCK_SLOT \<Longrightarrow> held w' = held w"
  unfolding held_def by (rule bool_transient.read_local)

lemma lock_step_inv:
  assumes "lock_step (w, n) (w', n')" "n \<le> 1 \<and> (held w \<longleftrightarrow> n = 1)"
  shows "n' \<le> 1 \<and> (held w' \<longleftrightarrow> n' = 1)"
  using assms by (auto elim!: lock_stepE dest: held_acquire held_local simp: held_drop)

lemma lock_reachable_inv:
  assumes "lock_step\<^sup>*\<^sup>* (w, 0) (w', n)" "\<not> held w"
  shows "n \<le> 1 \<and> (held w' \<longleftrightarrow> n = 1)"
  using assms(1)
proof (induction "(w', n)" arbitrary: w' n rule: rtranclp_induct)
  case base
  then show ?case using assms(2) by simp
next
  case (step y)
  then show ?case using lock_step_inv by (cases y) blast
qed

text \<open>C14 \<open>ReentrancyLock\<close>: in every state reachable from one with the lock clear, through any code that
  keeps the lock's word, at most one lock is live, its word is set exactly while one is, and a
  reentrant acquisition panics exactly then.\<close>

theorem lock_mutual_exclusion:
  assumes "lock_step\<^sup>*\<^sup>* (w, 0) (w', n)" "\<not> held w"
  shows "n \<le> 1 \<and> (held w' \<longleftrightarrow> n = 1) \<and> (lock_acquire w' = None \<longleftrightarrow> n = 1)"
  using lock_reachable_inv [OF assms] by (simp add: lock_acquire_def held_def)

definition clear_world :: world where
  "clear_world = \<lparr>w_storage = (\<lambda>_. u256_zero), w_transient = (\<lambda>_. u256_zero), w_memory = (\<lambda>_. 0)\<rparr>"

lemma not_held_clear: "\<not> held clear_world"
  by (simp add: held_def clear_world_def value_defs opcode_defs)

lemma acquire_clear: "lock_acquire clear_world = Some (bool_write_to_transient True LOCK_SLOT clear_world)"
  using not_held_clear by (simp add: lock_acquire_def held_def)

theorem lock_mutual_exclusion_witness:
  "lock_acquire (bool_write_to_transient True LOCK_SLOT clear_world) = None"
  using lock_mutual_exclusion [of clear_world "bool_write_to_transient True LOCK_SLOT clear_world" 1]
    take_lock [OF acquire_clear, of 0] not_held_clear
  by auto

text \<open>The documented footgun of guards: dropping the first of two on one slot clears the flag while
  the second is live.\<close>

lemma guard_overlap:
  "\<not> bool_read_from_transient slot (guard_drop (fst (guard_acquire slot w)) (snd (guard_acquire slot w')))"
  by (simp add: guard_drop_def guard_acquire_def bool_transient.read_write)

lemma guard_scope:
  "bool_read_from_transient slot (snd (guard_acquire slot w))"
  "\<not> bool_read_from_transient slot (guard_drop (fst (guard_acquire slot w)) w')"
  by (simp_all add: guard_drop_def guard_acquire_def bool_transient.read_write)

subsection \<open>Slots\<close>

lemma u256_from_u64_inject: "u256_from_u64 m = u256_from_u64 n \<longleftrightarrow> m = n"
proof
  assume "u256_from_u64 m = u256_from_u64 n"
  then have "be_val (be_bytes 8 (unat m)) = be_val (be_bytes 8 (unat n))"
    by (simp add: u256_from_u64_def)
  then show "m = n"
    using be_val_be_bytes_word [of 8 m] be_val_be_bytes_word [of 8 n]
    by (simp add: word_unat_eq_iff)
qed simp

lemma u256_from_u64_ok: "u256_ok (u256_from_u64 n)"
  by (simp add: u256_ok_def u256_from_u64_def)

definition sequential :: "u256 \<Rightarrow> bool" where
  "sequential s \<longleftrightarrow> take 24 (u256_bytes s) = replicate 24 0"

lemma sequential_from_u64: "sequential (u256_from_u64 n)"
  by (simp add: sequential_def u256_from_u64_def)

lemma lock_not_sequential: "\<not> sequential LOCK_SLOT"
  by code_simp

end
