(* ===== verification/Macro_Layout.thy ===== *)
theory Macro_Layout
  imports Macro_Signature Storage
begin

text \<open>
  \<open>std-evm-macros/src/layout.rs\<close>: the expansion of \<open>#[storage]\<close> and \<open>#[transient]\<close>. Each field gets
  the slot of its index and accessors of its shape; an accessor is a data structure in place of the
  generated functions, and \<open>acc_get\<close> and \<open>acc_set\<close> say what the generated functions do, followed by
  the \<open>get\<close> or \<open>set\<close> of the view a mapping accessor returns.
\<close>

subsection \<open>The expansion\<close>

record flavor =
  fl_layout_trait :: string
  fl_handle :: string
  fl_slot_ty :: string
  fl_map_ref :: string
  fl_map_mut :: string
  fl_guards :: bool

definition flavor_persistent :: flavor where
  "flavor_persistent =
     \<lparr>fl_layout_trait = ''::std_evm::StorageLayout'', fl_handle = ''::std_evm::Storage'',
      fl_slot_ty = ''::std_evm::Slot'', fl_map_ref = ''::std_evm::MappingRef'',
      fl_map_mut = ''::std_evm::MappingMut'', fl_guards = False\<rparr>"

definition flavor_transient :: flavor where
  "flavor_transient =
     \<lparr>fl_layout_trait = ''::std_evm::TransientLayout'', fl_handle = ''::std_evm::TransientStorage'',
      fl_slot_ty = ''::std_evm::TransientSlot'', fl_map_ref = ''::std_evm::TransientMappingRef'',
      fl_map_mut = ''::std_evm::TransientMappingMut'', fl_guards = True\<rparr>"

definition is_bool :: "rust_ty \<Rightarrow> bool" where
  "is_bool ty =
     (case ty of
        TPath qself leading [Seg name NoArgs] \<Rightarrow> \<not> qself \<and> \<not> leading \<and> name = ''bool''
      | _ \<Rightarrow> False)"

definition mapping_generics :: "rust_ty \<Rightarrow> (macro_error, (rust_ty \<times> rust_ty) option) rust" where
  "mapping_generics ty =
     (case ty of
        TPath _ _ segs \<Rightarrow>
          (case last_seg segs of
             None \<Rightarrow> Ok None
           | Some seg \<Rightarrow>
               if seg_ident seg \<noteq> ''Mapping'' then Ok None
               else (case seg_args seg of
                       Angle args \<Rightarrow>
                         (case type_args args of
                            [k, v] \<Rightarrow> Ok (Some (k, v))
                          | _ \<Rightarrow> Err MappingArity)
                     | _ \<Rightarrow> Err MappingNoArgs))
      | _ \<Rightarrow> Ok None)"

datatype accessor =
    NestedMap string (acc_slot: "64 word") rust_ty rust_ty rust_ty
  | MapField string (acc_slot: "64 word") rust_ty rust_ty
  | Leaf string (acc_slot: "64 word") rust_ty bool

definition field_accessor ::
  "flavor \<Rightarrow> nat \<Rightarrow> string \<times> rust_ty \<Rightarrow> (macro_error, accessor) rust" where
  "field_accessor flavor i field =
     (let (name, ty) = field; slot = of_nat i in
      bind_rust (mapping_generics ty) (\<lambda>m.
      case m of
        Some (k, v) \<Rightarrow>
          bind_rust (mapping_generics v) (\<lambda>m2.
          case m2 of
            Some (k2, v2) \<Rightarrow> Ok (NestedMap name slot k k2 v2)
          | None \<Rightarrow> Ok (MapField name slot k v))
      | None \<Rightarrow> Ok (Leaf name slot ty (fl_guards flavor \<and> is_bool ty))))"

fun expand_fields ::
  "flavor \<Rightarrow> nat \<Rightarrow> (string \<times> rust_ty) list \<Rightarrow> (macro_error, accessor list) rust" where
  "expand_fields flavor i [] = Ok []"
| "expand_fields flavor i (field # fs) =
     bind_rust (field_accessor flavor i field) (\<lambda>a.
     bind_rust (expand_fields flavor (i + 1) fs) (\<lambda>as. Ok (a # as)))"

datatype struct_fields = Named "(string \<times> rust_ty) list" | Unnamed

record layout =
  lay_name :: string
  lay_trait :: string
  lay_access_trait :: string
  lay_handle :: string
  lay_accessors :: "accessor list"

definition expand_layout ::
  "string \<Rightarrow> struct_fields \<Rightarrow> flavor \<Rightarrow> string \<Rightarrow> (macro_error, layout) rust" where
  "expand_layout name sf flavor macro_name =
     (case sf of
        Unnamed \<Rightarrow> Err (UnnamedFields macro_name)
      | Named fs \<Rightarrow>
          bind_rust (expand_fields flavor 0 fs) (\<lambda>as.
            Ok \<lparr>lay_name = name, lay_trait = fl_layout_trait flavor,
                lay_access_trait = name @ ''Access'', lay_handle = fl_handle flavor,
                lay_accessors = as\<rparr>))"

definition expand_storage :: "string \<Rightarrow> struct_fields \<Rightarrow> (macro_error, layout) rust" where
  "expand_storage name sf = expand_layout name sf flavor_persistent ''#[storage]''"

definition expand_transient :: "string \<Rightarrow> struct_fields \<Rightarrow> (macro_error, layout) rust" where
  "expand_transient name sf = expand_layout name sf flavor_transient ''#[transient]''"

subsection \<open>What the accessors do\<close>

text \<open>The storable types, and the two address spaces a handle may reach.\<close>

datatype skind = SkU256 | SkAddress | SkBool
datatype sval = SvU256 u256 | SvAddress address | SvBool bool

fun sv_kind :: "sval \<Rightarrow> skind" where
  "sv_kind (SvU256 _) = SkU256"
| "sv_kind (SvAddress _) = SkAddress"
| "sv_kind (SvBool _) = SkBool"

fun sv_ok :: "sval \<Rightarrow> bool" where
  "sv_ok (SvAddress a) = address_ok a"
| "sv_ok _ = True"

fun sv_read :: "handle_kind \<Rightarrow> skind \<Rightarrow> u256 \<Rightarrow> world \<Rightarrow> sval" where
  "sv_read Persistent SkU256 s w = SvU256 (u256_read_from s w)"
| "sv_read Persistent SkAddress s w = SvAddress (address_read_from s w)"
| "sv_read Persistent SkBool s w = SvBool (bool_read_from s w)"
| "sv_read Transient SkU256 s w = SvU256 (u256_read_from_transient s w)"
| "sv_read Transient SkAddress s w = SvAddress (address_read_from_transient s w)"
| "sv_read Transient SkBool s w = SvBool (bool_read_from_transient s w)"

fun sv_put :: "handle_kind \<Rightarrow> sval \<Rightarrow> u256 \<Rightarrow> world \<Rightarrow> world" where
  "sv_put Persistent (SvU256 v) s w = u256_write_to v s w"
| "sv_put Persistent (SvAddress v) s w = address_write_to v s w"
| "sv_put Persistent (SvBool v) s w = bool_write_to v s w"
| "sv_put Transient (SvU256 v) s w = u256_write_to_transient v s w"
| "sv_put Transient (SvAddress v) s w = address_write_to_transient v s w"
| "sv_put Transient (SvBool v) s w = bool_write_to_transient v s w"

fun cell_of :: "handle_kind \<Rightarrow> world \<Rightarrow> u256 \<Rightarrow> u256" where
  "cell_of Persistent w = w_storage w"
| "cell_of Transient w = w_transient w"

text \<open>What the generated code of a field does: a leaf goes through the slot type of the flavor, a
  mapping through its read or write view.\<close>

definition leaf_get :: "handle_kind \<Rightarrow> skind \<Rightarrow> 64 word \<Rightarrow> world \<Rightarrow> sval" where
  "leaf_get sp k slot w =
     (case sp of
        Persistent \<Rightarrow> slot_read (sv_read sp k) (slot_new slot) w
      | Transient \<Rightarrow> transient_slot_read (sv_read sp k) (transient_slot_new slot) w)"

definition leaf_set :: "handle_kind \<Rightarrow> 64 word \<Rightarrow> sval \<Rightarrow> world \<Rightarrow> world" where
  "leaf_set sp slot v w =
     (case sp of
        Persistent \<Rightarrow> slot_write (sv_put sp) (slot_new slot) v w
      | Transient \<Rightarrow> transient_slot_write (sv_put sp) (transient_slot_new slot) v w)"

definition view_get ::
  "(byte list \<Rightarrow> byte list) \<Rightarrow> handle_kind \<Rightarrow> skind \<Rightarrow> u256 \<Rightarrow> byte list \<Rightarrow> world \<Rightarrow> sval \<times> world" where
  "view_get keccak sp k base key w =
     (case sp of
        Persistent \<Rightarrow> mapping_ref_get keccak (sv_read sp k) (mapping_ref_new base) key w
      | Transient \<Rightarrow>
          transient_mapping_ref_get keccak (sv_read sp k) (transient_mapping_ref_new base) key w)"

definition view_set ::
  "(byte list \<Rightarrow> byte list) \<Rightarrow> handle_kind \<Rightarrow> u256 \<Rightarrow> byte list \<Rightarrow> sval \<Rightarrow> world \<Rightarrow> world" where
  "view_set keccak sp base key v w =
     (case sp of
        Persistent \<Rightarrow> mapping_set keccak (sv_put sp) (mapping_new base) key v w
      | Transient \<Rightarrow> transient_mapping_set keccak (sv_put sp) (transient_mapping_new base) key v w)"

text \<open>The keys are those the call passes: none for a leaf, one for a mapping, two for a nested one.\<close>

fun acc_get ::
  "(byte list \<Rightarrow> byte list) \<Rightarrow> handle_kind \<Rightarrow> skind \<Rightarrow> accessor \<Rightarrow> byte list list \<Rightarrow> world \<Rightarrow>
     (sval \<times> world) option" where
  "acc_get keccak sp k (Leaf _ slot _ _) [] w = Some (leaf_get sp k slot w, w)"
| "acc_get keccak sp k (MapField _ slot _ _) [key] w =
     Some (view_get keccak sp k (u256_from_u64 slot) key w)"
| "acc_get keccak sp k (NestedMap _ slot _ _ _) [key, key2] w =
     (let (s, w) = derived_slot keccak (u256_from_u64 slot) key w in
      Some (view_get keccak sp k s key2 w))"
| "acc_get keccak sp k _ _ w = None"

fun acc_set ::
  "(byte list \<Rightarrow> byte list) \<Rightarrow> handle_kind \<Rightarrow> accessor \<Rightarrow> byte list list \<Rightarrow> sval \<Rightarrow> world \<Rightarrow>
     world option" where
  "acc_set keccak sp (Leaf _ slot _ _) [] v w = Some (leaf_set sp slot v w)"
| "acc_set keccak sp (MapField _ slot _ _) [key] v w =
     Some (view_set keccak sp (u256_from_u64 slot) key v w)"
| "acc_set keccak sp (NestedMap _ slot _ _ _) [key, key2] v w =
     (let (s, w) = derived_slot keccak (u256_from_u64 slot) key w in
      Some (view_set keccak sp s key2 v w))"
| "acc_set keccak sp _ _ v w = None"

text \<open>The guard accessor of a transient flag.\<close>

fun acc_guard :: "accessor \<Rightarrow> world \<Rightarrow> (transient_guard \<times> world) option" where
  "acc_guard (Leaf _ slot _ True) w = Some (guard_acquire (u256_from_u64 slot) w)"
| "acc_guard _ w = None"

text \<open>The two flavors differ in the types only.\<close>

lemma flavors_agree:
  "leaf_get sp k slot w = sv_read sp k (u256_from_u64 slot) w"
  "leaf_set sp slot v w = sv_put sp v (u256_from_u64 slot) w"
  "view_get keccak sp k base key w =
     (let (slot, w) = derived_slot keccak base key w in (sv_read sp k slot w, w))"
  "view_set keccak sp base key v w =
     (let (slot, w) = derived_slot keccak base key w in sv_put sp v slot w)"
  by (cases sp; simp add: leaf_get_def leaf_set_def view_get_def view_set_def slot_read_def
      slot_write_def slot_new_def transient_slot_read_def transient_slot_write_def
      transient_slot_new_def mapping_ref_get_def mapping_ref_new_def mapping_set_def mapping_new_def
      transient_mapping_ref_get_def transient_mapping_ref_new_def transient_mapping_set_def
      transient_mapping_new_def)+

subsection \<open>The typed cells of the accessors\<close>

lemmas cell_laws_read_local = u256_value.read_local address_value.read_local bool_value.read_local
  u256_transient.read_local address_transient.read_local bool_transient.read_local
lemmas cell_laws_read_write = u256_value.read_write address_value.read_write bool_value.read_write
  u256_transient.read_write address_transient.read_write bool_transient.read_write
lemmas cell_laws_write_local = u256_value.write_local address_value.write_local bool_value.write_local
  u256_transient.write_local address_transient.write_local bool_transient.write_local

interpretation sv: typed_cell "cell_of sp" "sv_read sp k" "sv_put sp" "\<lambda>v. sv_kind v = k \<and> sv_ok v" for sp k
proof
  fix w s w'
  assume "cell_of sp w s = cell_of sp w' s"
  then show "sv_read sp k s w = sv_read sp k s w'"
    by (cases sp; cases k) (simp_all, (erule cell_laws_read_local)+)
next
  fix v s w
  assume "sv_kind v = k \<and> sv_ok v"
  then show "sv_read sp k s (sv_put sp v s w) = v"
    by (cases sp; cases v) (auto simp: cell_laws_read_write)
next
  fix t s v w
  assume "t \<noteq> (s :: u256)"
  then show "cell_of sp (sv_put sp v s w) t = cell_of sp w t"
    by (cases sp; cases v) (auto simp: cell_laws_write_local)
next
  fix off u w
  show "cell_of sp (mstore off u w) = cell_of sp w"
    by (cases sp) (simp_all add: mstore_def)
qed

subsection \<open>Where an accessor reads and writes\<close>

text \<open>The location of an accessor call as a term over slots and hashes, and the word it denotes.\<close>

datatype loc = Seq "64 word" | Hash "byte list" loc

fun loc_word :: "(byte list \<Rightarrow> byte list) \<Rightarrow> loc \<Rightarrow> u256" where
  "loc_word keccak (Seq n) = u256_from_u64 n"
| "loc_word keccak (Hash key l) = hashed_slot keccak (loc_word keccak l) key"

fun preimages :: "(byte list \<Rightarrow> byte list) \<Rightarrow> loc \<Rightarrow> byte list set" where
  "preimages keccak (Seq n) = {}"
| "preimages keccak (Hash key l) =
     insert (key @ u256_bytes (loc_word keccak l)) (preimages keccak l)"

fun acc_loc :: "accessor \<Rightarrow> byte list list \<Rightarrow> loc option" where
  "acc_loc (Leaf _ slot _ _) [] = Some (Seq slot)"
| "acc_loc (MapField _ slot _ _) [key] = Some (Hash key (Seq slot))"
| "acc_loc (NestedMap _ slot _ _ _) [key, key2] = Some (Hash key2 (Hash key (Seq slot)))"
| "acc_loc _ _ = None"

text \<open>The hash behaves on the strings in \<open>S\<close> as a contract relies on: 32-byte digests, no collision
  among them, and no digest among the small numbers used as slots.\<close>

definition no_collision :: "(byte list \<Rightarrow> byte list) \<Rightarrow> byte list set \<Rightarrow> bool" where
  "no_collision keccak S \<longleftrightarrow>
     inj_on keccak S \<and> (\<forall>x \<in> S. length (keccak x) = 32 \<and> \<not> sequential (U256 (keccak x)))"

fun keys_ok :: "loc \<Rightarrow> bool" where
  "keys_ok (Seq n) = True"
| "keys_ok (Hash key l) \<longleftrightarrow> length key = 32 \<and> keys_ok l"

lemma loc_word_ok: "no_collision keccak (preimages keccak l) \<Longrightarrow> u256_ok (loc_word keccak l)"
  by (cases l) (auto simp: hashed_slot_def no_collision_def u256_ok_def u256_from_u64_def)

lemma no_collision_mono: "no_collision keccak S \<Longrightarrow> T \<subseteq> S \<Longrightarrow> no_collision keccak T"
  unfolding no_collision_def using inj_on_subset by blast

lemma loc_word_inject:
  assumes "no_collision keccak (preimages keccak l \<union> preimages keccak l')" "keys_ok l" "keys_ok l'"
    and "loc_word keccak l = loc_word keccak l'"
  shows "l = l'"
  using assms
proof (induction l arbitrary: l')
  case (Seq n)
  then show ?case
  proof (cases l')
    case (Hash k m)
    then show ?thesis
      using Seq.prems sequential_from_u64 [of n] by (simp add: no_collision_def hashed_slot_def)
  qed (simp add: u256_from_u64_inject)
next
  case (Hash key m)
  show ?case
  proof (cases l')
    case (Seq n)
    then show ?thesis
      using Hash.prems sequential_from_u64 [of n] by (auto simp: no_collision_def hashed_slot_def)
  next
    case h: (Hash key' m')
    have "keccak (key @ u256_bytes (loc_word keccak m)) = keccak (key' @ u256_bytes (loc_word keccak m'))"
      using Hash.prems(4) h by (simp add: hashed_slot_def)
    moreover have "inj_on keccak (preimages keccak (Hash key m) \<union> preimages keccak (Hash key' m'))"
      using Hash.prems(1) h by (simp add: no_collision_def)
    ultimately have "key @ u256_bytes (loc_word keccak m) = key' @ u256_bytes (loc_word keccak m')"
      by (elim inj_onD) simp_all
    then have e: "key = key'" "loc_word keccak m = loc_word keccak m'"
      using Hash.prems(2,3) h by (auto intro: u256.expand)
    have "m = m'"
      using Hash.prems h e(2) by (intro Hash.IH) (auto elim: no_collision_mono)
    then show ?thesis using e h by simp
  qed
qed

lemma derived_slot_loc:
  assumes "no_collision keccak (preimages keccak (Hash key l))" "keys_ok (Hash key l)"
  shows "fst (derived_slot keccak (loc_word keccak l) key w) = loc_word keccak (Hash key l)"
proof -
  have "no_collision keccak (preimages keccak l)" using assms(1) by (auto elim: no_collision_mono)
  then show ?thesis using assms(2) by (simp add: fst_derived_slot loc_word_ok)
qed

lemma acc_get_loc:
  assumes "acc_loc a ks = Some l" "keys_ok l" "no_collision keccak (preimages keccak l)"
  shows "map_option fst (acc_get keccak sp k a ks w) = Some (sv_read sp k (loc_word keccak l) w)"
proof -
  from assms(1) consider
    (leaf) n s t g where "a = Leaf n s t g" "ks = []" "l = Seq s"
  | (map) n s t u key where "a = MapField n s t u" "ks = [key]" "l = Hash key (Seq s)"
  | (nested) n s t u v key key2 where "a = NestedMap n s t u v" "ks = [key, key2]"
      "l = Hash key2 (Hash key (Seq s))"
    by (cases "(a, ks)" rule: acc_loc.cases) auto
  then show ?thesis
  proof cases
    case leaf
    then show ?thesis by (simp add: flavors_agree)
  next
    case map
    then show ?thesis
      using assms(2,3) derived_slot_loc [of keccak key "Seq s" w]
      by (simp add: flavors_agree split_beta sv.read_derived)
  next
    case nested
    have "no_collision keccak (preimages keccak (Hash key (Seq s)))"
      using assms(3) nested by (auto elim: no_collision_mono)
    then have "fst (derived_slot keccak (u256_from_u64 s) key w) = loc_word keccak (Hash key (Seq s))"
      using derived_slot_loc [of keccak key "Seq s" w] assms(2) nested by simp
    then show ?thesis
      using nested derived_slot_loc [of keccak key2 "Hash key (Seq s)"] assms(2,3)
      by (simp add: flavors_agree split_beta sv.read_derived)
  qed
qed

lemma acc_set_loc:
  assumes "acc_loc a ks = Some l" "keys_ok l" "no_collision keccak (preimages keccak l)"
  shows "\<exists>w0. acc_set keccak sp a ks v w = Some (sv_put sp v (loc_word keccak l) w0)
    \<and> (\<forall>sp. cell_of sp w0 = cell_of sp w)"
proof -
  have c: "cell_of sp (snd (derived_slot keccak b key w)) = cell_of sp w" for sp b key w
    by (simp add: derived_slot_def Let_def sv.cell_mstore)
  from assms(1) consider
    (leaf) n s t g where "a = Leaf n s t g" "ks = []" "l = Seq s"
  | (map) n s t u key where "a = MapField n s t u" "ks = [key]" "l = Hash key (Seq s)"
  | (nested) n s t u v key key2 where "a = NestedMap n s t u v" "ks = [key, key2]"
      "l = Hash key2 (Hash key (Seq s))"
    by (cases "(a, ks)" rule: acc_loc.cases) auto
  then show ?thesis
  proof cases
    case leaf
    then show ?thesis by (auto simp: flavors_agree)
  next
    case map
    have "fst (derived_slot keccak (u256_from_u64 s) key w) = loc_word keccak l"
      using derived_slot_loc [of keccak key "Seq s" w] assms(2,3) map by simp
    then show ?thesis
      using map c by (auto simp: flavors_agree split_beta)
  next
    case nested
    have "no_collision keccak (preimages keccak (Hash key (Seq s)))"
      using assms(3) nested by (auto elim: no_collision_mono)
    then have "fst (derived_slot keccak (u256_from_u64 s) key w) = loc_word keccak (Hash key (Seq s))"
      using derived_slot_loc [of keccak key "Seq s" w] assms(2) nested by simp
    moreover have "fst (derived_slot keccak (loc_word keccak (Hash key (Seq s))) key2 w1) = loc_word keccak l" for w1
      using derived_slot_loc [of keccak key2 "Hash key (Seq s)"] assms(2,3) nested by simp
    ultimately show ?thesis
      using nested c by (auto simp: flavors_agree split_beta simp del: loc_word.simps)
  qed
qed

subsection \<open>Fields do not overlap\<close>

lemma field_accessor_slot: "field_accessor fl i f = Ok a \<Longrightarrow> acc_slot a = of_nat i"
  by (auto simp: field_accessor_def Let_def bind_rust_Ok_iff split: option.splits prod.splits)

lemma expand_fields_nth:
  "expand_fields fl i fs = Ok as \<Longrightarrow>
     length as = length fs \<and> (\<forall>j < length as. acc_slot (as ! j) = of_nat (i + j))"
proof (induction fl i fs arbitrary: as rule: expand_fields.induct)
  case (2 fl i f fs)
  then obtain a bs where a: "field_accessor fl i f = Ok a" "as = a # bs"
    and bs: "expand_fields fl (i + 1) fs = Ok bs"
    by (auto simp: bind_rust_Ok_iff)
  from "2.IH" [OF a(1) bs] show ?case
    using field_accessor_slot [OF a(1)] a(2)
    by (auto simp: nth_Cons add.assoc [symmetric] split: nat.split)
qed simp

lemma acc_loc_eq_slot:
  "acc_loc a ks = Some l \<Longrightarrow> acc_loc b ls = Some l \<Longrightarrow> acc_slot a = acc_slot b \<and> ks = ls"
  by (cases "(a, ks)" rule: acc_loc.cases; cases "(b, ls)" rule: acc_loc.cases) auto

lemma expand_layout_slots:
  assumes "expand_layout name (Named fs) fl mac = Ok lay" "length fs \<le> 2 ^ 64"
    and "i < length (lay_accessors lay)" "j < length (lay_accessors lay)"
    and "acc_slot (lay_accessors lay ! i) = acc_slot (lay_accessors lay ! j)"
  shows "i = j"
proof -
  have e: "expand_fields fl 0 fs = Ok (lay_accessors lay)"
    using assms(1) by (auto simp: expand_layout_def bind_rust_Ok_iff)
  note n = expand_fields_nth [OF e]
  have "(of_nat i :: 64 word) = of_nat j" using n assms(3-5) by auto
  moreover have "i < 2 ^ 64" "j < 2 ^ 64" using n assms(2-4) by auto
  ultimately show ?thesis
    by (auto dest!: arg_cong [where f = unat] simp: unat_of_nat take_bit_nat_eq_self)
qed

text \<open>C10 \<open>#[storage]\<close> and \<open>#[transient]\<close>: a value set through an accessor is what the accessor of that
  field and those keys returns next, no accessor of another field or other keys sees the write, and
  the other address space is left alone, as long as the hash keeps the strings involved apart.\<close>

theorem accessors_independent:
  assumes "expand_layout name (Named fs) fl mac = Ok lay" "length fs \<le> 2 ^ 64"
    and "i < length (lay_accessors lay)" "j < length (lay_accessors lay)"
    and "acc_loc (lay_accessors lay ! i) ks = Some l" "acc_loc (lay_accessors lay ! j) ls = Some l'"
    and "keys_ok l" "keys_ok l'" "no_collision keccak (preimages keccak l \<union> preimages keccak l')"
    and "sv_ok v" "sp' \<noteq> sp"
  shows "\<exists>w'. acc_set keccak sp (lay_accessors lay ! i) ks v w = Some w'
     \<and> map_option fst (acc_get keccak sp (sv_kind v) (lay_accessors lay ! i) ks w') = Some v
     \<and> (i \<noteq> j \<or> ks \<noteq> ls \<longrightarrow>
          map_option fst (acc_get keccak sp k (lay_accessors lay ! j) ls w') =
          map_option fst (acc_get keccak sp k (lay_accessors lay ! j) ls w))
     \<and> cell_of sp' w' = cell_of sp' w"
proof -
  have n: "no_collision keccak (preimages keccak l)" "no_collision keccak (preimages keccak l')"
    using assms(9) by (auto elim: no_collision_mono)
  obtain w0 where w0: "acc_set keccak sp (lay_accessors lay ! i) ks v w = Some (sv_put sp v (loc_word keccak l) w0)"
    "\<forall>sp. cell_of sp w0 = cell_of sp w"
    using acc_set_loc [OF assms(5,7) n(1)] by blast
  have "loc_word keccak l' \<noteq> loc_word keccak l" if "i \<noteq> j \<or> ks \<noteq> ls"
  proof
    assume "loc_word keccak l' = loc_word keccak l"
    then have "l = l'" using loc_word_inject [OF assms(9,7,8)] by simp
    then show False
      using acc_loc_eq_slot [OF assms(5)] assms(6) that
        expand_layout_slots [OF assms(1-4)] by auto
  qed
  then have "sv_read sp k (loc_word keccak l') (sv_put sp v (loc_word keccak l) w0) =
      sv_read sp k (loc_word keccak l') w" if "i \<noteq> j \<or> ks \<noteq> ls"
    using that w0(2) by (simp add: sv.read_write_other sv.read_local [of sp w0])
  moreover have "cell_of sp' (sv_put sp v s w0) = cell_of sp' w0" for s
    using assms(11) by (cases sp; cases sp'; cases v) (auto simp: value_defs opcode_defs)
  moreover have "cell_of sp' w0 = cell_of sp' w" using w0(2) by blast
  ultimately show ?thesis
    using w0(1) assms(10)
    by (simp add: acc_get_loc [OF assms(5,7) n(1)] acc_get_loc [OF assms(6,8) n(2)] sv.read_write)
qed

definition sample_fields :: "(string \<times> rust_ty) list" where
  "sample_fields = [(''total'', named_ty ''U256''),
     (''balances'', TPath False False [Seg ''Mapping''
        (Angle [GType (named_ty ''Address''), GType (named_ty ''U256'')])]),
     (''locked'', named_ty ''bool'')]"

definition sample_layout :: "handle_kind \<Rightarrow> layout" where
  "sample_layout sp =
     (let fl = (case sp of Persistent \<Rightarrow> flavor_persistent | Transient \<Rightarrow> flavor_transient) in
      \<lparr>lay_name = ''Token'', lay_trait = fl_layout_trait fl, lay_access_trait = ''TokenAccess'',
       lay_handle = fl_handle fl,
       lay_accessors = [Leaf ''total'' 0 (named_ty ''U256'') False,
         MapField ''balances'' 1 (named_ty ''Address'') (named_ty ''U256''),
         Leaf ''locked'' 2 (named_ty ''bool'') (sp = Transient)]\<rparr>)"

lemma sample_layout_expands:
  "expand_layout ''Token'' (Named sample_fields) flavor_persistent ''#[storage]'' =
     Ok (sample_layout Persistent)"
  "expand_layout ''Token'' (Named sample_fields) flavor_transient ''#[transient]'' =
     Ok (sample_layout Transient)"
  by (simp_all add: expand_layout_def sample_fields_def sample_layout_def field_accessor_def
      mapping_generics_def last_seg_def named_ty_def is_bool_def flavor_persistent_def
      flavor_transient_def)

definition sample_hash :: "byte list \<Rightarrow> byte list" where
  "sample_hash b = 1 # take 31 (b @ replicate 31 0)"

lemma sample_hash_ok: "no_collision sample_hash {x}"
  by (simp add: no_collision_def sample_hash_def sequential_def numeral_eq_Suc)

theorem accessors_independent_witness:
  "\<exists>w'. acc_set sample_hash Persistent (lay_accessors (sample_layout Persistent) ! 1) [replicate 32 7]
        (SvU256 u256_max) clear_world = Some w'
     \<and> map_option fst (acc_get sample_hash Persistent SkU256
          (lay_accessors (sample_layout Persistent) ! 1) [replicate 32 7] w') = Some (SvU256 u256_max)
     \<and> map_option fst (acc_get sample_hash Persistent SkU256
          (lay_accessors (sample_layout Persistent) ! 0) [] w') =
        map_option fst (acc_get sample_hash Persistent SkU256
          (lay_accessors (sample_layout Persistent) ! 0) [] clear_world)"
  using accessors_independent [OF sample_layout_expands(1), of 1 0 "[replicate 32 7]"
      "Hash (replicate 32 7) (Seq 1)" "[]" "Seq 0" sample_hash "SvU256 u256_max" Transient Persistent
      clear_world SkU256]
  by (auto simp: sample_layout_def sample_fields_def sample_hash_ok)

definition field_ok :: "rust_ty \<Rightarrow> bool" where
  "field_ok ty \<longleftrightarrow>
     (case mapping_generics ty of
        Ok None \<Rightarrow> True
      | Ok (Some (k, v)) \<Rightarrow> (case mapping_generics v of Ok _ \<Rightarrow> True | _ \<Rightarrow> False)
      | _ \<Rightarrow> False)"

lemma field_accessor_total: "(\<exists>a. field_accessor fl i f = Ok a) \<longleftrightarrow> field_ok (snd f)"
proof (cases "mapping_generics (snd f)")
  case (Ok m)
  show ?thesis
  proof (cases m)
    case (Some kv)
    show ?thesis
      by (cases "mapping_generics (snd kv)")
         (auto simp: field_accessor_def field_ok_def Let_def Ok Some split_beta split: option.split)
  qed (simp add: field_accessor_def field_ok_def Let_def Ok split_beta)
qed (simp_all add: field_accessor_def field_ok_def Let_def split_beta)

lemma expand_fields_total:
  "(\<exists>as. expand_fields fl i fs = Ok as) \<longleftrightarrow> list_all (\<lambda>f. field_ok (snd f)) fs"
proof (induction fs arbitrary: i)
  case (Cons f fs)
  show ?case
    using Cons.IH [of "i + 1"] field_accessor_total [of fl i f]
    by (auto simp: bind_rust_Ok_iff)
qed simp

text \<open>\<open>expand_layout\<close> accepts exactly the structs with named fields whose \<open>Mapping\<close> types have two
  arguments, and gives field number \<open>i\<close> the slot \<open>i\<close>, one accessor per field.\<close>

theorem layout_slots:
  "((\<exists>lay. expand_layout name sf fl mac = Ok lay) \<longleftrightarrow>
      (\<exists>fs. sf = Named fs \<and> list_all (\<lambda>f. field_ok (snd f)) fs))
   \<and> (expand_layout name (Named fs) fl mac = Ok lay \<longrightarrow>
        map acc_slot (lay_accessors lay) = map of_nat [0..<length fs])"
proof -
  have "map acc_slot (lay_accessors lay) = map of_nat [0..<length fs]"
    if "expand_layout name (Named fs) fl mac = Ok lay"
  proof -
    have "expand_fields fl 0 fs = Ok (lay_accessors lay)"
      using that by (auto simp: expand_layout_def bind_rust_Ok_iff)
    from expand_fields_nth [OF this] show ?thesis by (auto intro: nth_equalityI)
  qed
  moreover have "(\<exists>lay. expand_layout name sf fl mac = Ok lay) \<longleftrightarrow>
      (\<exists>fs. sf = Named fs \<and> list_all (\<lambda>f. field_ok (snd f)) fs)"
    using expand_fields_total [of fl 0]
    by (cases sf) (auto simp: expand_layout_def bind_rust_Ok_iff)
  ultimately show ?thesis by blast
qed

theorem layout_slots_witness:
  "map acc_slot (lay_accessors (sample_layout Transient)) = [0, 1, 2]"
  using layout_slots [of "''Token''" "Named sample_fields" flavor_transient "''#[transient]''"
      sample_fields "sample_layout Transient"] sample_layout_expands(2)
  by (simp add: sample_fields_def)

subsection \<open>Fields and the reentrancy lock\<close>

lemma not_sequential_from_u64: "u256_from_u64 n = s \<Longrightarrow> sequential s"
  using sequential_from_u64 by blast

lemma loc_word_not_lock:
  "\<forall>x \<in> preimages keccak l. U256 (keccak x) \<noteq> LOCK_SLOT \<Longrightarrow> loc_word keccak l \<noteq> LOCK_SLOT"
  using lock_not_sequential by (cases l) (auto simp: hashed_slot_def dest: not_sequential_from_u64)

text \<open>C31 The lock's namespaced slot: a write through any transient accessor, a guard taken through
  one, and any persistent write are steps that keep the reentrancy lock, unless the hash of a
  mapping key is the lock's slot; a leaf field or a guard never needs that exception.\<close>

theorem fields_keep_lock:
  assumes "acc_set keccak sp a ks v w = Some w'" "acc_loc a ks = Some l" "keys_ok l"
    and "no_collision keccak (preimages keccak l)"
    and "\<forall>x \<in> preimages keccak l. U256 (keccak x) \<noteq> LOCK_SLOT"
  shows "lock_step (w, n) (w', n)
    \<and> (\<forall>b g w''. acc_guard b w = Some (g, w'') \<longrightarrow>
         lock_step (w, n) (w'', n) \<and> lock_step (w', n) (guard_drop g w', n))"
proof -
  obtain w0 where w0: "w' = sv_put sp v (loc_word keccak l) w0" "cell_of Transient w0 = cell_of Transient w"
    using acc_set_loc [OF assms(2-4), of sp v w] assms(1) by (metis option.inject)
  have "w_transient w' LOCK_SLOT = w_transient w LOCK_SLOT"
    using w0 loc_word_not_lock [OF assms(5)]
    by (cases sp; cases v) (auto simp: value_defs opcode_defs)
  moreover have "w_transient (bool_write_to_transient b (u256_from_u64 s) u) LOCK_SLOT = w_transient u LOCK_SLOT"
    for b s u
    using lock_not_sequential sequential_from_u64 [of s] by (auto simp: value_defs opcode_defs)
  ultimately show ?thesis
    by (auto intro!: other_code simp: guard_acquire_def guard_drop_def elim!: acc_guard.elims)
qed

theorem fields_keep_lock_witness:
  "\<exists>w'. acc_set sample_hash Transient (lay_accessors (sample_layout Transient) ! 0) []
      (SvU256 u256_max) clear_world = Some w' \<and> lock_step (clear_world, 0) (w', 0)"
  using fields_keep_lock [of sample_hash Transient "lay_accessors (sample_layout Transient) ! 0" "[]"
      "SvU256 u256_max" clear_world _ "Seq 0" 0]
  by (simp add: sample_layout_def no_collision_def)

end
