(* ===== verification/First_Contract.thy ===== *)
theory First_Contract
  imports Macro_Contract Macro_Layout
begin

text \<open>
  \<open>examples/my-first-contract\<close>: a contract written with the macros, as the macros see it, and the
  bodies of its methods over the accessors generated for it. The lemmas compose the generated
  dispatcher, the codec, the accessors and the storage layer: what a caller observes of the contract
  is a ledger of balances and a total supply.
\<close>

subsection \<open>The contract\<close>

definition mapping_ty :: rust_ty where
  "mapping_ty = TPath False False
     [Seg ''Mapping'' (Angle [GType (named_ty ''Address''), GType (named_ty ''U256'')])]"

definition contract_storage :: "(string \<times> rust_ty) list" where
  "contract_storage = [(''total_supply'', named_ty ''U256''), (''balances'', mapping_ty)]"

definition temp_storage :: "(string \<times> rust_ty) list" where
  "temp_storage = [(''withdrawing'', named_ty ''bool''), (''pending'', mapping_ty)]"

definition accessors_of :: "(macro_error, layout) rust \<Rightarrow> accessor list" where
  "accessors_of r = (case r of Ok lay \<Rightarrow> lay_accessors lay | _ \<Rightarrow> [])"

definition storage_accessors :: "accessor list" where
  "storage_accessors = accessors_of (expand_storage ''ContractStorage'' (Named contract_storage))"

definition temp_accessors :: "accessor list" where
  "temp_accessors = accessors_of (expand_transient ''TempStorage'' (Named temp_storage))"

definition handle_ty :: "bool \<Rightarrow> string \<Rightarrow> string \<Rightarrow> rust_ty" where
  "handle_ty m handle lay = TRef m (TPath False False [Seg handle (Angle [GType (named_ty lay)])])"

definition fn_of :: "string \<Rightarrow> string list \<Rightarrow> rust_ty list \<Rightarrow> rust_ty option \<Rightarrow> fn_item" where
  "fn_of name attrs tys out =
     \<lparr>fn_pub = True, fn_attrs = map (\<lambda>a. \<lparr>attr_ident = Some a, attr_lit = None\<rparr>) attrs,
      fn_ident = name, fn_inputs = map Typed tys, fn_output = out\<rparr>"

definition fn_init :: fn_item where
  "fn_init = fn_of ''init'' [''constructor'']
     [handle_ty True ''Storage'' ''ContractStorage'', named_ty ''U256''] None"

definition fn_deposit :: fn_item where
  "fn_deposit = fn_of ''deposit'' [''payable'']
     [handle_ty True ''Storage'' ''ContractStorage'', named_ty ''Address'', named_ty ''U256''] None"

definition fn_withdraw :: fn_item where
  "fn_withdraw = fn_of ''withdraw'' []
     [handle_ty True ''Storage'' ''ContractStorage'', handle_ty True ''TransientStorage'' ''TempStorage'',
      named_ty ''Address'', named_ty ''U256''] None"

definition fn_total_supply :: fn_item where
  "fn_total_supply = fn_of ''total_supply'' []
     [handle_ty False ''Storage'' ''ContractStorage''] (Some (named_ty ''U256''))"

definition fn_balance_of :: fn_item where
  "fn_balance_of = fn_of ''balance_of'' []
     [handle_ty False ''Storage'' ''ContractStorage'', named_ty ''Address''] (Some (named_ty ''U256''))"

definition first_contract :: "impl_item list" where
  "first_contract = map IFn [fn_init, fn_deposit, fn_withdraw, fn_total_supply, fn_balance_of]"

text \<open>The types the contract names, as the compiler resolves them.\<close>

definition resolve :: "rust_ty \<Rightarrow> abi_kind" where
  "resolve ty = (if ty = named_ty ''Address'' then KAddr else KUint256)"

subsection \<open>The methods\<close>

definition total_supply_of :: "(byte list \<Rightarrow> byte list) \<Rightarrow> world \<Rightarrow> (sval \<times> world) option" where
  "total_supply_of keccak w = acc_get keccak Persistent SkU256 (storage_accessors ! 0) [] w"

definition set_total_supply :: "(byte list \<Rightarrow> byte list) \<Rightarrow> u256 \<Rightarrow> world \<Rightarrow> world option" where
  "set_total_supply keccak v w = acc_set keccak Persistent (storage_accessors ! 0) [] (SvU256 v) w"

definition balances_get ::
  "(byte list \<Rightarrow> byte list) \<Rightarrow> address \<Rightarrow> world \<Rightarrow> (sval \<times> world) option" where
  "balances_get keccak who w =
     acc_get keccak Persistent SkU256 (storage_accessors ! 1) [address_key_bytes who] w"

definition balances_set ::
  "(byte list \<Rightarrow> byte list) \<Rightarrow> address \<Rightarrow> u256 \<Rightarrow> world \<Rightarrow> world option" where
  "balances_set keccak who v w =
     acc_set keccak Persistent (storage_accessors ! 1) [address_key_bytes who] (SvU256 v) w"

definition pending_set ::
  "(byte list \<Rightarrow> byte list) \<Rightarrow> address \<Rightarrow> u256 \<Rightarrow> world \<Rightarrow> world option" where
  "pending_set keccak who v w =
     acc_set keccak Transient (temp_accessors ! 1) [address_key_bytes who] (SvU256 v) w"

definition withdraw ::
  "(byte list \<Rightarrow> byte list) \<Rightarrow> address \<Rightarrow> u256 \<Rightarrow> world \<Rightarrow> world option" where
  "withdraw keccak who amount w =
     Option.bind (acc_guard (temp_accessors ! 0) w) (\<lambda>(guard, w).
     Option.bind (pending_set keccak who amount w) (\<lambda>w.
     Option.bind (balances_set keccak who amount w) (\<lambda>w.
     Option.bind (pending_set keccak who u256_zero w) (\<lambda>w.
       Some (guard_drop guard w)))))"

definition value_output :: "(sval \<times> world) option \<Rightarrow> (abi_output \<times> world) option" where
  "value_output r =
     (case r of Some (SvU256 v, w) \<Rightarrow> Some (Value (VUint256 v), w) | _ \<Rightarrow> None)"

definition unit_output :: "world option \<Rightarrow> (abi_output \<times> world) option" where
  "unit_output r = map_option (\<lambda>w. (Unit, w)) r"

text \<open>The method bodies; the codec hands each the values of its parameter types.\<close>

definition body ::
  "(byte list \<Rightarrow> byte list) \<Rightarrow> string \<Rightarrow> abi_value list \<Rightarrow> world \<Rightarrow> (abi_output \<times> world) option" where
  "body keccak name args w =
     (case args of
        [] \<Rightarrow> if name = ''total_supply'' then value_output (total_supply_of keccak w) else None
      | [VUint256 v] \<Rightarrow> if name = ''init'' then unit_output (set_total_supply keccak v w) else None
      | [VAddr who] \<Rightarrow> if name = ''balance_of'' then value_output (balances_get keccak who w) else None
      | [VAddr who, VUint256 amount] \<Rightarrow>
          if name = ''deposit'' then unit_output (balances_set keccak who amount w)
          else if name = ''withdraw'' then unit_output (withdraw keccak who amount w)
          else None
      | _ \<Rightarrow> None)"

subsection \<open>The expansions\<close>

lemma storage_accessors_eq:
  "storage_accessors = [Leaf ''total_supply'' 0 (named_ty ''U256'') False,
     MapField ''balances'' 1 (named_ty ''Address'') (named_ty ''U256'')]"
  by (simp add: storage_accessors_def accessors_of_def contract_storage_def expand_storage_def
      expand_layout_def field_accessor_def mapping_generics_def last_seg_def named_ty_def mapping_ty_def
      flavor_persistent_def)

lemma temp_accessors_eq:
  "temp_accessors = [Leaf ''withdrawing'' 0 (named_ty ''bool'') True,
     MapField ''pending'' 1 (named_ty ''Address'') (named_ty ''U256'')]"
  by (simp add: temp_accessors_def accessors_of_def temp_storage_def expand_transient_def
      expand_layout_def field_accessor_def mapping_generics_def last_seg_def named_ty_def mapping_ty_def
      flavor_transient_def is_bool_def)

lemma signatures:
  "eth_signature fn_deposit = Ok ''deposit(address,uint256)''"
  "eth_signature fn_withdraw = Ok ''withdraw(address,uint256)''"
  "eth_signature fn_total_supply = Ok ''totalSupply()''"
  "eth_signature fn_balance_of = Ok ''balanceOf(address)''"
  by code_simp+

lemma all_routed: "routed fn_deposit" "routed fn_withdraw" "routed fn_total_supply" "routed fn_balance_of"
  by code_simp+

lemma parameter_kinds:
  "map resolve (abi_params (fn_inputs fn_deposit)) = [KAddr, KUint256]"
  "map resolve (abi_params (fn_inputs fn_withdraw)) = [KAddr, KUint256]"
  "map resolve (abi_params (fn_inputs fn_total_supply)) = []"
  "map resolve (abi_params (fn_inputs fn_balance_of)) = [KAddr]"
  by code_simp+

subsection \<open>The ledger a caller observes\<close>

definition entry_loc :: "address \<Rightarrow> loc" where "entry_loc a = Hash (address_word a) (Seq 1)"

definition entry_slot :: "(byte list \<Rightarrow> byte list) \<Rightarrow> address \<Rightarrow> u256" where
  "entry_slot keccak a = loc_word keccak (entry_loc a)"

definition balance :: "(byte list \<Rightarrow> byte list) \<Rightarrow> world \<Rightarrow> address \<Rightarrow> u256" where
  "balance keccak w a = w_storage w (entry_slot keccak a)"

definition total :: "world \<Rightarrow> u256" where "total w = w_storage w (u256_from_u64 0)"

definition hash_ok :: "(byte list \<Rightarrow> byte list) \<Rightarrow> address set \<Rightarrow> bool" where
  "hash_ok keccak A \<longleftrightarrow> no_collision keccak (\<Union>a \<in> A. preimages keccak (entry_loc a))"

lemma hash_ok_one: "hash_ok keccak A \<Longrightarrow> a \<in> A \<Longrightarrow> no_collision keccak (preimages keccak (entry_loc a))"
  unfolding hash_ok_def by (erule no_collision_mono) blast

lemma keys_ok_entry: "address_ok a \<Longrightarrow> keys_ok (entry_loc a)"
  by (simp add: entry_loc_def address_word_def address_to_be_bytes_def address_ok_def)

lemma entry_acc_loc:
  "acc_loc (storage_accessors ! 1) [address_key_bytes a] = Some (entry_loc a)"
  "acc_loc (temp_accessors ! 1) [address_key_bytes a] = Some (entry_loc a)"
  by (simp_all add: entry_loc_def address_key_bytes_def storage_accessors_eq temp_accessors_eq)

lemma entry_slot_inject:
  assumes "hash_ok keccak A" "a \<in> A" "b \<in> A" "address_ok a" "address_ok b"
  shows "entry_slot keccak a = entry_slot keccak b \<longleftrightarrow> a = b"
proof
  assume e: "entry_slot keccak a = entry_slot keccak b"
  have "no_collision keccak (preimages keccak (entry_loc a) \<union> preimages keccak (entry_loc b))"
    using assms(1) unfolding hash_ok_def by (rule no_collision_mono) (use assms(2,3) in blast)
  then have "entry_loc a = entry_loc b"
    using e keys_ok_entry assms(4,5) by (auto simp: entry_slot_def intro: loc_word_inject)
  then show "a = b"
    by (simp add: entry_loc_def address_word_def address_to_be_bytes_def address.expand)
qed simp

lemma entry_slot_not_sequential:
  "hash_ok keccak A \<Longrightarrow> a \<in> A \<Longrightarrow> entry_slot keccak a \<noteq> u256_from_u64 n"
  using hash_ok_one [of keccak A a] sequential_from_u64 [of n]
  by (auto simp: entry_slot_def entry_loc_def no_collision_def hashed_slot_def)

lemma balances_set_effect:
  assumes "hash_ok keccak A" "a \<in> A" "address_ok a"
  shows "\<exists>w'. balances_set keccak a v w = Some w'
    \<and> w_storage w' = (w_storage w)(entry_slot keccak a := v) \<and> w_transient w' = w_transient w"
proof -
  obtain w0 where w0: "acc_set keccak Persistent (storage_accessors ! 1) [address_key_bytes a] (SvU256 v) w =
      Some (sv_put Persistent (SvU256 v) (entry_slot keccak a) w0)"
    and c: "\<forall>sp. cell_of sp w0 = cell_of sp w"
    using acc_set_loc [OF entry_acc_loc(1) keys_ok_entry [OF assms(3)] hash_ok_one [OF assms(1,2)],
      where sp = Persistent and v = "SvU256 v" and w = w]
    by (auto simp: entry_slot_def)
  have "w_storage w0 = w_storage w" "w_transient w0 = w_transient w"
    using c [THEN spec, of Persistent] c [THEN spec, of Transient] by simp_all
  then show ?thesis using w0 by (simp add: balances_set_def value_defs opcode_defs)
qed

lemma pending_set_effect:
  assumes "hash_ok keccak A" "a \<in> A" "address_ok a"
  shows "\<exists>w'. pending_set keccak a v w = Some w'
    \<and> w_transient w' = (w_transient w)(entry_slot keccak a := v) \<and> w_storage w' = w_storage w"
proof -
  obtain w0 where w0: "acc_set keccak Transient (temp_accessors ! 1) [address_key_bytes a] (SvU256 v) w =
      Some (sv_put Transient (SvU256 v) (entry_slot keccak a) w0)"
    and c: "\<forall>sp. cell_of sp w0 = cell_of sp w"
    using acc_set_loc [OF entry_acc_loc(2) keys_ok_entry [OF assms(3)] hash_ok_one [OF assms(1,2)],
      where sp = Transient and v = "SvU256 v" and w = w]
    by (auto simp: entry_slot_def)
  have "w_storage w0 = w_storage w" "w_transient w0 = w_transient w"
    using c [THEN spec, of Persistent] c [THEN spec, of Transient] by simp_all
  then show ?thesis using w0 by (simp add: pending_set_def value_defs opcode_defs)
qed

lemma balances_get_value:
  assumes "hash_ok keccak A" "a \<in> A" "address_ok a"
  shows "\<exists>w'. balances_get keccak a w = Some (SvU256 (balance keccak w a), w')
    \<and> w_storage w' = w_storage w \<and> w_transient w' = w_transient w"
proof -
  have "map_option fst (balances_get keccak a w) =
      Some (sv_read Persistent SkU256 (entry_slot keccak a) w)"
    using acc_get_loc [OF entry_acc_loc(1) keys_ok_entry [OF assms(3)] hash_ok_one [OF assms(1,2)],
      where sp = Persistent and k = SkU256 and w = w]
    by (simp add: balances_get_def entry_slot_def)
  moreover have "w_storage w' = w_storage w \<and> w_transient w' = w_transient w"
    if "balances_get keccak a w = Some (v, w')" for v w'
    using that by (auto simp: balances_get_def storage_accessors_eq flavors_agree derived_slot_def
        Let_def mstore_def split: prod.splits)
  ultimately show ?thesis by (auto simp: balance_def value_defs opcode_defs)
qed

text \<open>Withdrawing sets the balance and leaves the transient space as it was but for the flag and the
  pending amount, which it clears.\<close>

lemma withdraw_effect:
  assumes "hash_ok keccak A" "a \<in> A" "address_ok a"
  shows "\<exists>w'. withdraw keccak a v w = Some w'
    \<and> w_storage w' = (w_storage w)(entry_slot keccak a := v)
    \<and> w_transient w' = (w_transient w)(entry_slot keccak a := u256_zero, u256_from_u64 0 := u256_zero)"
proof -
  define w1 where "w1 = bool_write_to_transient True (u256_from_u64 0) w"
  have g: "acc_guard (temp_accessors ! 0) w = Some (TransientGuard (u256_from_u64 0), w1)"
    by (simp add: temp_accessors_eq guard_acquire_def w1_def)
  obtain w2 where w2: "pending_set keccak a v w1 = Some w2"
    "w_transient w2 = (w_transient w1)(entry_slot keccak a := v)" "w_storage w2 = w_storage w1"
    using pending_set_effect [OF assms, of v w1] by blast
  obtain w3 where w3: "balances_set keccak a v w2 = Some w3"
    "w_storage w3 = (w_storage w2)(entry_slot keccak a := v)" "w_transient w3 = w_transient w2"
    using balances_set_effect [OF assms, of v w2] by blast
  obtain w4 where w4: "pending_set keccak a u256_zero w3 = Some w4"
    "w_transient w4 = (w_transient w3)(entry_slot keccak a := u256_zero)" "w_storage w4 = w_storage w3"
    using pending_set_effect [OF assms, of u256_zero w3] by blast
  have "withdraw keccak a v w = Some (guard_drop (TransientGuard (u256_from_u64 0)) w4)"
    by (simp add: withdraw_def g w2(1) w3(1) w4(1))
  moreover have "entry_slot keccak a \<noteq> u256_from_u64 0"
    by (rule entry_slot_not_sequential [OF assms(1,2)])
  ultimately show ?thesis
    using w2(2,3) w3(2,3) w4(2,3)
    by (auto simp: guard_drop_def w1_def value_defs opcode_defs bool_word_def fun_eq_iff)
qed

subsection \<open>Through the dispatcher\<close>

lemma usize_bound_small: "1 \<le> us \<Longrightarrow> n < 256 \<Longrightarrow> n < usize_bound us"
  using power_increasing [of 1 us "256 :: nat"] by (simp add: usize_bound_def)

lemma calldata_length:
  "address_ok a \<Longrightarrow> length (encode_tuple (map av_component [VAddr a])) = 32"
  "address_ok a \<Longrightarrow> u256_ok v \<Longrightarrow> length (encode_tuple (map av_component [VAddr a, VUint256 v])) = 64"
  by (simp_all add: length_encode_tuple heads_size_def head_len_def address_to_component_def address_ok_def
      u256_to_component_def u256_to_be_bytes_def u256_ok_def)

text \<open>A transaction to the contract: a signature, the arguments, the value and the state.\<close>

definition call_contract ::
  "nat \<Rightarrow> (byte list \<Rightarrow> byte list) \<Rightarrow> expansion \<Rightarrow> string \<Rightarrow> abi_value list \<Rightarrow> u256 \<Rightarrow> world \<Rightarrow>
     (byte list \<times> world) option" where
  "call_contract us keccak x sig vs callvalue w =
     dispatch us resolve (body keccak) x (selector keccak sig) (encode_tuple (map av_component vs)) callvalue w"

lemma call_two_args:
  assumes "expand_contract keccak first_contract = Ok x" "1 \<le> us" "us \<le> 16" "address_ok a" "u256_ok v"
    and "m = fn_deposit \<or> m = fn_withdraw" "eth_signature m = Ok sig"
  shows "call_contract us keccak x sig [VAddr a, VUint256 v] cv w =
     map_option (\<lambda>(out, w'). (output_bytes out, w')) (body keccak (fn_ident m) [VAddr a, VUint256 v] w)"
proof -
  have "IFn m \<in> set first_contract" "routed m" "map resolve (abi_params (fn_inputs m)) = [KAddr, KUint256]"
    using assms(6) all_routed parameter_kinds by (auto simp: first_contract_def)
  then show ?thesis
    using contract_call_runs [OF assms(1) _ _ assms(7), of resolve "[VAddr a, VUint256 v]" us "[]" cv "body keccak" w]
      assms calldata_length(2) [OF assms(4,5)] usize_bound_small [OF assms(2), of 64]
    by (force simp: call_contract_def)
qed

lemma call_balance_of:
  assumes "expand_contract keccak first_contract = Ok x" "1 \<le> us" "us \<le> 16" "address_ok a"
  shows "call_contract us keccak x ''balanceOf(address)'' [VAddr a] cv w =
     map_option (\<lambda>(out, w'). (output_bytes out, w')) (value_output (balances_get keccak a w))"
proof -
  have i: "IFn fn_balance_of \<in> set first_contract" by (simp add: first_contract_def)
  have f: "fn_ident fn_balance_of = ''balance_of''" by (simp add: fn_balance_of_def fn_of_def)
  have l: "length (encode_tuple (map av_component [VAddr a]) @ []) < usize_bound us"
    "encode_tuple (map av_component [VAddr a]) @ [] \<noteq> []"
    using calldata_length(1) [OF assms(4)] usize_bound_small [OF assms(2), of 32] by auto
  have "map resolve (abi_params (fn_inputs fn_balance_of)) = map av_kind [VAddr a]"
    "list_all av_ok [VAddr a]"
    using parameter_kinds(4) assms(4) by simp_all
  from contract_call_runs [where body = "body keccak" and st = w and callvalue = cv, OF assms(1) i all_routed(4) signatures(4) this assms(3) l(1) disjI2 [OF l(2)]]
  show ?thesis by (simp add: call_contract_def body_def f)
qed

lemma balance_of_answers:
  assumes "expand_contract keccak first_contract = Ok x" "1 \<le> us" "us \<le> 16" "address_ok who"
    and "hash_ok keccak A" "who \<in> A" "u256_ok (balance keccak w who)"
  shows "\<exists>out w'. call_contract us keccak x ''balanceOf(address)'' [VAddr who] cv w = Some (out, w')
    \<and> av_decode us KUint256 out 0 = Ok (VUint256 (balance keccak w who))
    \<and> w_storage w' = w_storage w \<and> w_transient w' = w_transient w"
proof -
  let ?v = "VUint256 (balance keccak w who)"
  have "length (encode_output (av_component ?v)) < usize_bound us"
    using assms(7) usize_bound_small [OF assms(2), of 32]
    by (simp add: encode_output_def length_encode_tuple heads_size_def head_len_def u256_to_component_def
        u256_to_be_bytes_def u256_ok_def)
  then have "av_decode us (av_kind ?v) (encode_output (av_component ?v)) 0 = Ok ?v"
    using any.output_roundtrip [where v = ?v and k = "av_kind ?v" and us = us] assms(3,7) by simp
  then show ?thesis
    using balances_get_value [OF assms(5,6,4), of w] call_balance_of [OF assms(1-4), of cv w]
    by (auto simp: value_output_def)
qed

subsection \<open>The contract as a ledger\<close>

text \<open>What the contract promises: balances by address and a total supply; a deposit and a withdrawal
  set a balance, the other two calls only read.\<close>

record ledger =
  lg_total :: u256
  lg_balance :: "address \<Rightarrow> u256"

datatype ledger_call = Deposit address u256 | Withdraw address u256 | TotalSupply | BalanceOf address

fun ledger_step :: "ledger_call \<Rightarrow> ledger \<Rightarrow> abi_output \<times> ledger" where
  "ledger_step (Deposit a v) l = (Unit, l\<lparr>lg_balance := (lg_balance l)(a := v)\<rparr>)"
| "ledger_step (Withdraw a v) l = (Unit, l\<lparr>lg_balance := (lg_balance l)(a := v)\<rparr>)"
| "ledger_step TotalSupply l = (Value (VUint256 (lg_total l)), l)"
| "ledger_step (BalanceOf a) l = (Value (VUint256 (lg_balance l a)), l)"

fun ledger_run :: "ledger_call list \<Rightarrow> ledger \<Rightarrow> abi_output list \<times> ledger" where
  "ledger_run [] l = ([], l)"
| "ledger_run (c # cs) l =
     (let (out, l1) = ledger_step c l; (outs, l2) = ledger_run cs l1 in (out # outs, l2))"

fun call_sig :: "ledger_call \<Rightarrow> string" where
  "call_sig (Deposit _ _) = ''deposit(address,uint256)''"
| "call_sig (Withdraw _ _) = ''withdraw(address,uint256)''"
| "call_sig TotalSupply = ''totalSupply()''"
| "call_sig (BalanceOf _) = ''balanceOf(address)''"

fun call_args :: "ledger_call \<Rightarrow> abi_value list" where
  "call_args (Deposit a v) = [VAddr a, VUint256 v]"
| "call_args (Withdraw a v) = [VAddr a, VUint256 v]"
| "call_args TotalSupply = []"
| "call_args (BalanceOf a) = [VAddr a]"

fun ledger_call_ok :: "address set \<Rightarrow> ledger_call \<Rightarrow> bool" where
  "ledger_call_ok A (Deposit a v) \<longleftrightarrow> a \<in> A \<and> address_ok a \<and> u256_ok v"
| "ledger_call_ok A (Withdraw a v) \<longleftrightarrow> a \<in> A \<and> address_ok a \<and> u256_ok v"
| "ledger_call_ok A TotalSupply \<longleftrightarrow> True"
| "ledger_call_ok A (BalanceOf a) \<longleftrightarrow> a \<in> A \<and> address_ok a"

text \<open>A transaction of several calls, through the dispatcher.\<close>

fun run_calls ::
  "nat \<Rightarrow> (byte list \<Rightarrow> byte list) \<Rightarrow> expansion \<Rightarrow> (ledger_call \<times> u256) list \<Rightarrow> world \<Rightarrow>
     (byte list list \<times> world) option" where
  "run_calls us keccak x [] w = Some ([], w)"
| "run_calls us keccak x ((c, v) # cs) w =
     Option.bind (call_contract us keccak x (call_sig c) (call_args c) v w) (\<lambda>(out, w).
     Option.bind (run_calls us keccak x cs w) (\<lambda>(outs, w). Some (out # outs, w)))"

definition represents ::
  "(byte list \<Rightarrow> byte list) \<Rightarrow> address set \<Rightarrow> world \<Rightarrow> ledger \<Rightarrow> bool" where
  "represents keccak A w l \<longleftrightarrow> total w = lg_total l \<and> (\<forall>a \<in> A. balance keccak w a = lg_balance l a)"

lemma call_no_args:
  assumes "expand_contract keccak first_contract = Ok x" "1 \<le> us" "us \<le> 16"
  shows "call_contract us keccak x ''totalSupply()'' [] u256_zero w =
     map_option (\<lambda>(out, w'). (output_bytes out, w')) (value_output (total_supply_of keccak w))"
proof -
  have i: "IFn fn_total_supply \<in> set first_contract" by (simp add: first_contract_def)
  have f: "fn_ident fn_total_supply = ''total_supply''" by (simp add: fn_total_supply_def fn_of_def)
  have l: "length (encode_tuple (map av_component []) @ []) < usize_bound us"
    using usize_bound_small [OF assms(2), of 0] by (simp add: length_encode_tuple heads_size_def)
  have "map resolve (abi_params (fn_inputs fn_total_supply)) = map av_kind []" "list_all av_ok []"
    using parameter_kinds(3) by simp_all
  from contract_call_runs [where body = "body keccak" and st = w and callvalue = u256_zero,
      OF assms(1) i all_routed(3) signatures(3) this assms(3) l disjI1 [OF refl]]
  show ?thesis by (simp add: call_contract_def body_def f)
qed

lemma total_supply_value: "total_supply_of keccak w = Some (SvU256 (total w), w)"
  by (simp add: total_supply_of_def storage_accessors_eq flavors_agree total_def value_defs opcode_defs)

text \<open>One call, simulated.\<close>

lemma balance_update:
  assumes "hash_ok keccak A" "a \<in> A" "\<forall>a \<in> A. address_ok a" "represents keccak A w l"
    and "w_storage w' = (w_storage w)(entry_slot keccak a := v)"
  shows "represents keccak A w' (l\<lparr>lg_balance := (lg_balance l)(a := v)\<rparr>)"
proof -
  have "balance keccak w' b = (if b = a then v else balance keccak w b)" if "b \<in> A" for b
    using entry_slot_inject [OF assms(1) that assms(2)] assms(2,3,5) that by (simp add: balance_def)
  moreover have "total w' = total w"
    using entry_slot_not_sequential [OF assms(1,2), of 0] assms(5) by (simp add: total_def)
  ultimately show ?thesis using assms(4) by (simp add: represents_def)
qed

lemma call_simulates:
  assumes "expand_contract keccak first_contract = Ok x" "1 \<le> us" "us \<le> 16"
    and "hash_ok keccak A" "\<forall>a \<in> A. address_ok a" "ledger_call_ok A c" "represents keccak A w l"
    and "cv = u256_zero \<or> c \<noteq> TotalSupply"
  shows "\<exists>w'. call_contract us keccak x (call_sig c) (call_args c) cv w =
      Some (output_bytes (fst (ledger_step c l)), w') \<and> represents keccak A w' (snd (ledger_step c l))"
proof (cases c)
  case (Deposit a v)
  then obtain w' where w': "balances_set keccak a v w = Some w'"
      "w_storage w' = (w_storage w)(entry_slot keccak a := v)"
    using balances_set_effect [OF assms(4), of a v w] assms(6) by auto
  have "fn_ident fn_deposit = ''deposit''" by (simp add: fn_deposit_def fn_of_def)
  then show ?thesis
    using call_two_args [OF assms(1-3), of a v fn_deposit, OF _ _ _ signatures(1), of cv w] Deposit assms(6) w'
      balance_update [OF assms(4) _ assms(5,7) w'(2)]
    by (simp add: body_def unit_output_def)
next
  case (Withdraw a v)
  then obtain w' where w': "withdraw keccak a v w = Some w'"
      "w_storage w' = (w_storage w)(entry_slot keccak a := v)"
    using withdraw_effect [OF assms(4), of a v w] assms(6) by auto
  have "fn_ident fn_withdraw = ''withdraw''" by (simp add: fn_withdraw_def fn_of_def)
  then show ?thesis
    using call_two_args [OF assms(1-3), of a v fn_withdraw, OF _ _ _ signatures(2), of cv w] Withdraw assms(6) w'
      balance_update [OF assms(4) _ assms(5,7) w'(2)]
    by (simp add: body_def unit_output_def)
next
  case TotalSupply
  then show ?thesis
    using call_no_args [OF assms(1-3), of w] assms(7,8)
    by (simp add: total_supply_value value_output_def represents_def)
next
  case (BalanceOf a)
  then obtain w' where "balances_get keccak a w = Some (SvU256 (balance keccak w a), w')"
    "w_storage w' = w_storage w"
    using balances_get_value [OF assms(4), of a w] assms(6) by auto
  then show ?thesis
    using call_balance_of [OF assms(1-3), of a cv w] BalanceOf assms(6,7)
    by (simp add: value_output_def represents_def balance_def total_def)
qed

definition new_ledger :: "u256 \<Rightarrow> ledger" where
  "new_ledger supply = \<lparr>lg_total = supply, lg_balance = (\<lambda>_. u256_zero)\<rparr>"

definition ledger_ok :: "ledger \<Rightarrow> bool" where
  "ledger_ok l \<longleftrightarrow> u256_ok (lg_total l) \<and> (\<forall>a. u256_ok (lg_balance l a))"

text \<open>What the caller makes of an answer.\<close>

fun decodes :: "nat \<Rightarrow> abi_output \<Rightarrow> byte list \<Rightarrow> bool" where
  "decodes us Unit out \<longleftrightarrow> out = []"
| "decodes us (Value v) out \<longleftrightarrow> av_decode us (av_kind v) out 0 = Ok v"

lemma ledger_step_ok: "ledger_ok l \<Longrightarrow> ledger_call_ok A c \<Longrightarrow> ledger_ok (snd (ledger_step c l))"
  by (cases c) (auto simp: ledger_ok_def)

lemma u256_output_decodes:
  assumes "u256_ok v" "1 \<le> us" "us \<le> 16"
  shows "av_decode us KUint256 (encode_output (u256_to_component v)) 0 = Ok (VUint256 v)"
proof -
  have "length (encode_output (u256_to_component v)) < usize_bound us"
    using assms(1) usize_bound_small [OF assms(2), of 32]
    by (simp add: encode_output_def length_encode_tuple heads_size_def head_len_def u256_to_component_def
        u256_to_be_bytes_def u256_ok_def)
  then show ?thesis
    using any.output_roundtrip [where v = "VUint256 v" and k = KUint256 and us = us] assms(1,3) by simp
qed

lemma ledger_output_decodes:
  "ledger_ok l \<Longrightarrow> 1 \<le> us \<Longrightarrow> us \<le> 16 \<Longrightarrow>
     decodes us (fst (ledger_step c l)) (output_bytes (fst (ledger_step c l)))"
  by (cases c) (use u256_output_decodes [of _ us] in \<open>auto simp: ledger_ok_def encode_output_unit_def\<close>)

lemma run_calls_simulates:
  assumes "expand_contract keccak first_contract = Ok x" "1 \<le> us" "us \<le> 16"
    and "hash_ok keccak A" "\<forall>a \<in> A. address_ok a"
    and "list_all (\<lambda>(c, v). ledger_call_ok A c \<and> (v = u256_zero \<or> c \<noteq> TotalSupply)) calls"
    and "represents keccak A w l" "ledger_ok l"
  shows "\<exists>outs w'. run_calls us keccak x calls w = Some (outs, w')
    \<and> list_all2 (decodes us) (fst (ledger_run (map fst calls) l)) outs
    \<and> represents keccak A w' (snd (ledger_run (map fst calls) l))"
  using assms(6-8)
proof (induction calls arbitrary: w l)
  case (Cons cv calls)
  obtain c v where cv: "cv = (c, v)" by (cases cv)
  then have c: "ledger_call_ok A c" "v = u256_zero \<or> c \<noteq> TotalSupply" using Cons.prems(1) by auto
  let ?l = "snd (ledger_step c l)"
  obtain w1 where w1: "call_contract us keccak x (call_sig c) (call_args c) v w =
      Some (output_bytes (fst (ledger_step c l)), w1)" "represents keccak A w1 ?l"
    using call_simulates [OF assms(1-5) c(1) Cons.prems(2) c(2)] by blast
  obtain outs w2 where w2: "run_calls us keccak x calls w1 = Some (outs, w2)"
    "list_all2 (decodes us) (fst (ledger_run (map fst calls) ?l)) outs"
    "represents keccak A w2 (snd (ledger_run (map fst calls) ?l))"
    using Cons.IH [OF _ w1(2) ledger_step_ok [OF Cons.prems(3) c(1)]] Cons.prems(1) by auto
  show ?case
    using w1(1) w2 ledger_output_decodes [OF Cons.prems(3) assms(2,3), of c]
    by (simp add: cv split_beta)
qed simp

lemma u256_zero_ok: "u256_ok u256_zero"
  by (simp add: u256_ok_def u256_zero_def)

lemma deploy_represents:
  assumes "expand_contract keccak first_contract = Ok x" "1 \<le> us" "us \<le> 16" "u256_ok supply"
    and "hash_ok keccak A" "w_storage w = (\<lambda>_. u256_zero)"
  shows "\<exists>c w0. x_ctor x = Some c
    \<and> deploy us resolve (body keccak) c (encode_tuple (map av_component [VUint256 supply])) w = Some w0
    \<and> represents keccak A w0 (new_ledger supply)"
proof -
  have i: "IFn fn_init \<in> set first_contract" "is_ctor fn_init"
    by (simp add: first_contract_def) code_simp
  have k: "map resolve (abi_params (fn_inputs fn_init)) = map av_kind [VUint256 supply]"
    by (simp add: fn_init_def fn_of_def handle_ty_def resolve_def named_ty_def last_seg_def)
  have v: "list_all av_ok [VUint256 supply]" using assms(4) by simp
  have l: "length (encode_tuple (map av_component [VUint256 supply]) @ []) < usize_bound us"
    using assms(4) usize_bound_small [OF assms(2), of 32]
    by (simp add: length_encode_tuple heads_size_def head_len_def u256_to_component_def
        u256_to_be_bytes_def u256_ok_def)
  note d = contract_deploy_runs(1) [OF assms(1) i k v assms(3) l]
    contract_deploy_runs(2) [where body = "body keccak" and st = w, OF assms(1) i k v assms(3) l]
  let ?w = "u256_write_to supply (u256_from_u64 0) w"
  have "body keccak (fn_ident fn_init) [VUint256 supply] w = Some (Unit, ?w)"
    by (simp add: fn_init_def fn_of_def body_def unit_output_def set_total_supply_def
        storage_accessors_eq flavors_agree)
  moreover have "represents keccak A ?w (new_ledger supply)"
    using entry_slot_not_sequential [OF assms(5), of _ 0] assms(6)
    by (auto simp: represents_def new_ledger_def total_def balance_def value_defs opcode_defs)
  ultimately show ?thesis using d by simp
qed

text \<open>C5 The example contract is the ledger it promises, from its deployment on: after the generated
  constructor has run on the encoded supply, every sequence of calls through the generated dispatcher
  is answered, without a panic or revert, with encodings from which the caller decodes exactly the
  ledger's answers, and the storage ends up representing the ledger. Storage is read and written
  at hashed slots; the hash has no collision among the entries used.\<close>

theorem contract_is_ledger:
  assumes "expand_contract keccak first_contract = Ok x" "1 \<le> us" "us \<le> 16" "u256_ok supply"
    and "hash_ok keccak A" "\<forall>a \<in> A. address_ok a" "w_storage w = (\<lambda>_. u256_zero)"
    and "list_all (\<lambda>(c, v). ledger_call_ok A c \<and> (v = u256_zero \<or> c \<noteq> TotalSupply)) calls"
  shows "\<exists>c w0 outs w'. x_ctor x = Some c
    \<and> deploy us resolve (body keccak) c (encode_tuple (map av_component [VUint256 supply])) w = Some w0
    \<and> run_calls us keccak x calls w0 = Some (outs, w')
    \<and> list_all2 (decodes us) (fst (ledger_run (map fst calls) (new_ledger supply))) outs
    \<and> represents keccak A w' (snd (ledger_run (map fst calls) (new_ledger supply)))"
proof -
  have "ledger_ok (new_ledger supply)" using assms(4) by (simp add: ledger_ok_def new_ledger_def u256_zero_ok)
  then show ?thesis
    using deploy_represents [OF assms(1-5,7)] run_calls_simulates [OF assms(1-3,5,6,8)] by metis
qed

text \<open>A hash that tells the entries and the selectors of the example apart.\<close>

definition first_hash :: "byte list \<Rightarrow> byte list" where
  "first_hash b = (if length b = 64 then 1 # take 31 b else take 32 (b @ replicate 32 0))"

definition first_x :: expansion where
  "first_x = (case expand_contract first_hash first_contract of Ok x \<Rightarrow> x | _ \<Rightarrow> x_empty)"

lemma first_expands: "expand_contract first_hash first_contract = Ok first_x"
proof -
  have "(case expand_contract first_hash first_contract of Ok _ \<Rightarrow> True | _ \<Rightarrow> False)" by code_simp
  then show ?thesis by (auto simp: first_x_def split: rust.splits)
qed

definition alice :: address where "alice = Address (replicate 20 7)"

lemma not_sequential_one: "\<not> sequential (U256 (1 # xs))"
  by (simp add: sequential_def numeral_eq_Suc)

lemma first_hash_ok: "hash_ok first_hash {alice}"
proof -
  let ?p = "address_word alice @ u256_bytes (u256_from_u64 1)"
  have "length ?p = 64"
    by (simp add: alice_def address_word_def address_to_be_bytes_def u256_from_u64_def)
  then have "length (first_hash ?p) = 32 \<and> \<not> sequential (U256 (first_hash ?p))"
    by (simp add: first_hash_def not_sequential_one)
  then show ?thesis by (simp add: hash_ok_def entry_loc_def no_collision_def)
qed

lemma alice_ok: "address_ok alice" by (simp add: alice_def address_ok_def)

theorem contract_is_ledger_witness:
  "\<exists>c w0 outs w'. x_ctor first_x = Some c
    \<and> deploy 4 resolve (body first_hash) c (encode_tuple (map av_component [VUint256 (u256_from_u64 9)]))
        clear_world = Some w0
    \<and> run_calls 4 first_hash first_x
        [(Deposit alice (u256_from_u64 5), u256_from_u64 1), (BalanceOf alice, u256_zero)] w0 = Some (outs, w')
    \<and> list_all2 (decodes 4) [Unit, Value (VUint256 (u256_from_u64 5))] outs"
proof -
  let ?calls = "[(Deposit alice (u256_from_u64 5), u256_from_u64 1), (BalanceOf alice, u256_zero)]"
  have c: "list_all (\<lambda>(c, v). ledger_call_ok {alice} c \<and> (v = u256_zero \<or> c \<noteq> TotalSupply)) ?calls"
    by (simp add: alice_ok u256_from_u64_ok)
  have r: "fst (ledger_run (map fst ?calls) (new_ledger (u256_from_u64 9))) =
      [Unit, Value (VUint256 (u256_from_u64 5))]"
    by (simp add: new_ledger_def)
  have "1 \<le> (4 :: nat)" "(4 :: nat) \<le> 16" "\<forall>a \<in> {alice}. address_ok a"
    "w_storage clear_world = (\<lambda>_. u256_zero)"
    by (simp_all add: alice_ok clear_world_def)
  from contract_is_ledger [OF first_expands this(1,2) u256_from_u64_ok first_hash_ok this(3,4) c, of 9]
  show ?thesis unfolding r by blast
qed

text \<open>C32 \<open>withdraw\<close>, called through the dispatcher: the transient flag its guard sets is clear again when
  the call returns, whatever it was before, the pending amount it parks is zero, every other
  transient word is as it was, and the balance of the address is the only storage it changes.\<close>

theorem withdraw_cleans_up:
  assumes "expand_contract keccak first_contract = Ok x" "1 \<le> us" "us \<le> 16"
    and "hash_ok keccak {a}" "address_ok a" "u256_ok v"
  shows "\<exists>w'. call_contract us keccak x ''withdraw(address,uint256)'' [VAddr a, VUint256 v] cv w = Some ([], w')
    \<and> \<not> bool_read_from_transient (u256_from_u64 0) w'
    \<and> u256_read_from_transient (entry_slot keccak a) w' = u256_zero
    \<and> (\<forall>s. s \<noteq> u256_from_u64 0 \<and> s \<noteq> entry_slot keccak a \<longrightarrow> w_transient w' s = w_transient w s)
    \<and> w_storage w' = (w_storage w)(entry_slot keccak a := v)"
proof -
  obtain w' where w': "withdraw keccak a v w = Some w'" "w_storage w' = (w_storage w)(entry_slot keccak a := v)"
    "w_transient w' = (w_transient w)(entry_slot keccak a := u256_zero, u256_from_u64 0 := u256_zero)"
    using withdraw_effect [OF assms(4) _ assms(5), of v w] by auto
  have "fn_ident fn_withdraw = ''withdraw''" by (simp add: fn_withdraw_def fn_of_def)
  then have "call_contract us keccak x ''withdraw(address,uint256)'' [VAddr a, VUint256 v] cv w = Some ([], w')"
    using call_two_args [OF assms(1-3,5,6), of fn_withdraw, OF _ signatures(2), of cv w] w'(1)
    by (simp add: body_def unit_output_def encode_output_unit_def)
  then show ?thesis using w'(2,3) by (auto simp: value_defs opcode_defs)
qed

theorem withdraw_cleans_up_witness:
  "\<exists>w'. call_contract 4 first_hash first_x ''withdraw(address,uint256)'' [VAddr alice, VUint256 (u256_from_u64 5)]
      u256_zero clear_world = Some ([], w') \<and> \<not> bool_read_from_transient (u256_from_u64 0) w'"
  using withdraw_cleans_up [OF first_expands _ _ first_hash_ok alice_ok, of 4 "u256_from_u64 5" u256_zero clear_world]
    u256_from_u64_ok [of 5]
  by auto

end
