(* ===== verification/Macro_Call.thy ===== *)
theory Macro_Call
  imports Macro_Contract Disasm
begin

text \<open>
  The call a generated \<open>Method::call\<close> or \<open>Contract::deploy\<close> makes (\<open>std-evm-macros/src/contract.rs\<close>):
  one \<open>with_*\<close> closure for each storage handle, around a call of the contract's own function with the
  handle bindings and the decoded arguments. The closures are those of \<open>std-evm/src/storage/handle.rs\<close>.
  Generated code is a small syntax tree, its meaning an evaluation in an environment of the bound names.
\<close>

subsection \<open>Handles (handle.rs)\<close>

datatype handle = StorageHandle rust_ty | TransientHandle rust_ty
datatype borrow = Shared handle | Exclusive handle

definition storage_new :: "rust_ty \<Rightarrow> handle" where "storage_new T = StorageHandle T"

definition transient_storage_new :: "rust_ty \<Rightarrow> handle" where
  "transient_storage_new T = TransientHandle T"

definition with_storage :: "rust_ty \<Rightarrow> (borrow \<Rightarrow> 'r) \<Rightarrow> 'r" where
  "with_storage T f = f (Shared (storage_new T))"

definition with_storage_mut :: "rust_ty \<Rightarrow> (borrow \<Rightarrow> 'r) \<Rightarrow> 'r" where
  "with_storage_mut T f = f (Exclusive (storage_new T))"

definition with_transient_storage :: "rust_ty \<Rightarrow> (borrow \<Rightarrow> 'r) \<Rightarrow> 'r" where
  "with_transient_storage T f = f (Shared (transient_storage_new T))"

definition with_transient_storage_mut :: "rust_ty \<Rightarrow> (borrow \<Rightarrow> 'r) \<Rightarrow> 'r" where
  "with_transient_storage_mut T f = f (Exclusive (transient_storage_new T))"

lemmas with_defs = with_storage_def with_storage_mut_def with_transient_storage_def
  with_transient_storage_mut_def storage_new_def transient_storage_new_def

subsection \<open>The generated code (contract.rs)\<close>

definition handle_name :: "handle_kind \<Rightarrow> string" where
  "handle_name k = (case k of Persistent \<Rightarrow> ''Storage'' | Transient \<Rightarrow> ''TransientStorage'')"

text \<open>A selector in a diagnostic, and the text of a collision.\<close>

definition hex4 :: "byte list \<Rightarrow> string" where "hex4 sel = concat (map hex2 sel)"

definition collision_message :: "string \<Rightarrow> string \<Rightarrow> byte list \<Rightarrow> string" where
  "collision_message other name sel =
     ''selector collision: '' @ backtick other @ '' and '' @ backtick name @ '' both hash to 0x'' @ hex4 sel"

definition handle_binding :: "handle_kind \<Rightarrow> string" where
  "handle_binding k = (case k of Persistent \<Rightarrow> ''storage'' | Transient \<Rightarrow> ''transient'')"

definition arg_pat_idents :: "nat \<Rightarrow> string list" where
  "arg_pat_idents n = map (\<lambda>i. ''arg'' @ dec_nat i) [0..<n]"

datatype with_fn = WithStorage | WithStorageMut | WithTransientStorage | WithTransientStorageMut

text \<open>\<open>with_fn::<T, _>(|binding| { inner })\<close> and \<open>Self::name(bindings, args)\<close>.\<close>

datatype call_code =
    WithHandle with_fn rust_ty string call_code
  | CallFn string "string list"

definition with_fn_of :: "handle_param \<Rightarrow> with_fn" where
  "with_fn_of h =
     (case (h_kind h, h_mut h) of
        (Persistent, False) \<Rightarrow> WithStorage
      | (Persistent, True) \<Rightarrow> WithStorageMut
      | (Transient, False) \<Rightarrow> WithTransientStorage
      | (Transient, True) \<Rightarrow> WithTransientStorageMut)"

definition wrap_with_handles :: "handle_param list \<Rightarrow> call_code \<Rightarrow> call_code" where
  "wrap_with_handles handles inner =
     foldr (\<lambda>h acc. WithHandle (with_fn_of h) (h_layout h) (handle_binding (h_kind h)) acc) handles inner"

definition call_body :: "string \<Rightarrow> handle_param list \<Rightarrow> nat \<Rightarrow> call_code" where
  "call_body name handles n =
     wrap_with_handles handles
       (CallFn name (map (\<lambda>h. handle_binding (h_kind h)) handles @ arg_pat_idents n))"

definition mi_code :: "method_impl \<Rightarrow> call_code" where
  "mi_code mi = call_body (mi_fn mi) (mi_handles mi) (length (mi_args mi))"

definition ci_code :: "ctor_impl \<Rightarrow> call_code" where
  "ci_code c = call_body (ci_fn c) (ci_handles c) (length (ci_args c))"

subsection \<open>Its meaning\<close>

text \<open>What a parameter receives; \<open>None\<close> is a name that is not bound.\<close>

datatype 'v passed = PHandle borrow | is_PArg: PArg (passed_arg: 'v)

definition apply_with :: "with_fn \<Rightarrow> rust_ty \<Rightarrow> (borrow \<Rightarrow> 'r) \<Rightarrow> 'r" where
  "apply_with w =
     (case w of
        WithStorage \<Rightarrow> with_storage
      | WithStorageMut \<Rightarrow> with_storage_mut
      | WithTransientStorage \<Rightarrow> with_transient_storage
      | WithTransientStorageMut \<Rightarrow> with_transient_storage_mut)"

fun lookup_all :: "(string \<rightharpoonup> 'v) \<Rightarrow> string list \<Rightarrow> 'v list option" where
  "lookup_all env [] = Some []"
| "lookup_all env (x # xs) =
     Option.bind (env x) (\<lambda>v. Option.bind (lookup_all env xs) (\<lambda>vs. Some (v # vs)))"

primrec eval_call ::
  "(string \<Rightarrow> 'v passed list \<Rightarrow> 'r) \<Rightarrow> call_code \<Rightarrow> (string \<rightharpoonup> 'v passed) \<Rightarrow> 'r option" where
  "eval_call call (WithHandle w T x inner) env =
     apply_with w T (\<lambda>b. eval_call call inner (env(x \<mapsto> PHandle b)))"
| "eval_call call (CallFn name xs) env = map_option (call name) (lookup_all env xs)"

text \<open>\<open>let (arg0, arg1, ...,) = args;\<close>\<close>

definition bind_args :: "'v list \<Rightarrow> string \<rightharpoonup> 'v passed" where
  "bind_args args = map_of (zip (arg_pat_idents (length args)) (map PArg args))"

subsection \<open>The names do not clash\<close>

definition dec_val :: "string \<Rightarrow> nat" where
  "dec_val s = fold (\<lambda>c n. 10 * n + (of_char c - 48)) s 0"

lemma dec_val_dec_nat: "dec_val (dec_nat n) = n"
proof (induction n rule: dec_nat.induct)
  case (1 n)
  have d: "(of_char (char_of (48 + k :: nat)) :: nat) - 48 = k" if "k < 10" for k
    using that by (simp add: of_char_of)
  show ?case
    using 1 d [of n] d [of "n mod 10"]
    by (subst dec_nat.simps) (auto simp: dec_val_def)
qed

lemma arg_pat_idents_distinct: "distinct (arg_pat_idents n)"
proof -
  have "inj_on (\<lambda>i. ''arg'' @ dec_nat i) (set [0..<n])"
    by (rule inj_onI) (metis same_append_eq dec_val_dec_nat)
  then show ?thesis by (simp only: arg_pat_idents_def distinct_map distinct_upt simp_thms)
qed

lemma binding_not_arg: "handle_binding k \<notin> set (arg_pat_idents n)"
  by (cases k) (auto simp: handle_binding_def arg_pat_idents_def)

lemma handle_binding_inject [simp]: "handle_binding k = handle_binding k' \<longleftrightarrow> k = k'"
  by (cases k; cases k') (simp_all add: handle_binding_def)

subsection \<open>What the parameters receive\<close>

definition borrow_of :: "handle_param \<Rightarrow> borrow" where
  "borrow_of h =
     (let handle = (case h_kind h of Persistent \<Rightarrow> StorageHandle (h_layout h)
                    | Transient \<Rightarrow> TransientHandle (h_layout h)) in
      if h_mut h then Exclusive handle else Shared handle)"

lemma apply_with_borrow: "apply_with (with_fn_of h) (h_layout h) f = f (borrow_of h)"
  by (cases "h_kind h"; cases "h_mut h")
     (simp_all add: apply_with_def with_fn_of_def borrow_of_def with_defs)

definition bind_handles :: "handle_param list \<Rightarrow> (string \<rightharpoonup> 'v passed) \<Rightarrow> string \<rightharpoonup> 'v passed" where
  "bind_handles hs env = fold (\<lambda>h e. e(handle_binding (h_kind h) \<mapsto> PHandle (borrow_of h))) hs env"

lemma bind_handles_simps [simp]:
  "bind_handles [] env = env"
  "bind_handles (h # hs) env = bind_handles hs (env(handle_binding (h_kind h) \<mapsto> PHandle (borrow_of h)))"
  by (simp_all add: bind_handles_def)

lemma eval_wrap: "eval_call call (wrap_with_handles hs inner) env = eval_call call inner (bind_handles hs env)"
  by (induction hs arbitrary: env) (simp_all add: wrap_with_handles_def apply_with_borrow)

lemma bind_handles_other:
  "x \<notin> (\<lambda>h. handle_binding (h_kind h)) ` set hs \<Longrightarrow> bind_handles hs env x = env x"
  by (induction hs arbitrary: env) simp_all

lemma bind_handles_bound:
  "distinct (map h_kind hs) \<Longrightarrow> h \<in> set hs \<Longrightarrow>
     bind_handles hs env (handle_binding (h_kind h)) = Some (PHandle (borrow_of h))"
proof (induction hs arbitrary: env)
  case (Cons g hs)
  then show ?case by (cases "h = g") (simp_all add: bind_handles_other image_iff)
qed simp

lemma lookup_all_map: "(\<And>x. x \<in> set xs \<Longrightarrow> env (f x) = Some (g x)) \<Longrightarrow> lookup_all env (map f xs) = Some (map g xs)"
  by (induction xs) simp_all

lemma lookup_all_append:
  "lookup_all env (xs @ ys) =
     Option.bind (lookup_all env xs) (\<lambda>us. Option.bind (lookup_all env ys) (\<lambda>vs. Some (us @ vs)))"
  by (induction xs) (auto split: bind_splits)

lemma length_arg_pats [simp]: "length (arg_pat_idents n) = n"
  by (simp add: arg_pat_idents_def)

lemma lookup_args:
  assumes "\<And>x. x \<in> set (arg_pat_idents (length args)) \<Longrightarrow> env x = bind_args args x"
  shows "lookup_all env (arg_pat_idents (length args)) = Some (map PArg args)"
proof -
  let ?xs = "arg_pat_idents (length args)"
  have "env (?xs ! i) = Some (PArg (args ! i))" if "i < length args" for i
    using assms [of "?xs ! i"] that arg_pat_idents_distinct [of "length args"]
    by (simp add: bind_args_def map_of_zip_nth)
  then have "lookup_all env (map (\<lambda>i. ?xs ! i) [0..<length args]) = Some (map (\<lambda>i. PArg (args ! i)) [0..<length args])"
    by (intro lookup_all_map) simp
  moreover have "map (\<lambda>i. PArg (args ! i)) [0..<length args] = map PArg args"
    by (rule nth_equalityI) simp_all
  moreover have "map (\<lambda>i. ?xs ! i) [0..<length args] = ?xs"
    using map_nth [of ?xs] by simp
  ultimately show ?thesis by simp
qed

text \<open>The generated call, in one equation.\<close>

lemma eval_call_body:
  assumes "distinct (map h_kind hs)"
  shows "eval_call call (call_body name hs (length args)) (bind_args args) =
     Some (call name (map (\<lambda>h. PHandle (borrow_of h)) hs @ map PArg args))"
proof -
  let ?env = "bind_handles hs (bind_args args)"
  have "lookup_all ?env (map (\<lambda>h. handle_binding (h_kind h)) hs) = Some (map (\<lambda>h. PHandle (borrow_of h)) hs)"
    by (rule lookup_all_map) (rule bind_handles_bound [OF assms])
  moreover have "lookup_all ?env (arg_pat_idents (length args)) = Some (map PArg args)"
    using binding_not_arg by (intro lookup_args bind_handles_other) auto
  ultimately show ?thesis by (simp add: call_body_def eval_wrap lookup_all_append)
qed

subsection \<open>Against the parameters of the method\<close>

text \<open>What a parameter may receive, by the syntax of its type: one written \<open>&Storage<T>\<close> a shared borrow of
  the handle of \<open>T\<close>, one written \<open>&mut Storage<T>\<close> an exclusive one, the same for \<open>TransientStorage\<close>, and
  one whose type is not a handle type a decoded argument. Nothing else is received: a handle taken by
  value is not the borrow of one.\<close>

fun receives :: "fn_arg \<Rightarrow> 'v passed \<Rightarrow> bool" where
  "receives (Typed (TRef mu (TPath _ _ segs))) (PHandle b) \<longleftrightarrow> segs \<noteq> [] \<and>
     (case last segs of
        Seg name (Angle gs) \<Rightarrow>
          (case type_args gs of
             [T] \<Rightarrow> name = ''Storage'' \<and> b = (if mu then Exclusive else Shared) (StorageHandle T)
                 \<or> name = ''TransientStorage'' \<and> b = (if mu then Exclusive else Shared) (TransientHandle T)
           | _ \<Rightarrow> False)
      | _ \<Rightarrow> False)"
| "receives (Typed ty) (PArg _) \<longleftrightarrow> \<not> handle_type ty"
| "receives _ _ \<longleftrightarrow> False"

fun value_param :: "fn_arg \<Rightarrow> bool" where
  "value_param (Typed ty) \<longleftrightarrow> \<not> handle_type ty"
| "value_param Receiver \<longleftrightarrow> False"

text \<open>A handle parameter is a reference.\<close>

fun by_reference :: "fn_arg \<Rightarrow> bool" where
  "by_reference (Typed (TRef _ _)) \<longleftrightarrow> True"
| "by_reference (Typed ty) \<longleftrightarrow> \<not> handle_type ty"
| "by_reference Receiver \<longleftrightarrow> False"

definition passes :: "fn_item \<Rightarrow> 'v list \<Rightarrow> 'v passed list \<Rightarrow> bool" where
  "passes m args ps \<longleftrightarrow>
     list_all2 receives (fn_inputs m) ps \<and> map passed_arg (filter is_PArg ps) = args"

lemma is_handle_param_iff: "is_handle_param ty \<longleftrightarrow> handle_type ty"
  by (induction ty rule: is_handle_param.induct) (auto simp: handle_type_def last_seg_def)

lemma value_params: "length (filter value_param args) = length (abi_params args)"
  by (induction args rule: abi_params.induct) (simp_all add: is_handle_param_iff)

lemma by_reference_value: "\<not> handle_type ty \<Longrightarrow> by_reference (Typed ty)"
  by (cases ty) simp_all

lemma handle_received:
  assumes "is_handle_param ty" "handle_layout_ty ty (handle_kind_of ty) = Ok T"
  shows "receives (Typed ty) (PHandle (borrow_of \<lparr>h_kind = handle_kind_of ty, h_mut = is_mut_ref ty, h_layout = T\<rparr>))
    \<longleftrightarrow> by_reference (Typed ty)"
proof (cases ty)
  case (TRef mu t)
  then show ?thesis
    using assms
    by (auto simp: handle_layout_ty_def last_seg_def borrow_of_def is_mut_ref_def handle_kind_of_path_def
        split: rust_ty.splits if_splits path_seg.splits path_args.splits list.splits)
qed (use assms in \<open>simp_all add: is_handle_param_iff [symmetric]\<close>)

lemma split_loop_params:
  assumes "split_loop args hs ts = Ok (hs', ts')" "distinct (map h_kind hs)"
  shows "distinct (map h_kind hs') \<and> (\<exists>hs2 ts2 as.
    hs' = hs @ hs2 \<and> ts' = ts @ ts2 \<and> args = as @ map Typed ts2 \<and> (ts \<noteq> [] \<longrightarrow> as = [])
    \<and> list_all2 (\<lambda>a h. receives a (PHandle (borrow_of h) :: 'v passed) \<longleftrightarrow> by_reference a) as hs2
    \<and> list_all (\<lambda>ty. \<not> handle_type ty) ts2)"
  using assms
proof (induction args hs ts rule: split_loop.induct)
  case (3 ty args hs ts)
  let ?R = "\<lambda>a h. receives a (PHandle (borrow_of h) :: 'v passed) \<longleftrightarrow> by_reference a"
  show ?case
  proof (cases "is_handle_param ty")
    case False
    then obtain hs2 ts2 as where "distinct (map h_kind hs')" "hs' = hs @ hs2" "ts' = (ts @ [ty]) @ ts2"
        "args = as @ map Typed ts2" "as = []" "list_all2 ?R as hs2" "list_all (\<lambda>ty. \<not> handle_type ty) ts2"
      using "3.IH"(1) "3.prems" by auto
    then show ?thesis using False by (auto simp: is_handle_param_iff intro!: exI [of _ "ty # ts2"])
  next
    case True
    let ?k = "handle_kind_of ty"
    obtain T where T: "handle_layout_ty ty ?k = Ok T" "ts = []" "\<forall>h \<in> set hs. h_kind h \<noteq> ?k"
      and r: "split_loop args (hs @ [\<lparr>h_kind = ?k, h_mut = is_mut_ref ty, h_layout = T\<rparr>]) ts = Ok (hs', ts')"
      using "3.prems"(1) True by (auto simp: Let_def bind_rust_Ok_iff list_ex_iff split: if_splits)
    let ?h = "\<lparr>h_kind = ?k, h_mut = is_mut_ref ty, h_layout = T\<rparr>"
    have d: "distinct (map h_kind (hs @ [?h]))" using "3.prems"(2) T(3) by auto
    have n: "\<not> list_ex (\<lambda>h. h_kind h = ?k) hs" using T(3) by (auto simp: list_ex_iff)
    have nn: "\<not> \<not> is_handle_param ty" "\<not> ts \<noteq> []" using True T(2) by simp_all
    obtain hs2 ts2 as where h: "distinct (map h_kind hs')" "hs' = (hs @ [?h]) @ hs2" "ts' = ts @ ts2"
        "args = as @ map Typed ts2" "list_all2 ?R as hs2" "list_all (\<lambda>ty. \<not> handle_type ty) ts2"
      using "3.IH"(2) [OF nn(1) refl n nn(2) T(1) r d] by (elim conjE exE) (rule that)
    have "list_all2 ?R (Typed ty # as) (?h # hs2)" using h(5) handle_received [OF True T(1)] by simp
    then show ?thesis using h T(2) by (intro conjI exI [of _ "?h # hs2"] exI [of _ ts2] exI [of _ "Typed ty # as"]) simp_all
  qed
qed auto

lemma call_body_passes:
  assumes "split_handle_params m = Ok (hs, ts)" "length args = length ts"
  shows "\<exists>ps. eval_call call (call_body (fn_ident m) hs (length ts)) (bind_args args) =
      Some (call (fn_ident m) ps) \<and> (passes m args ps \<longleftrightarrow> list_all by_reference (fn_inputs m))"
proof -
  let ?hs = "map (\<lambda>h. PHandle (borrow_of h) :: 'a passed) hs"
  have s: "split_loop (fn_inputs m) [] [] = Ok (hs, ts)"
    using assms(1) by (simp add: split_handle_params_def)
  obtain as where p: "distinct (map h_kind hs)" "fn_inputs m = as @ map Typed ts"
      "list_all2 (\<lambda>a h. receives a (PHandle (borrow_of h) :: 'a passed) \<longleftrightarrow> by_reference a) as hs"
      "list_all (\<lambda>ty. \<not> handle_type ty) ts"
    using split_loop_params [OF s, where 'v = 'a] by auto
  have "list_all2 receives (map Typed ts) (map PArg args)"
    using p(4) assms(2) by (auto simp: list_all2_conv_all_nth list_all_length)
  moreover have "list_all by_reference (map Typed ts)"
    using p(4) by (auto simp: list_all_iff by_reference_value)
  moreover have "list_all2 receives as ?hs \<longleftrightarrow> list_all by_reference as" "length as = length ?hs"
    using p(3) by (auto simp: list_all2_conv_all_nth list_all_length)
  ultimately have "list_all2 receives (fn_inputs m) (?hs @ map PArg args) \<longleftrightarrow> list_all by_reference (fn_inputs m)"
    using p(2) by (simp add: list_all2_append)
  moreover have "map passed_arg (filter is_PArg (?hs @ map PArg args)) = args"
    by (simp add: filter_map comp_def)
  ultimately show ?thesis
    using eval_call_body [OF p(1), of call "fn_ident m" args] assms(2) by (auto simp: passes_def)
qed

lemma expanded_split:
  "fn_ok m \<Longrightarrow> fn_pub m \<Longrightarrow> split_handle_params m = Ok (handles_of m, abi_params (fn_inputs m))"
  by (cases m rule: split_handle_params_cases) (auto simp: fn_ok_def)

lemma expanded_parts:
  assumes "expand_contract keccak items = Ok x"
  shows "list_all fn_ok (fns items)"
    and "x_methods x = map (impl_of keccak) (filter plain_fn (fns items))"
    and "IFn m \<in> set items \<Longrightarrow> is_ctor m \<Longrightarrow> x_ctor x = Some (ctor_of m)"
proof -
  have e: "expand_items keccak items x_empty = Ok x" using assms by (simp add: expand_contract_Ok)
  from expand_items_Ok [OF e] show "list_all fn_ok (fns items)"
    and "x_methods x = map (impl_of keccak) (filter plain_fn (fns items))"
    by (simp_all add: x_empty_def)
  show "x_ctor x = Some (ctor_of m)" if "IFn m \<in> set items" "is_ctor m"
    using contract_ctor [OF assms that] .
qed

text \<open>C30 The generated calls thread everything to its place, in the implementation of every method (the
  \<open>i\<close>-th implementation is that of the \<open>i\<close>-th public method in source order) and of the constructor of an
  expanded contract: the body finds all the names it uses and calls that method's own function, and when
  the handle parameters are references each parameter of the function receives what its type asks for:
  a handle parameter the borrow of the layout, space and mutability its type names, so a method that
  declares a shared handle is never given write access, and the others the decoded arguments in order.
  When a handle is taken by value, which the macro accepts, its parameter does not receive what its type
  asks for.\<close>

theorem generated_calls_pass_parameters:
  assumes "expand_contract keccak items = Ok x"
    and "i < length (x_methods x) \<and> m = filter plain_fn (fns items) ! i \<and> code = mi_code (x_methods x ! i)
       \<or> x_ctor x = Some c \<and> IFn m \<in> set items \<and> is_ctor m \<and> code = ci_code c"
    and "length args = length (filter value_param (fn_inputs m))"
  shows "length (x_methods x) = length (filter plain_fn (fns items))
    \<and> (\<exists>ps. eval_call call code (bind_args args) = Some (call (fn_ident m) ps)
        \<and> (passes m args ps \<longleftrightarrow> list_all by_reference (fn_inputs m)))"
proof -
  have l: "length (x_methods x) = length (filter plain_fn (fns items))"
    using expanded_parts(2) [OF assms(1)] by simp
  have "m \<in> set (fns items) \<and> fn_pub m
    \<and> code = call_body (fn_ident m) (handles_of m) (length (abi_params (fn_inputs m)))"
    using assms(2)
  proof (elim disjE conjE)
    assume i: "i < length (x_methods x)" "m = filter plain_fn (fns items) ! i" "code = mi_code (x_methods x ! i)"
    then have "m \<in> set (filter plain_fn (fns items))" using l by (metis nth_mem)
    then show ?thesis
      using i l expanded_parts(2) [OF assms(1)] by (simp add: mi_code_def impl_of_def plain_fn_def)
  next
    assume "x_ctor x = Some c" "IFn m \<in> set items" "is_ctor m" "code = ci_code c"
    then show ?thesis
      using expanded_parts(3) [OF assms(1)] by (simp add: fns_set ci_code_def ctor_of_def is_ctor_def)
  qed
  moreover from this have "fn_ok m" using expanded_parts(1) [OF assms(1)] by (simp add: list_all_iff)
  ultimately show ?thesis
    using call_body_passes [OF expanded_split, of m args call] l assms(3) by (simp add: value_params)
qed

text \<open>The model of a generated method call is what its code evaluates to.\<close>

lemma mi_call_generated:
  assumes "distinct (map h_kind (mi_handles mi))" "length args = length (mi_args mi)"
  shows "eval_call (\<lambda>name ps. body name (map passed_arg (filter is_PArg ps)) st) (mi_code mi) (bind_args args) =
     Some (mi_call body mi args st)"
  by (simp add: mi_code_def mi_call_def filter_map comp_def
      eval_call_body [OF assms(1), of _ _ args, unfolded assms(2)])

text \<open>A method with both handles, and what it is given.\<close>

definition handle_ref :: "bool \<Rightarrow> string \<Rightarrow> string \<Rightarrow> rust_ty" where
  "handle_ref m handle lay = TRef m (TPath False False [Seg handle (Angle [GType (named_ty lay)])])"

definition sample_handles :: "impl_item list" where
  "sample_handles = [IFn (sample_fn ''move_all''
     [handle_ref True ''TransientStorage'' ''Temp'', handle_ref False ''Storage'' ''Ledger'', named_ty ''U256''])]"

definition sample_hx :: expansion where
  "sample_hx = (case expand_contract (\<lambda>b. b) sample_handles of Ok x \<Rightarrow> x | _ \<Rightarrow> x_empty)"

lemma sample_handles_expand: "expand_contract (\<lambda>b. b) sample_handles = Ok sample_hx"
proof -
  have "(case expand_contract (\<lambda>b. b) sample_handles of Ok _ \<Rightarrow> True | _ \<Rightarrow> False)" by code_simp
  then show ?thesis by (auto simp: sample_hx_def split: rust.splits)
qed

theorem generated_calls_pass_parameters_witness:
  "\<exists>ps. eval_call Pair (mi_code (x_methods sample_hx ! 0)) (bind_args [7 :: nat]) = Some (''move_all'', ps)
     \<and> passes (sample_fn ''move_all'' [handle_ref True ''TransientStorage'' ''Temp'',
         handle_ref False ''Storage'' ''Ledger'', named_ty ''U256'']) [7] ps"
proof -
  let ?m = "sample_fn ''move_all'' [handle_ref True ''TransientStorage'' ''Temp'',
         handle_ref False ''Storage'' ''Ledger'', named_ty ''U256'']"
  have l: "length (x_methods sample_hx) = 1 \<and> list_all by_reference (fn_inputs ?m)
      \<and> length (filter value_param (fn_inputs ?m)) = 1" by code_simp
  moreover have "filter plain_fn (fns sample_handles) ! 0 = ?m" by code_simp
  ultimately show ?thesis
    using generated_calls_pass_parameters [OF sample_handles_expand, of 0 ?m _ _ "[7 :: nat]" Pair]
    by (simp add: sample_fn_def)
qed

end
