(* ===== verification/Macro_Entry.thy ===== *)
theory Macro_Entry
  imports Macro_Call Macro_Layout
begin

text \<open>
  The macros a contract author writes (\<open>std-evm-macros/src/lib.rs\<close>, \<open>inert\<close> of \<open>attrs.rs\<close>) and the text
  of every error they report. Parsing the tokens of an item is \<open>syn\<close>'s: the parameter \<open>parse\<close>, with the
  message of a parse error. The second part says which error of an \<open>impl\<close> block is the one reported.
\<close>

subsection \<open>Messages\<close>

definition hash_attr :: "string \<Rightarrow> string" where "hash_attr name = ''#['' @ name @ '']''"

definition dup_quoted :: "string \<Rightarrow> string" where "dup_quoted s = CHR 0x22 # s @ [CHR 0x22]"

definition selector_message :: string where
  "selector_message =
     ''#[selector('' @ dup_quoted ''...'' @ '')] must be a full signature string, e.g. '' @
     dup_quoted ''balanceOf(address)''"

definition duplicate_message :: "string \<Rightarrow> string \<Rightarrow> string" where
  "duplicate_message name site = ''duplicate '' @ hash_attr name @ '': also present on '' @ backtick site"

definition self_message :: string where
  "self_message =
     ''#[contract] methods must be free functions on the type (no '' @ backtick ''self'' @ '') '' @ em_dash @
     '' use '' @ backtick ''&Storage<T>'' @ ''/'' @ backtick ''&mut Storage<T>'' @ '' instead''"

definition two_handles_message :: "handle_kind \<Rightarrow> string" where
  "two_handles_message k = ''a method takes at most one '' @ backtick (handle_name k) @ '' handle''"

definition handle_refs :: "string \<Rightarrow> string" where
  "handle_refs h = backtick (''&'' @ h @ ''<T>'') @ ''/'' @ backtick (''&mut '' @ h @ ''<T>'')"

definition after_abi_message :: "handle_kind \<Rightarrow> string" where
  "after_abi_message k = handle_refs (handle_name k) @ '' must come before any ABI parameters''"

definition expected_message :: "handle_kind \<Rightarrow> string" where
  "expected_message k = ''expected '' @ handle_refs (handle_name k)"

definition no_layout_message :: "handle_kind \<Rightarrow> string" where
  "no_layout_message k =
     backtick (handle_name k) @ '' needs a layout type argument, e.g. '' @
     backtick (''&'' @ handle_name k @ ''<TokenStorage>'') @ '' '' @ em_dash @ '' bare '' @
     backtick (''&'' @ handle_name k) @ '' isn'' @ [CHR 0x27] @ ''t valid''"

definition no_type_message :: "handle_kind \<Rightarrow> string" where
  "no_type_message k = backtick (handle_name k) @ '' needs exactly one layout type argument''"

definition extra_type_message :: "handle_kind \<Rightarrow> string" where
  "extra_type_message k = backtick (handle_name k) @ '' takes exactly one layout type argument''"

definition unnamed_message :: "string \<Rightarrow> string" where
  "unnamed_message macro_name = macro_name @ '' requires a struct with named fields''"

text \<open>\<open>lit_msg\<close> is \<open>syn\<close>'s message for an attribute that is not one string literal.\<close>

fun macro_error_text :: "string \<Rightarrow> macro_error \<Rightarrow> string" where
  "macro_error_text lit_msg AttrArgs = lit_msg"
| "macro_error_text lit_msg (BadSelector s) = selector_message"
| "macro_error_text lit_msg (DuplicateAttr name first second) = duplicate_message name first"
| "macro_error_text lit_msg (SelectorCollision other name sel) = collision_message other name sel"
| "macro_error_text lit_msg SelfReceiver = self_message"
| "macro_error_text lit_msg (TwoHandles k) = two_handles_message k"
| "macro_error_text lit_msg (HandleAfterAbi k) = after_abi_message k"
| "macro_error_text lit_msg (HandleShape k) = expected_message k"
| "macro_error_text lit_msg (HandleNoArgs k) = no_layout_message k"
| "macro_error_text lit_msg (HandleNoTypeArg k) = no_type_message k"
| "macro_error_text lit_msg (HandleExtraTypeArg k) = extra_type_message k"
| "macro_error_text lit_msg CtorReturns = ''#[constructor] function must have no return type''"
| "macro_error_text lit_msg (UnnamedFields name) = unnamed_message name"
| "macro_error_text lit_msg MappingNoArgs = ''Mapping must have two type arguments: Mapping<K, V>''"
| "macro_error_text lit_msg MappingArity =
     ''Mapping must have exactly two type arguments: Mapping<K, V>''"

subsection \<open>The attribute macros\<close>

text \<open>What a macro leaves in place of the item: a \<open>compile_error!\<close>, an expansion, or an error followed by
  the item. \<open>None\<close> is a panic of the macro.\<close>

datatype ('t, 'x) macro_output = CompileError string | Expands 'x | ErrorThenItem string "'t list"

definition finish_macro :: "string \<Rightarrow> (macro_error, 'x) rust \<Rightarrow> ('t, 'x) macro_output option" where
  "finish_macro lit_msg r =
     (case r of
        Ok x \<Rightarrow> Some (Expands x)
      | Err e \<Rightarrow> Some (CompileError (macro_error_text lit_msg e))
      | Panic \<Rightarrow> None)"


definition storage_macro ::
  "string \<Rightarrow> ('t list \<Rightarrow> string + string \<times> struct_fields) \<Rightarrow> 't list \<Rightarrow> 't list \<Rightarrow>
     ('t, layout) macro_output option" where
  "storage_macro lit_msg parse attr item =
     (if attr \<noteq> [] then Some (CompileError ''#[storage] takes no arguments'')
      else case parse item of
        Inl msg \<Rightarrow> Some (CompileError msg)
      | Inr (name, sf) \<Rightarrow> finish_macro lit_msg (expand_storage name sf))"

definition transient_macro ::
  "string \<Rightarrow> ('t list \<Rightarrow> string + string \<times> struct_fields) \<Rightarrow> 't list \<Rightarrow> 't list \<Rightarrow>
     ('t, layout) macro_output option" where
  "transient_macro lit_msg parse attr item =
     (if attr \<noteq> [] then Some (CompileError ''#[transient] takes no arguments'')
      else case parse item of
        Inl msg \<Rightarrow> Some (CompileError msg)
      | Inr (name, sf) \<Rightarrow> finish_macro lit_msg (expand_transient name sf))"

text \<open>The helper attributes, where \<open>#[contract]\<close> does not strip them.\<close>

definition inert :: "string \<Rightarrow> 't list \<Rightarrow> 't list \<Rightarrow> ('t, 'x) macro_output" where
  "inert name attr item =
     ErrorThenItem (backtick (hash_attr name) @
       '' must be used on a method inside a '' @ backtick ''#[contract]'' @ '' impl block'') item"

definition constructor_macro :: "'t list \<Rightarrow> 't list \<Rightarrow> ('t, 'x) macro_output" where
  "constructor_macro = inert ''constructor''"

definition payable_macro :: "'t list \<Rightarrow> 't list \<Rightarrow> ('t, 'x) macro_output" where
  "payable_macro = inert ''payable''"

definition fallback_macro :: "'t list \<Rightarrow> 't list \<Rightarrow> ('t, 'x) macro_output" where
  "fallback_macro = inert ''fallback''"

definition receive_macro :: "'t list \<Rightarrow> 't list \<Rightarrow> ('t, 'x) macro_output" where
  "receive_macro = inert ''receive''"

definition selector_macro :: "'t list \<Rightarrow> 't list \<Rightarrow> ('t, 'x) macro_output" where
  "selector_macro = inert ''selector''"

subsection \<open>Which error is reported\<close>
































end
