(* ===== verification/Trace.thy ===== *)
theory Trace
  imports Disasm
begin

text \<open>
  \<open>evm-testkit/src/trace.rs\<close>: the recorder of executed instructions, its callbacks as steps of a
  state machine, and the post-processing of a finished recording. The interpreter of \<open>revm\<close> is
  seen through the four things the callbacks read from it.
\<close>

subsection \<open>Steps (Step, Trace)\<close>

definition STACK_SHOWN :: nat where "STACK_SHOWN = 5"

record step =
  st_depth :: nat
  st_frame :: nat
  st_pc :: nat
  st_opcode :: byte
  st_mnemonic :: string
  st_gas_remaining :: "64 word"
  st_gas_cost :: "64 word"
  st_stack :: "word256 list"

text \<open>\<open>u64::saturating_sub\<close>.\<close>

definition sat_sub :: "64 word \<Rightarrow> 64 word \<Rightarrow> 64 word" where
  "sat_sub a b = (if b \<le> a then a - b else 0)"

text \<open>Formatting widths of \<open>write!\<close>.\<close>

definition pad_left :: "nat \<Rightarrow> string \<Rightarrow> string" where
  "pad_left n s = replicate (n - length s) (CHR '' '') @ s"

definition pad_right :: "nat \<Rightarrow> string \<Rightarrow> string" where
  "pad_right n s = s @ replicate (n - length s) (CHR '' '')"

definition ellipsis :: string where "ellipsis = [CHR 0xe2, CHR 0x80, CHR 0xa6]"

fun stack_words :: "nat \<Rightarrow> word256 list \<Rightarrow> string" where
  "stack_words i [] = []"
| "stack_words i (w # ws) =
     (if 0 < i then '' '' else []) @ ''0x'' @ hex_nat (unat w) @ stack_words (i + 1) ws"

definition step_display :: "step \<Rightarrow> string" where
  "step_display s =
     concat (replicate (st_depth s) ''  '') @ hex04 (st_pc s) @ ''  '' @ pad_right 12 (st_mnemonic s) @
     '' '' @ pad_left 9 (dec_nat (unat (st_gas_remaining s))) @ '' '' @
     pad_left 5 (dec_nat (unat (st_gas_cost s))) @ ''  '' @
     (if st_stack s = [] then ''-''
      else stack_words 0 (take STACK_SHOWN (rev (st_stack s))) @
        (if STACK_SHOWN < length (st_stack s)
         then '' '' @ ellipsis @ ''+'' @ dec_nat (length (st_stack s) - STACK_SHOWN) else []))"

definition trace_display :: "step list \<Rightarrow> string" where
  "trace_display steps =
     ''  pc  op                 gas  cost  stack (top first)'' @ [CHR 0x0a] @
     concat (map (\<lambda>s. step_display s @ [CHR 0x0a]) steps)"

subsection \<open>The recorder (Tracer)\<close>

record tracer =
  tr_steps :: "step list"
  tr_depth :: nat
  tr_frames :: "nat list"
  tr_frames_seen :: nat

definition tracer_default :: tracer where
  "tracer_default = \<lparr>tr_steps = [], tr_depth = 0, tr_frames = [], tr_frames_seen = 0\<rparr>"

definition enter_frame :: "tracer \<Rightarrow> tracer" where
  "enter_frame t =
     (let t = t\<lparr>tr_frames_seen := tr_frames_seen t + 1\<rparr>;
          t = t\<lparr>tr_frames := tr_frames t @ [tr_frames_seen t]\<rparr> in
      t\<lparr>tr_depth := tr_depth t + 1\<rparr>)"

definition leave_frame :: "tracer \<Rightarrow> tracer" where
  "leave_frame t = t\<lparr>tr_frames := butlast (tr_frames t), tr_depth := tr_depth t - 1\<rparr>"

text \<open>What a callback sees of the interpreter.\<close>

record interp =
  in_opcode :: byte
  in_pc :: nat
  in_gas :: "64 word"
  in_stack :: "word256 list"

definition on_step :: "interp \<Rightarrow> tracer \<Rightarrow> tracer" where
  "on_step it t =
     t\<lparr>tr_steps := tr_steps t @
        [\<lparr>st_depth = tr_depth t,
          st_frame = (if tr_frames t = [] then 0 else last (tr_frames t)),
          st_pc = in_pc it, st_opcode = in_opcode it,
          st_mnemonic = (case by_byte (in_opcode it) of None \<Rightarrow> ''INVALID'' | Some sp \<Rightarrow> mnemonic sp),
          st_gas_remaining = in_gas it, st_gas_cost = 0, st_stack = in_stack it\<rparr>]\<rparr>"

definition on_step_end :: "interp \<Rightarrow> tracer \<Rightarrow> tracer" where
  "on_step_end it t =
     (if tr_steps t = [] then t
      else let s = last (tr_steps t) in
        t\<lparr>tr_steps := butlast (tr_steps t) @
          [s\<lparr>st_gas_cost := sat_sub (st_gas_remaining s) (in_gas it)\<rparr>]\<rparr>)"

datatype event = EStep interp | EStepEnd interp | ECall | ECallEnd | ECreate | ECreateEnd

fun on_event :: "event \<Rightarrow> tracer \<Rightarrow> tracer" where
  "on_event (EStep it) t = on_step it t"
| "on_event (EStepEnd it) t = on_step_end it t"
| "on_event ECall t = enter_frame t"
| "on_event ECallEnd t = leave_frame t"
| "on_event ECreate t = enter_frame t"
| "on_event ECreateEnd t = leave_frame t"

definition record_events :: "event list \<Rightarrow> tracer" where
  "record_events es = fold on_event es tracer_default"

subsection \<open>Finishing a recording\<close>

definition opens_frame :: "step \<Rightarrow> bool" where
  "opens_frame s =
     (case by_byte (st_opcode s) of None \<Rightarrow> False | Some sp \<Rightarrow> category sp = CatCall)"

text \<open>The loop \<open>for i in (0..n).rev()\<close>: \<open>i\<close> steps are left, \<open>next_in_frame\<close> is the hash map.\<close>

fun charge_loop :: "nat \<Rightarrow> step list \<Rightarrow> (nat \<rightharpoonup> 64 word) \<Rightarrow> step list" where
  "charge_loop 0 steps next_in_frame = steps"
| "charge_loop (Suc i) steps next_in_frame =
     (let s = steps ! i;
          steps =
            (if opens_frame s then
               case next_in_frame (st_frame s) of
                 Some resumed_at \<Rightarrow> steps[i := s\<lparr>st_gas_cost := sat_sub (st_gas_remaining s) resumed_at\<rparr>]
               | None \<Rightarrow> steps
             else steps) in
      charge_loop i steps (next_in_frame(st_frame s \<mapsto> st_gas_remaining s)))"

definition charge_frame_openers :: "step list \<Rightarrow> step list" where
  "charge_frame_openers steps = charge_loop (length steps) steps (\<lambda>_. None)"

definition min_depth :: "step list \<Rightarrow> nat" where
  "min_depth steps = (if steps = [] then 0 else Min (set (map st_depth steps)))"

definition trace_finish :: "tracer \<Rightarrow> step list" where
  "trace_finish t =
     (let steps = charge_frame_openers (tr_steps t); base = min_depth steps in
      map (\<lambda>s. s\<lparr>st_depth := st_depth s - base\<rparr>) steps)"

subsection \<open>The cost of frame openers\<close>

text \<open>The documented rule: an instruction that opens a frame costs the gas between it and the next
  instruction of its own frame, if there is one.\<close>

definition true_cost :: "step list \<Rightarrow> nat \<Rightarrow> 64 word" where
  "true_cost steps i =
     (let s = steps ! i in
      if opens_frame s then
        case List.find (\<lambda>t. st_frame t = st_frame s) (drop (Suc i) steps) of
          Some t \<Rightarrow> sat_sub (st_gas_remaining s) (st_gas_remaining t)
        | None \<Rightarrow> st_gas_cost s
      else st_gas_cost s)"

definition next_gas :: "step list \<Rightarrow> nat \<Rightarrow> nat \<rightharpoonup> 64 word" where
  "next_gas steps i =
     (\<lambda>f. map_option st_gas_remaining (List.find (\<lambda>t. st_frame t = f) (drop i steps)))"

lemma next_gas_step:
  "i < length steps \<Longrightarrow>
     next_gas steps i = (next_gas steps (Suc i))(st_frame (steps ! i) \<mapsto> st_gas_remaining (steps ! i))"
  by (auto simp: next_gas_def fun_eq_iff Cons_nth_drop_Suc [symmetric])

definition charged :: "step list \<Rightarrow> nat \<Rightarrow> step" where
  "charged steps i = (steps ! i)\<lparr>st_gas_cost := true_cost steps i\<rparr>"

lemma charged_cases:
  "charged steps i =
     (if opens_frame (steps ! i) then
        case next_gas steps (Suc i) (st_frame (steps ! i)) of
          Some g \<Rightarrow> (steps ! i)\<lparr>st_gas_cost := sat_sub (st_gas_remaining (steps ! i)) g\<rparr>
        | None \<Rightarrow> steps ! i
      else steps ! i)"
  by (auto simp: charged_def true_cost_def next_gas_def Let_def split: option.split)

lemma charge_loop_eq:
  assumes "i \<le> length steps"
  shows "charge_loop i (take i steps @ map (charged steps) [i..<length steps]) (next_gas steps i) =
     map (charged steps) [0..<length steps]"
  using assms
proof (induction i)
  case (Suc i)
  let ?n = "length steps"
  let ?ys = "take (Suc i) steps @ map (charged steps) [Suc i..<?n]"
  have i: "i < ?n" using Suc.prems by simp
  have nth: "?ys ! i = steps ! i" using i by (simp add: nth_append)
  have upd: "?ys[i := charged steps i] = take i steps @ map (charged steps) [i..<?n]"
    using i by (simp add: take_Suc_conv_app_nth list_update_append upt_conv_Cons)
  have self: "?ys[i := steps ! i] = ?ys" by (metis nth list_update_id)
  have "charge_loop (Suc i) ?ys (next_gas steps (Suc i)) =
      charge_loop i (?ys[i := charged steps i]) (next_gas steps i)"
    by (simp only: charge_loop.simps nth Let_def charged_cases [of steps i])
       (auto simp: self next_gas_step [OF i] split: option.split simp del: list_update_append)
  then show ?case using Suc.IH i upd by simp
qed simp

lemma charge_frame_openers_eq: "charge_frame_openers steps = map (charged steps) [0..<length steps]"
proof -
  have "next_gas steps (length steps) = (\<lambda>_. None)" by (simp add: next_gas_def)
  then show ?thesis using charge_loop_eq [of "length steps" steps] by (simp add: charge_frame_openers_def)
qed

text \<open>C28 \<open>Tracer::finish\<close>: the finished trace has the recorded steps in order, each instruction that
  opens a frame charged the gas up to the next instruction of its own frame and every other cost
  as recorded, and depths counted from the shallowest step, which gets depth zero.\<close>

theorem trace_finish_correct:
  assumes "i < length (tr_steps t)"
  shows "length (trace_finish t) = length (tr_steps t)
    \<and> trace_finish t ! i =
        (tr_steps t ! i)\<lparr>st_gas_cost := true_cost (tr_steps t) i,
          st_depth := st_depth (tr_steps t ! i) - min_depth (tr_steps t)\<rparr>
    \<and> min_depth (tr_steps t) \<le> st_depth (tr_steps t ! i)
    \<and> (\<exists>j < length (tr_steps t). st_depth (trace_finish t ! j) = 0)"
proof -
  let ?ss = "tr_steps t"
  let ?cs = "map (charged ?ss) [0..<length ?ss]"
  have "map st_depth ?cs = map st_depth ?ss"
    by (rule nth_equalityI) (simp_all add: charged_def)
  then have b: "min_depth ?cs = min_depth ?ss"
    using assms by (auto simp: min_depth_def simp flip: set_map simp del: set_map)
  have ne: "set (map st_depth ?ss) \<noteq> {}" using assms by auto
  have le: "min_depth ?ss \<le> st_depth (?ss ! i)"
    using assms by (auto simp: min_depth_def intro!: Min_le)
  have "min_depth ?ss \<in> set (map st_depth ?ss)"
    using Min_in [OF _ ne] assms by (auto simp: min_depth_def)
  then obtain j where "j < length ?ss" "st_depth (?ss ! j) = min_depth ?ss"
    by (auto simp: in_set_conv_nth)
  then show ?thesis
    using assms le
    by (auto simp: trace_finish_def charge_frame_openers_eq Let_def b charged_def)
qed

subsection \<open>Frames\<close>

text \<open>With \<open>D\<close> the depth each frame was opened at.\<close>

definition frames_inv :: "(nat \<Rightarrow> nat) \<Rightarrow> tracer \<Rightarrow> bool" where
  "frames_inv D t \<longleftrightarrow>
     length (tr_frames t) = tr_depth t \<and> D 0 = 0
     \<and> (\<forall>i < length (tr_frames t). D (tr_frames t ! i) = Suc i
          \<and> 0 < tr_frames t ! i \<and> tr_frames t ! i \<le> tr_frames_seen t)
     \<and> (\<forall>s \<in> set (tr_steps t). st_depth s = D (st_frame s) \<and> st_frame s \<le> tr_frames_seen t)"

lemma frames_inv_default: "frames_inv (\<lambda>_. 0) tracer_default"
  by (simp add: frames_inv_def tracer_default_def)

lemma frames_inv_enter:
  "frames_inv D t \<Longrightarrow> frames_inv (D(tr_frames_seen t + 1 := tr_depth t + 1)) (enter_frame t)"
  by (auto simp: frames_inv_def enter_frame_def Let_def nth_append less_Suc_eq_le)

lemma frames_inv_leave: "frames_inv D t \<Longrightarrow> frames_inv D (leave_frame t)"
  by (auto simp: frames_inv_def leave_frame_def nth_butlast)

lemma frames_inv_step: "frames_inv D t \<Longrightarrow> frames_inv D (on_step it t)"
  by (cases "tr_frames t" rule: rev_cases) (auto simp: frames_inv_def on_step_def nth_append)

lemma frames_inv_step_end: "frames_inv D t \<Longrightarrow> frames_inv D (on_step_end it t)"
  by (cases "tr_steps t" rule: rev_cases) (auto simp: frames_inv_def on_step_end_def Let_def)

lemma frames_inv_event: "frames_inv D t \<Longrightarrow> \<exists>D'. frames_inv D' (on_event e t)"
  by (cases e)
     (auto intro: frames_inv_enter frames_inv_leave frames_inv_step frames_inv_step_end)

lemma frames_inv_record: "\<exists>D. frames_inv D (record_events es)"
proof -
  have "\<exists>D. frames_inv D t \<Longrightarrow> \<exists>D'. frames_inv D' (fold on_event es t)" for t
  proof (induction es arbitrary: t)
    case (Cons e es)
    then have "\<exists>D. frames_inv D (on_event e t)" using frames_inv_event by blast
    then show ?case using Cons.IH by simp
  qed simp
  then show ?thesis using frames_inv_default unfolding record_events_def by blast
qed

text \<open>The recorder's state machine: after any sequence of callbacks the depth is the number of open
  frames, frame ids are never reused, so that two recorded steps of one frame have one depth, and
  the frames on the stack are the ones entered and not left.\<close>

theorem frames_determine_depth:
  "tr_depth (record_events es) = length (tr_frames (record_events es))
   \<and> distinct (tr_frames (record_events es))
   \<and> (\<forall>s \<in> set (tr_steps (record_events es)). \<forall>s' \<in> set (tr_steps (record_events es)).
        st_frame s = st_frame s' \<longrightarrow> st_depth s = st_depth s')"
proof -
  obtain D where D: "frames_inv D (record_events es)" using frames_inv_record by blast
  then have "\<forall>i < length (tr_frames (record_events es)). D (tr_frames (record_events es) ! i) = Suc i"
    by (simp add: frames_inv_def)
  then have "distinct (tr_frames (record_events es))"
    by (metis Suc_inject distinct_conv_nth)
  then show ?thesis using D by (auto simp: frames_inv_def)
qed

definition sample_event :: "byte \<Rightarrow> 64 word \<Rightarrow> interp" where
  "sample_event b g = \<lparr>in_opcode = b, in_pc = 0, in_gas = g, in_stack = []\<rparr>"

text \<open>A call that forwards gas, one instruction of the callee, and the caller's next one.\<close>

definition sample_events :: "event list" where
  "sample_events = [ECall, EStep (sample_event 0xf1 1000), EStepEnd (sample_event 0xf1 50), ECall,
     EStep (sample_event 0x00 900), EStepEnd (sample_event 0x00 900), ECallEnd,
     EStep (sample_event 0x00 950)]"

lemma sample_steps: "length (tr_steps (record_events sample_events)) = 3"
  by (simp add: record_events_def sample_events_def tracer_default_def enter_frame_def on_step_def
      on_step_end_def leave_frame_def Let_def)

theorem trace_finish_correct_witness:
  "st_gas_cost (trace_finish (record_events sample_events) ! 0) =
     true_cost (tr_steps (record_events sample_events)) 0"
  using trace_finish_correct [of 0 "record_events sample_events"] sample_steps by simp

theorem frames_determine_depth_witness:
  "st_depth (tr_steps (record_events sample_events) ! 0) = st_depth (tr_steps (record_events sample_events) ! 2)"
proof -
  have "st_frame (tr_steps (record_events sample_events) ! 0) = st_frame (tr_steps (record_events sample_events) ! 2)"
    by (simp add: record_events_def sample_events_def tracer_default_def enter_frame_def on_step_def
        on_step_end_def leave_frame_def Let_def)
  then show ?thesis
    using frames_determine_depth [of sample_events] sample_steps by (simp add: nth_mem)
qed

end
