(* ===== verification/Outcome.thy ===== *)
theory Outcome
  imports Trace Abi_Args
begin

text \<open>
  \<open>evm-testkit/src/outcome.rs\<close>: the outcome of a transaction and its accessors. The result types of
  \<open>revm\<close> are the data type \<open>exec_result\<close>, over the types of its logs, addresses and halt reasons.
  An accessor that panics returns \<open>None\<close>. The default build checks arithmetic overflow, so the additions of
  \<open>revert_reason\<close> are checked additions that panic.
\<close>

subsection \<open>Outcomes (Status, Outcome)\<close>

datatype 'h status = Success | Revert | Halt 'h

record ('h, 'l, 'a) outcome =
  oc_status :: "'h status"
  oc_output :: "byte list"
  oc_gas_used :: "64 word"
  oc_logs :: "'l list"
  oc_created :: "'a option"
  oc_trace :: "step list option"

datatype 'a exec_output = OutCall "byte list" | OutCreate "byte list" "'a option"

datatype ('h, 'l, 'a) exec_result =
    ExecSuccess "64 word" "'l list" "'a exec_output"
  | ExecRevert "64 word" "'l list" "byte list"
  | ExecHalt 'h "64 word" "'l list"

definition outcome_new ::
  "('h, 'l, 'a) exec_result \<Rightarrow> step list option \<Rightarrow> ('h, 'l, 'a) outcome" where
  "outcome_new result tr =
     (case result of
        ExecSuccess g logs out \<Rightarrow>
          (let (data, created) =
             (case out of OutCall data \<Rightarrow> (data, None) | OutCreate data address \<Rightarrow> (data, address)) in
           \<lparr>oc_status = Success, oc_output = data, oc_gas_used = g, oc_logs = logs,
            oc_created = created, oc_trace = tr\<rparr>)
      | ExecRevert g logs out \<Rightarrow>
          \<lparr>oc_status = Revert, oc_output = out, oc_gas_used = g, oc_logs = logs,
           oc_created = None, oc_trace = tr\<rparr>
      | ExecHalt reason g logs \<Rightarrow>
          \<lparr>oc_status = Halt reason, oc_output = [], oc_gas_used = g, oc_logs = logs,
           oc_created = None, oc_trace = tr\<rparr>)"

definition is_success :: "('h, 'l, 'a) outcome \<Rightarrow> bool" where
  "is_success oc = (case oc_status oc of Success \<Rightarrow> True | _ \<Rightarrow> False)"

definition is_revert :: "('h, 'l, 'a) outcome \<Rightarrow> bool" where
  "is_revert oc = (case oc_status oc of Revert \<Rightarrow> True | _ \<Rightarrow> False)"

definition outcome_is_halt :: "('h, 'l, 'a) outcome \<Rightarrow> bool" where
  "outcome_is_halt oc = (case oc_status oc of Halt _ \<Rightarrow> True | _ \<Rightarrow> False)"

definition returned :: "('h, 'l, 'a) outcome \<Rightarrow> byte list option" where
  "returned oc = (if is_success oc then Some (oc_output oc) else None)"

definition returned_word :: "('h, 'l, 'a) outcome \<Rightarrow> byte list option" where
  "returned_word oc =
     (case returned oc of
        None \<Rightarrow> None
      | Some out \<Rightarrow> if length out = 32 then Some out else None)"

definition returned_u256 :: "('h, 'l, 'a) outcome \<Rightarrow> word256 option" where
  "returned_u256 oc = map_option (\<lambda>w. of_nat (be_val w)) (returned_word oc)"

definition returned_u64 :: "('h, 'l, 'a) outcome \<Rightarrow> 64 word option" where
  "returned_u64 oc =
     (case returned_word oc of
        None \<Rightarrow> None
      | Some w \<Rightarrow>
          if list_ex (\<lambda>b. b \<noteq> 0) (take 24 w) then None else Some (of_nat (be_val (drop 24 w))))"

definition created_address :: "('h, 'l, 'a) outcome \<Rightarrow> 'a option" where
  "created_address oc = oc_created oc"

subsection \<open>Revert reasons\<close>

definition ERROR_STRING :: "byte list" where "ERROR_STRING = [0x08, 0xc3, 0x79, 0xa0]"

definition strip_prefix :: "byte list \<Rightarrow> byte list \<Rightarrow> byte list option" where
  "strip_prefix p xs = (if take (length p) xs = p then Some (drop (length p) xs) else None)"

text \<open>\<open>slice.get(i..j)\<close>, \<open>usize::try_from\<close> of a 32-byte word, and checked \<open>usize\<close> addition.\<close>

definition get_range :: "nat \<Rightarrow> nat \<Rightarrow> byte list \<Rightarrow> byte list option" where
  "get_range i j xs = (if i \<le> j \<and> j \<le> length xs then Some (take (j - i) (drop i xs)) else None)"

definition to_usize :: "nat \<Rightarrow> byte list \<Rightarrow> nat option" where
  "to_usize us w = (if be_val w < usize_bound us then Some (be_val w) else None)"

definition usize_add :: "nat \<Rightarrow> nat \<Rightarrow> nat \<Rightarrow> (unit, nat) rust" where
  "usize_add us a b = (if a + b < usize_bound us then Ok (a + b) else Panic)"

fun try_opt :: "'a option \<Rightarrow> ('a \<Rightarrow> (unit, 'b) rust) \<Rightarrow> (unit, 'b) rust" where
  "try_opt None f = Err ()"
| "try_opt (Some x) f = f x"

text \<open>\<open>Err ()\<close> is the result \<open>None\<close> of the code, \<open>Panic\<close> an overflow.\<close>

definition revert_reason :: "nat \<Rightarrow> ('h, 'l, 'a) outcome \<Rightarrow> (unit, byte list) rust" where
  "revert_reason us oc =
     try_opt (strip_prefix ERROR_STRING (oc_output oc)) (\<lambda>body.
     try_opt (get_range 0 32 body) (\<lambda>w.
     try_opt (to_usize us w) (\<lambda>offset.
     bind_rust (usize_add us offset 32) (\<lambda>e.
     try_opt (get_range offset e body) (\<lambda>len_at.
     try_opt (to_usize us len_at) (\<lambda>len.
     bind_rust (usize_add us offset 32) (\<lambda>from32.
     bind_rust (usize_add us from32 len) (\<lambda>stop.
     try_opt (get_range from32 stop body) (\<lambda>bytes.
       if utf8_valid bytes then Ok bytes else Err ())))))))))"

subsection \<open>Display\<close>

text \<open>The \<open>Debug\<close> of a halt reason and the \<open>Display\<close> of an address are \<open>revm\<close>'s; formatting a reverted
  outcome computes its reason and panics with it.\<close>

definition no_trace_note :: string where
  "no_trace_note = ''(no trace '' @ [CHR 0xe2, CHR 0x80, CHR 0x94] @ '' build the Testkit with '' @
     [CHR 0x60] @ ''.tracing()'' @ [CHR 0x60] @ '')''"

definition outcome_display ::
  "nat \<Rightarrow> ('h \<Rightarrow> string) \<Rightarrow> ('a \<Rightarrow> string) \<Rightarrow> ('h, 'l, 'a) outcome \<Rightarrow> (unit, string) rust" where
  "outcome_display us show_halt show_address oc =
     bind_rust
       (case oc_status oc of
          Success \<Rightarrow> Ok ''success''
        | Revert \<Rightarrow>
            (case revert_reason us oc of
               Ok reason \<Rightarrow> Ok (''revert: '' @ map (\<lambda>b. char_of (unat b)) reason)
             | Err _ \<Rightarrow> Ok ''revert''
             | Panic \<Rightarrow> Panic)
        | Halt reason \<Rightarrow> Ok (''halt: '' @ show_halt reason))
       (\<lambda>s. Ok (s @ '' (gas '' @ dec_nat (unat (oc_gas_used oc)) @ '')'' @
          (if oc_output oc \<noteq> [] then [CHR 0x0a] @ ''output: 0x'' @ concat (map hex2 (oc_output oc))
           else []) @
          (case oc_created oc of None \<Rightarrow> [] | Some a \<Rightarrow> [CHR 0x0a] @ ''created: '' @ show_address a) @
          [CHR 0x0a] @
          (case oc_trace oc of Some tr \<Rightarrow> trace_display tr | None \<Rightarrow> no_trace_note)))"

subsection \<open>Revert reasons and the codec\<close>

lemma nonzero_high_bytes:
  assumes "length w = 32" "us \<le> 32"
  shows "list_ex (\<lambda>b. b \<noteq> 0) (take (32 - us) w) \<longleftrightarrow> \<not> be_val w < 256 ^ us"
proof -
  have s: "be_val w = be_val (take (32 - us) w) * 256 ^ us + be_val (drop (32 - us) w)"
    using be_val_append [of "take (32 - us) w" "drop (32 - us) w"] assms by simp
  have l: "be_val (drop (32 - us) w) < 256 ^ us"
    using be_val_bound [of "drop (32 - us) w"] assms by simp
  have "be_val w < 256 ^ us \<longleftrightarrow> be_val (take (32 - us) w) = 0"
    using s l by (cases "be_val (take (32 - us) w)") auto
  then show ?thesis by (auto simp: be_val_eq_0_iff list_ex_iff)
qed

lemma read_usize_eq:
  assumes "us \<le> 32"
  shows "read_usize us input off =
     (if off + 32 < usize_bound us then
        if off + 32 \<le> length input then
          (case to_usize us (take 32 (drop off input)) of Some n \<Rightarrow> Ok n | None \<Rightarrow> Err Overflow)
        else Err Truncated
      else Err Overflow)"
proof -
  have "be_val (drop (32 - us) w) = be_val w" if "length w = 32" "be_val w < 256 ^ us" for w
  proof -
    have "list_ex (\<lambda>b. b \<noteq> 0) (take (32 - us) w) = False"
      using nonzero_high_bytes [OF that(1) assms] that(2) by simp
    then have "be_val (take (32 - us) w) = 0" by (auto simp: be_val_eq_0_iff list_ex_iff)
    then show ?thesis
      using be_val_append [of "take (32 - us) w" "drop (32 - us) w"] that by simp
  qed
  then show ?thesis
    using nonzero_high_bytes [of "take 32 (drop off input)" us] assms
    by (auto simp: read_usize_def read_word_eq to_usize_def usize_bound_def)
qed

lemma try_opt_Ok [simp]: "try_opt r f = Ok y \<longleftrightarrow> (\<exists>x. r = Some x \<and> f x = Ok y)"
  by (cases r) auto

lemma try_opt_Panic [simp]: "try_opt r f = Panic \<longleftrightarrow> (\<exists>x. r = Some x \<and> f x = Panic)"
  by (cases r) auto

lemma usize_bound_32: "1 \<le> us \<Longrightarrow> 32 < usize_bound us"
  using power_increasing [of 1 us "256 :: nat"] by (simp add: usize_bound_def)

lemmas reason_defs = revert_reason_def string_decode_def decode_bytes_def read_usize_eq
  checked_add_def slice_def get_range_def usize_add_def

text \<open>The tests both decoders make, in order, with what each answers to a failed one.\<close>

definition reason_of ::
  "nat \<Rightarrow> byte list \<Rightarrow> ('e, byte list) rust \<Rightarrow> ('e, byte list) rust \<Rightarrow> ('e, byte list) rust \<Rightarrow>
     ('e, byte list) rust \<Rightarrow> ('e, byte list) rust" where
  "reason_of us body short big over bad =
     (if length body < 32 then short
      else case to_usize us (take 32 body) of None \<Rightarrow> big | Some p \<Rightarrow>
        if usize_bound us \<le> p + 32 then over
        else if length body < p + 32 then short
        else case to_usize us (take 32 (drop p body)) of None \<Rightarrow> big | Some n \<Rightarrow>
          if usize_bound us \<le> p + 32 + n then over
          else if length body < p + 32 + n then short
          else if utf8_valid (take n (drop (p + 32) body)) then Ok (take n (drop (p + 32) body))
          else bad)"

lemma string_decode_reason:
  assumes "1 \<le> us" "us \<le> 32"
  shows "string_decode us body 0 =
     reason_of us body (Err Truncated) (Err Overflow) (Err Overflow) (Err InvalidUtf8)"
  using usize_bound_32 [OF assms(1)] assms(2)
  by (simp add: reason_defs reason_of_def not_less not_le split: option.split)

lemma revert_reason_body:
  assumes "strip_prefix ERROR_STRING (oc_output oc) = Some body" "1 \<le> us"
  shows "revert_reason us oc = reason_of us body (Err ()) (Err ()) Panic (Err ())"
  using usize_bound_32 [OF assms(2)] assms(1)
  by (simp add: reason_defs reason_of_def not_less not_le split: option.split)

text \<open>An offset at the end of the address range overflows the addition of 32.\<close>

definition overflowing_payload :: "byte list" where
  "overflowing_payload = ERROR_STRING @ word_from_usize (2 ^ 64 - 1)"

definition sample_revert :: "byte list \<Rightarrow> (unit, unit, unit) outcome" where
  "sample_revert payload = outcome_new (ExecRevert 21000 [] payload) None"

lemma overflowing_prefix:
  "strip_prefix ERROR_STRING (oc_output (sample_revert overflowing_payload)) =
     Some (word_from_usize (2 ^ 64 - 1))"
  by (simp add: strip_prefix_def sample_revert_def outcome_new_def overflowing_payload_def)

lemma revert_reason_overflow: "revert_reason 8 (sample_revert overflowing_payload) = Panic"
proof -
  have "unat (of_nat (2 ^ 64 - 1) :: 128 word) = 2 ^ 64 - 1"
    by (subst unat_of_nat) (simp add: take_bit_eq_mod)
  then have "to_usize 8 (word_from_usize (2 ^ 64 - 1)) = Some (2 ^ 64 - 1)"
    by (simp add: to_usize_def word_from_usize_def be_val_word_from_u128 usize_bound_def)
  then show ?thesis
    by (simp add: revert_reason_body [OF overflowing_prefix] reason_of_def usize_bound_def)
qed

text \<open>C29 \<open>Outcome::revert_reason\<close> against the codec of \<open>std-evm-abi\<close>: after the selector it finds a
  reason exactly when the contract-side decoder reads a string from the same bytes, the same one,
  and it panics only on payloads that decoder rejects as overflowing.\<close>

theorem revert_reason_matches_codec:
  assumes "strip_prefix ERROR_STRING (oc_output oc) = Some body" "1 \<le> us" "us \<le> 32"
  shows "(revert_reason us oc = Ok r \<longleftrightarrow> string_decode us body 0 = Ok r)
    \<and> (revert_reason us oc = Panic \<longrightarrow> string_decode us body 0 = Err Overflow)"
  unfolding revert_reason_body [OF assms(1,2)] string_decode_reason [OF assms(2,3)]
  by (simp add: reason_of_def split: option.split)

theorem revert_reason_matches_codec_witness:
  "string_decode 8 (word_from_usize (2 ^ 64 - 1)) 0 = Err Overflow"
  using revert_reason_matches_codec [OF overflowing_prefix, of 8] revert_reason_overflow by simp

text \<open>The payload of \<open>encode_error\<close>: a transaction that reverts with it has its reason as the revert
  reason of the outcome.\<close>

theorem revert_reason_roundtrip:
  assumes "utf8_valid reason" "1 \<le> us" "us \<le> 16" "length (encode_error reason) < usize_bound us"
  shows "revert_reason us (outcome_new (ExecRevert g logs (encode_error reason)) tr) = Ok reason"
proof -
  let ?oc = "outcome_new (ExecRevert g logs (encode_error reason)) tr"
  let ?body = "encode_tuple [string_to_component reason]"
  have p: "strip_prefix ERROR_STRING (oc_output ?oc) = Some ?body"
    by (simp add: strip_prefix_def ERROR_STRING_def outcome_new_def encode_error_def ERROR_SELECTOR_def)
  have "string_decode us ?body 0 = Ok reason"
    using string.output_roundtrip [of reason us] assms
    by (simp add: encode_output_def encode_error_def)
  moreover have "length ?body < usize_bound us" using assms(4) by (simp add: encode_error_def)
  ultimately show ?thesis using assms
    by (simp add: revert_reason_body [OF p] string_decode_reason)
       (auto simp: reason_of_def split: if_splits option.splits)
qed

theorem revert_reason_roundtrip_witness:
  "revert_reason 8 (sample_revert (encode_error [0x6e, 0x6f])) = Ok [0x6e, 0x6f]"
  unfolding sample_revert_def
  by (rule revert_reason_roundtrip)
     (simp_all add: encode_error_def ERROR_SELECTOR_def length_encode_tuple heads_size_def head_len_def
       string_to_component_def encode_bytes_def usize_bound_def)

text \<open>A returned \<open>u64\<close> is the word's value: the accessor gives up on any value that does not fit.\<close>

lemma returned_u64_value:
  "returned_u64 oc = (case returned_word oc of None \<Rightarrow> None
     | Some w \<Rightarrow> if be_val w < 2 ^ 64 then Some (of_nat (be_val w)) else None)"
proof (cases "returned_word oc")
  case (Some w)
  then have l: "length w = 32"
    by (auto simp: returned_word_def split: option.splits if_splits)
  have "be_val w = be_val (take 24 w) * 256 ^ 8 + be_val (drop 24 w)"
    using be_val_append [of "take 24 w" "drop 24 w"] l by simp
  moreover have "list_ex (\<lambda>b. b \<noteq> 0) (take 24 w) = (be_val (take 24 w) \<noteq> 0)"
    by (auto simp: be_val_eq_0_iff list_ex_iff)
  ultimately show ?thesis
    using nonzero_high_bytes [OF l, of 8] Some by (auto simp: returned_u64_def)
qed (simp add: returned_u64_def)

end
