(* ===== verification/Harness.thy ===== *)
theory Harness
  imports Link Outcome
begin

text \<open>
  \<open>evm-testkit/src/fork.rs\<close> and \<open>harness.rs\<close>: the testkit's state and every operation on it. The
  in-memory database of \<open>revm\<close> is a map of accounts and one of storage words, as documented; running
  a transaction is the parameter \<open>exec\<close>, which gets the specification, the transaction and the
  database and gives a result (\<open>None\<close> when validation rejects the transaction), the database after
  it and the callbacks an inspector receives. The hash of code is the parameter \<open>hash_slow\<close>, the
  account of an unknown address \<open>dflt\<close>. A panic is \<open>None\<close>.
\<close>

subsection \<open>Forks (fork.rs)\<close>

datatype spec_id = FRONTIER | HOMESTEAD | BYZANTIUM | PETERSBURG | ISTANBUL | BERLIN | LONDON
  | SHANGHAI | CANCUN | PRAGUE

fun fork_spec_id :: "fork \<Rightarrow> spec_id" where
  "fork_spec_id Frontier = FRONTIER"
| "fork_spec_id Homestead = HOMESTEAD"
| "fork_spec_id Byzantium = BYZANTIUM"
| "fork_spec_id Constantinople = PETERSBURG"
| "fork_spec_id Istanbul = ISTANBUL"
| "fork_spec_id Berlin = BERLIN"
| "fork_spec_id London = LONDON"
| "fork_spec_id Shanghai = SHANGHAI"
| "fork_spec_id Cancun = CANCUN"
| "fork_spec_id Prague = PRAGUE"

subsection \<open>State (Testkit)\<close>

type_synonym evm_address = "160 word"

record account_info =
  ac_balance :: word256
  ac_nonce :: "64 word"
  ac_code_hash :: word256
  ac_code :: "byte list option"

record memory_db =
  db_accounts :: "evm_address \<rightharpoonup> account_info"
  db_storage :: "evm_address \<Rightarrow> word256 \<Rightarrow> word256"

definition db_empty :: memory_db where
  "db_empty = \<lparr>db_accounts = (\<lambda>_. None), db_storage = (\<lambda>_ _. 0)\<rparr>"

record testkit =
  tk_fork :: fork
  tk_db :: memory_db
  tk_caller :: evm_address
  tk_gas_limit :: "64 word"
  tk_tracing :: bool

datatype tx_kind = TxCall evm_address | TxCreate

record tx_env =
  tx_caller :: evm_address
  tx_kind :: tx_kind
  tx_data :: "byte list"
  tx_gas_limit :: "64 word"
  tx_gas_price :: nat

definition DEFAULT_GAS_LIMIT :: "64 word" where "DEFAULT_GAS_LIMIT = 30000000"
definition CONTRACT :: evm_address where "CONTRACT = 0xc0de0"
definition CALLER :: evm_address where "CALLER = 0xca11"

subsection \<open>Accounts\<close>

definition tk_account :: "account_info \<Rightarrow> testkit \<Rightarrow> evm_address \<Rightarrow> account_info" where
  "tk_account dflt tk at =
     (case db_accounts (tk_db tk) at of Some info \<Rightarrow> info | None \<Rightarrow> dflt)"

definition insert_account_info :: "memory_db \<Rightarrow> evm_address \<Rightarrow> account_info \<Rightarrow> memory_db" where
  "insert_account_info db at info = db\<lparr>db_accounts := (db_accounts db)(at \<mapsto> info)\<rparr>"

definition update_account ::
  "account_info \<Rightarrow> testkit \<Rightarrow> evm_address \<Rightarrow> (account_info \<Rightarrow> account_info) \<Rightarrow> testkit" where
  "update_account dflt tk at f =
     tk\<lparr>tk_db := insert_account_info (tk_db tk) at (f (tk_account dflt tk at))\<rparr>"

definition tk_storage :: "testkit \<Rightarrow> evm_address \<Rightarrow> word256 \<Rightarrow> word256" where
  "tk_storage tk at slot = db_storage (tk_db tk) at slot"

definition tk_balance :: "account_info \<Rightarrow> testkit \<Rightarrow> evm_address \<Rightarrow> word256" where
  "tk_balance dflt tk at = ac_balance (tk_account dflt tk at)"

definition tk_code :: "account_info \<Rightarrow> testkit \<Rightarrow> evm_address \<Rightarrow> byte list" where
  "tk_code dflt tk at =
     (case ac_code (tk_account dflt tk at) of Some code \<Rightarrow> code | None \<Rightarrow> [])"

definition set_storage :: "testkit \<Rightarrow> evm_address \<Rightarrow> word256 \<Rightarrow> word256 \<Rightarrow> testkit" where
  "set_storage tk at slot v =
     tk\<lparr>tk_db := (tk_db tk)\<lparr>db_storage :=
       (db_storage (tk_db tk))(at := (db_storage (tk_db tk) at)(slot := v))\<rparr>\<rparr>"

definition set_balance :: "account_info \<Rightarrow> testkit \<Rightarrow> evm_address \<Rightarrow> word256 \<Rightarrow> testkit" where
  "set_balance dflt tk at b = update_account dflt tk at (\<lambda>info. info\<lparr>ac_balance := b\<rparr>)"

definition set_code ::
  "(byte list \<Rightarrow> word256) \<Rightarrow> account_info \<Rightarrow> testkit \<Rightarrow> evm_address \<Rightarrow> byte list \<Rightarrow> testkit" where
  "set_code hash_slow dflt tk at code =
     update_account dflt tk at
       (\<lambda>info. info\<lparr>ac_code_hash := hash_slow code, ac_code := Some code\<rparr>)"

definition testkit_new :: "account_info \<Rightarrow> fork \<Rightarrow> testkit" where
  "testkit_new dflt f =
     (let tk = \<lparr>tk_fork = f, tk_db = db_empty, tk_caller = CALLER, tk_gas_limit = DEFAULT_GAS_LIMIT,
                tk_tracing = False\<rparr> in
      set_balance dflt tk CALLER (- 1))"

definition tracing :: "testkit \<Rightarrow> testkit" where "tracing tk = tk\<lparr>tk_tracing := True\<rparr>"

definition with_gas_limit :: "testkit \<Rightarrow> 64 word \<Rightarrow> testkit" where
  "with_gas_limit tk g = tk\<lparr>tk_gas_limit := g\<rparr>"

definition with_caller :: "testkit \<Rightarrow> evm_address \<Rightarrow> testkit" where
  "with_caller tk c = tk\<lparr>tk_caller := c\<rparr>"

subsection \<open>Transactions\<close>

type_synonym ('h, 'l) executor =
  "spec_id \<Rightarrow> tx_env \<Rightarrow> memory_db \<Rightarrow>
     ('h, 'l, evm_address) exec_result option \<times> memory_db \<times> event list"

definition transact ::
  "('h, 'l) executor \<Rightarrow> testkit \<Rightarrow> tx_env \<Rightarrow> ('h, 'l, evm_address) outcome option \<times> testkit" where
  "transact exec tk tx =
     (let (result, db, events) = exec (fork_spec_id (tk_fork tk)) tx (tk_db tk);
          tr = (if tk_tracing tk then Some (trace_finish (record_events events)) else None) in
      (map_option (\<lambda>r. outcome_new r tr) result, tk\<lparr>tk_db := db\<rparr>))"

definition tx_of :: "testkit \<Rightarrow> tx_kind \<Rightarrow> byte list \<Rightarrow> tx_env" where
  "tx_of tk kind data =
     \<lparr>tx_caller = tk_caller tk, tx_kind = kind, tx_data = data, tx_gas_limit = tk_gas_limit tk,
      tx_gas_price = 0\<rparr>"

definition tk_call ::
  "('h, 'l) executor \<Rightarrow> testkit \<Rightarrow> evm_address \<Rightarrow> byte list \<Rightarrow>
     ('h, 'l, evm_address) outcome option \<times> testkit" where
  "tk_call exec tk to_addr calldata = transact exec tk (tx_of tk (TxCall to_addr) calldata)"

definition run_with ::
  "(byte list \<Rightarrow> word256) \<Rightarrow> account_info \<Rightarrow> ('h, 'l) executor \<Rightarrow> testkit \<Rightarrow> byte list \<Rightarrow> byte list \<Rightarrow>
     ('h, 'l, evm_address) outcome option \<times> testkit" where
  "run_with hash_slow dflt exec tk code calldata =
     (let tk = set_code hash_slow dflt tk CONTRACT code in tk_call exec tk CONTRACT calldata)"

definition tk_run ::
  "(byte list \<Rightarrow> word256) \<Rightarrow> account_info \<Rightarrow> ('h, 'l) executor \<Rightarrow> testkit \<Rightarrow> byte list \<Rightarrow>
     ('h, 'l, evm_address) outcome option \<times> testkit" where
  "tk_run hash_slow dflt exec tk code = run_with hash_slow dflt exec tk code []"

definition run_asm ::
  "(byte list \<Rightarrow> word256) \<Rightarrow> account_info \<Rightarrow> ('h, 'l) executor \<Rightarrow> testkit \<Rightarrow> asm \<Rightarrow>
     ('h, 'l, evm_address) outcome option \<times> testkit" where
  "run_asm hash_slow dflt exec tk a =
     (case asm_finish a of Ok code \<Rightarrow> tk_run hash_slow dflt exec tk code | _ \<Rightarrow> (None, tk))"

definition tk_deploy ::
  "('h, 'l) executor \<Rightarrow> testkit \<Rightarrow> byte list \<Rightarrow> ('h, 'l, evm_address) outcome option \<times> testkit" where
  "tk_deploy exec tk initcode = transact exec tk (tx_of tk TxCreate initcode)"

text \<open>The outer \<open>None\<close> would be a deployer that does not return.\<close>

definition deploy_runtime ::
  "('h, 'l) executor \<Rightarrow> testkit \<Rightarrow> byte list \<Rightarrow>
     (('h, 'l, evm_address) outcome option \<times> testkit) option" where
  "deploy_runtime exec tk runtime =
     map_option (\<lambda>r. case r of Ok initcode \<Rightarrow> tk_deploy exec tk initcode | _ \<Rightarrow> (None, tk))
       (deployer runtime (tk_fork tk))"

subsection \<open>What the harness guarantees\<close>

lemma account_update:
  "tk_account dflt (update_account dflt tk at f) b =
     (if b = at then f (tk_account dflt tk at) else tk_account dflt tk b)"
  by (simp add: tk_account_def update_account_def insert_account_info_def)

lemma set_code_observe:
  "tk_code dflt (set_code hash_slow dflt tk at code) b = (if b = at then code else tk_code dflt tk b)"
  "tk_balance dflt (set_code hash_slow dflt tk at code) b = tk_balance dflt tk b"
  "tk_storage (set_code hash_slow dflt tk at code) b s = tk_storage tk b s"
  by (simp_all add: set_code_def tk_code_def tk_balance_def account_update)
     (simp add: tk_storage_def update_account_def insert_account_info_def)

text \<open>\<open>Testkit::set_storage\<close>, \<open>set_balance\<close> and \<open>set_code\<close>: each changes the one observation it names
  and no other: not another account, another word, or another field of the same account.\<close>

theorem setters_independent:
  "tk_storage (set_storage tk a s v) b t = (if b = a \<and> t = s then v else tk_storage tk b t)
   \<and> tk_balance dflt (set_storage tk a s v) b = tk_balance dflt tk b
   \<and> tk_code dflt (set_storage tk a s v) b = tk_code dflt tk b
   \<and> tk_storage (set_balance dflt tk a v) b t = tk_storage tk b t
   \<and> tk_balance dflt (set_balance dflt tk a v) b = (if b = a then v else tk_balance dflt tk b)
   \<and> tk_code dflt (set_balance dflt tk a v) b = tk_code dflt tk b
   \<and> tk_storage (set_code hash_slow dflt tk a code) b t = tk_storage tk b t
   \<and> tk_balance dflt (set_code hash_slow dflt tk a code) b = tk_balance dflt tk b
   \<and> tk_code dflt (set_code hash_slow dflt tk a code) b = (if b = a then code else tk_code dflt tk b)"
  by (simp add: set_code_observe, simp add: set_balance_def tk_code_def tk_balance_def account_update,
      simp add: tk_storage_def update_account_def insert_account_info_def set_storage_def tk_account_def)

text \<open>The executor carries out a creation the way the byte machine of the fork runs its initcode: if that
  returns code which may be stored (no longer than the limits of EIP-170 and EIP-3860, no 0xef first),
  the transaction succeeds and the code is stored at \<open>a\<close>. For the testkit's caller, gas limit and state
  and one initcode.\<close>

definition creates :: "('h, 'l) executor \<Rightarrow> testkit \<Rightarrow> evm_address \<Rightarrow> byte list \<Rightarrow> bool" where
  "creates exec tk a initcode \<longleftrightarrow>
     (\<forall>code. run_initcode (tk_fork tk) 7 (\<lambda>_. 0) initcode = Some code \<and> length initcode \<le> 49152
        \<and> length code \<le> 24576 \<and> (code \<noteq> [] \<longrightarrow> hd code \<noteq> 0xef) \<longrightarrow>
      (\<exists>g logs db events info.
         exec (fork_spec_id (tk_fork tk))
           \<lparr>tx_caller = tk_caller tk, tx_kind = TxCreate, tx_data = initcode, tx_gas_limit = tk_gas_limit tk,
            tx_gas_price = 0\<rparr> (tk_db tk) = (Some (ExecSuccess g logs (OutCreate code (Some a))), db, events)
         \<and> db_accounts db a = Some info \<and> ac_code info = Some code))"

text \<open>C34 \<open>deploy_runtime\<close> deploys: if the EVM carries out the creation with the deployer's initcode as its
  byte machine runs that initcode, then for every runtime code that may be stored the call returns a
  successful outcome with the runtime code as its output and the created address, with a trace exactly
  when tracing is on, and \<open>Testkit::code\<close> of that address is then the runtime code; fork, caller, gas
  limit and tracing are as before.\<close>

theorem deploy_runtime_deploys:
  assumes "length runtime \<le> 24576" "runtime \<noteq> [] \<longrightarrow> hd runtime \<noteq> 0xef"
    and "\<And>initcode. deployer runtime (tk_fork tk) = Some (Ok initcode) \<Longrightarrow> creates exec tk a initcode"
  shows "\<exists>oc tk'. deploy_runtime exec tk runtime = Some (Some oc, tk')
    \<and> is_success oc \<and> oc_output oc = runtime \<and> created_address oc = Some a
    \<and> (oc_trace oc \<noteq> None \<longleftrightarrow> tk_tracing tk) \<and> tk_code dflt tk' a = runtime
    \<and> tk_fork tk' = tk_fork tk \<and> tk_caller tk' = tk_caller tk \<and> tk_gas_limit tk' = tk_gas_limit tk
    \<and> tk_tracing tk' = tk_tracing tk"
proof -
  obtain p where p: "deployer runtime (tk_fork tk) = Some (Ok (p @ runtime))" "length p \<le> 18"
      "run_initcode (tk_fork tk) 7 (\<lambda>_. 0) (p @ runtime) = Some runtime"
    using deployer_runs [of runtime "tk_fork tk" "\<lambda>_. 0"] assms(1) by auto
  moreover have "length (p @ runtime) \<le> 49152" using p(2) assms(1) by simp
  ultimately obtain g logs db events info where
    "exec (fork_spec_id (tk_fork tk))
       \<lparr>tx_caller = tk_caller tk, tx_kind = TxCreate, tx_data = p @ runtime, tx_gas_limit = tk_gas_limit tk,
        tx_gas_price = 0\<rparr> (tk_db tk) = (Some (ExecSuccess g logs (OutCreate runtime (Some a))), db, events)"
    "db_accounts db a = Some info" "ac_code info = Some runtime"
    using assms(1,2) assms(3) [OF p(1)] unfolding creates_def by blast
  then show ?thesis
    by (simp add: deploy_runtime_def p(1) tk_deploy_def tx_of_def transact_def outcome_new_def is_success_def
        created_address_def tk_code_def tk_account_def)
qed

text \<open>An executor that runs initcode on the byte machine of its fork and stores what it returns.\<close>

definition sample_account :: account_info where
  "sample_account = \<lparr>ac_balance = 0, ac_nonce = 0, ac_code_hash = 0, ac_code = None\<rparr>"

definition sample_exec :: "(unit, unit) executor" where
  "sample_exec sp tx db =
     (case run_initcode Cancun 7 (\<lambda>_. 0) (tx_data tx) of
        Some code \<Rightarrow> (Some (ExecSuccess 21000 [] (OutCreate code (Some 7))),
          insert_account_info db 7 (sample_account\<lparr>ac_code := Some code\<rparr>), [])
      | None \<Rightarrow> (Some (ExecRevert 21000 [] []), db, []))"

theorem deploy_runtime_deploys_witness:
  "\<exists>oc tk'. deploy_runtime sample_exec (testkit_new sample_account Cancun) [0x5b] = Some (Some oc, tk')
     \<and> created_address oc = Some 7 \<and> tk_code sample_account tk' 7 = [0x5b]"
proof -
  let ?tk = "testkit_new sample_account Cancun"
  have f: "tk_fork ?tk = Cancun" by (simp add: testkit_new_def set_balance_def update_account_def Let_def)
  have "creates sample_exec ?tk 7 initcode" for initcode
    by (simp add: creates_def sample_exec_def f insert_account_info_def)
  then show ?thesis
    using deploy_runtime_deploys [of "[0x5b]" ?tk sample_exec 7 sample_account] by auto
qed

end
