(* ===== verification/Backend.thy ===== *)
theory Backend
  imports Prelude
begin

text \<open>
  \<open>rustc_codegen_evm/src/backend.rs\<close> and \<open>lib.rs\<close>: the rustc backend, at this commit a pipeline that carries the
  codegen units through with empty bytecode. What it takes from rustc is a
  parameter: the names of the units and \<open>temp_path_for_cgu\<close>. The file system is an explicit state, so that
  the files written before a failure are part of the result.
\<close>

subsection \<open>Data\<close>

record evm_module =
  em_name :: string
  em_bytecode :: "byte list"

text \<open>A \<open>Box<dyn Any>\<close>: an \<open>OngoingCodegen\<close>, which is its list of modules, or a value of another type.\<close>

datatype boxed_any = OngoingCodegen "evm_module list" | OtherBox

datatype module_kind = Regular

record 'p compiled_module =
  cm_name :: string
  cm_kind :: module_kind
  cm_object :: "'p option"
  cm_global_asm_object :: "'p option"
  cm_dwarf_object :: "'p option"
  cm_bytecode :: "'p option"
  cm_assembly :: "'p option"
  cm_llvm_ir :: "'p option"
  cm_links_from_incr_cache :: "string list"

record 'p compiled_modules =
  cms_modules :: "'p compiled_module list"
  cms_allocator_module :: "'p compiled_module option"

text \<open>\<open>join_codegen\<close> returns, ends the compilation with a fatal diagnostic, or panics.\<close>

datatype 'a outcome_of = Returns 'a | Fatal string | Panics

text \<open>The files, and the error of every path that cannot be written. \<open>std::fs::write\<close> replaces the content
  of its path or fails.\<close>

record 'p file_system =
  fs_files :: "'p \<rightharpoonup> byte list"
  fs_refuses :: "'p \<rightharpoonup> string"

definition fs_write :: "'p \<Rightarrow> byte list \<Rightarrow> 'p file_system \<Rightarrow> (string + unit) \<times> 'p file_system" where
  "fs_write p b fs =
     (case fs_refuses fs p of
        Some e \<Rightarrow> (Inl e, fs)
      | None \<Rightarrow> (Inr (), fs\<lparr>fs_files := (fs_files fs)(p \<mapsto> b)\<rparr>))"

subsection \<open>Operations\<close>

datatype evm_codegen_backend = EvmCodegenBackend

definition backend_new :: evm_codegen_backend where "backend_new = EvmCodegenBackend"

text \<open>The entry point rustc calls: the line it prints, and the backend.\<close>

definition rustc_codegen_backend :: "string \<times> evm_codegen_backend" where
  "rustc_codegen_backend = (''Starting EVM codegen backend'', backend_new)"

definition backend_name :: string where "backend_name = ''evm''"

definition backend_target_cpu :: "string option \<Rightarrow> string" where
  "backend_target_cpu cpu = (case cpu of Some c \<Rightarrow> c | None \<Rightarrow> ''generic'')"

definition codegen_crate :: "string list \<Rightarrow> boxed_any" where
  "codegen_crate cgus = OngoingCodegen (map (\<lambda>n. \<lparr>em_name = n, em_bytecode = []\<rparr>) cgus)"

definition object_module :: "string \<Rightarrow> 'p \<Rightarrow> 'p compiled_module" where
  "object_module name path =
     \<lparr>cm_name = name, cm_kind = Regular, cm_object = Some path, cm_global_asm_object = None,
      cm_dwarf_object = None, cm_bytecode = None, cm_assembly = None, cm_llvm_ir = None,
      cm_links_from_incr_cache = []\<rparr>"

fun join_loop ::
  "(string \<Rightarrow> 'p) \<Rightarrow> ('p \<Rightarrow> string) \<Rightarrow> evm_module list \<Rightarrow> 'p file_system \<Rightarrow>
     'p compiled_module list outcome_of \<times> 'p file_system" where
  "join_loop temp_path show_path [] fs = (Returns [], fs)"
| "join_loop temp_path show_path (m # ms) fs =
     (let path = temp_path (em_name m) in
      case fs_write path (em_bytecode m) fs of
        (Inl err, fs) \<Rightarrow> (Fatal (''failed to write '' @ show_path path @ '': '' @ err), fs)
      | (Inr _, fs) \<Rightarrow>
          (case join_loop temp_path show_path ms fs of
             (Returns cs, fs) \<Rightarrow> (Returns (object_module (em_name m) path # cs), fs)
           | (r, fs) \<Rightarrow> (r, fs)))"

definition join_codegen ::
  "(string \<Rightarrow> 'p) \<Rightarrow> ('p \<Rightarrow> string) \<Rightarrow> boxed_any \<Rightarrow> 'p file_system \<Rightarrow>
     'p compiled_modules outcome_of \<times> 'p file_system" where
  "join_codegen temp_path show_path ongoing fs =
     (case ongoing of
        OtherBox \<Rightarrow> (Panics, fs)
      | OngoingCodegen modules \<Rightarrow>
          (case join_loop temp_path show_path modules fs of
             (Returns cs, fs) \<Rightarrow> (Returns \<lparr>cms_modules = cs, cms_allocator_module = None\<rparr>, fs)
           | (Fatal e, fs) \<Rightarrow> (Fatal e, fs)
           | (Panics, fs) \<Rightarrow> (Panics, fs)))"

subsection \<open>What a compilation leaves\<close>

text \<open>The file system with empty files at the paths of the given units.\<close>

definition with_objects :: "(string \<Rightarrow> 'p) \<Rightarrow> string list \<Rightarrow> 'p file_system \<Rightarrow> 'p file_system" where
  "with_objects temp_path ns fs =
     fs\<lparr>fs_files := (\<lambda>p. if p \<in> temp_path ` set ns then Some [] else fs_files fs p)\<rparr>"

definition writable_unit :: "(string \<Rightarrow> 'p) \<Rightarrow> 'p file_system \<Rightarrow> string \<Rightarrow> bool" where
  "writable_unit temp_path fs n \<longleftrightarrow> fs_refuses fs (temp_path n) = None"

lemma with_objects_simps [simp]:
  "with_objects temp_path [] fs = fs"
  "with_objects temp_path ns (fs\<lparr>fs_files := (fs_files fs)(temp_path n \<mapsto> [])\<rparr>) =
     with_objects temp_path (n # ns) fs"
  by (auto simp: with_objects_def fun_eq_iff)

lemma join_loop_units:
  "join_loop temp_path show_path (map (\<lambda>n. \<lparr>em_name = n, em_bytecode = []\<rparr>) cgus) fs =
     (case List.find (\<lambda>n. \<not> writable_unit temp_path fs n) cgus of
        None \<Rightarrow> (Returns (map (\<lambda>n. object_module n (temp_path n)) cgus), with_objects temp_path cgus fs)
      | Some n \<Rightarrow>
          (Fatal (''failed to write '' @ show_path (temp_path n) @ '': '' @ the (fs_refuses fs (temp_path n))),
           with_objects temp_path (takeWhile (writable_unit temp_path fs) cgus) fs))"
proof (induction cgus arbitrary: fs)
  case (Cons n cgus)
  show ?case
  proof (cases "fs_refuses fs (temp_path n)")
    case None
    let ?fs = "fs\<lparr>fs_files := (fs_files fs)(temp_path n \<mapsto> [])\<rparr>"
    have "writable_unit temp_path ?fs = writable_unit temp_path fs"
      by (simp add: writable_unit_def fun_eq_iff)
    moreover have "writable_unit temp_path fs n" using None by (simp add: writable_unit_def)
    ultimately show ?thesis
      using None Cons.IH [of ?fs] by (simp add: fs_write_def Let_def split: option.split)
  qed (simp add: fs_write_def Let_def writable_unit_def)
qed simp

text \<open>C33 The backend on the units of a crate: if every object path can be written, \<open>join_codegen\<close> returns
  one module for each unit, in order, named after it, whose object is its path, and every such file is
  empty; otherwise the compilation ends in the fatal error of the first unit that could not be written,
  with the objects of the units before it on disk and nothing else changed. A box that
  \<open>codegen_crate\<close> did not produce is a panic, and only such a box.\<close>

theorem backend_compiles_units:
  "join_codegen temp_path show_path (codegen_crate cgus) fs =
     (case List.find (\<lambda>n. \<not> writable_unit temp_path fs n) cgus of
        None \<Rightarrow>
          (Returns \<lparr>cms_modules = map (\<lambda>n. object_module n (temp_path n)) cgus,
             cms_allocator_module = None\<rparr>, with_objects temp_path cgus fs)
      | Some n \<Rightarrow>
          (Fatal (''failed to write '' @ show_path (temp_path n) @ '': '' @ the (fs_refuses fs (temp_path n))),
           with_objects temp_path (takeWhile (writable_unit temp_path fs) cgus) fs))
   \<and> (fst (join_codegen temp_path show_path box fs) = Panics \<longleftrightarrow> box = OtherBox)"
proof -
  have "fst (join_loop temp_path show_path ms fs) \<noteq> Panics" for ms and fs :: "'a file_system"
  proof (induction ms arbitrary: fs)
    case (Cons m ms)
    then show ?case
      by (auto simp: Let_def split: prod.splits sum.splits outcome_of.splits) (metis fst_conv)
  qed simp
  then have "fst (join_codegen temp_path show_path box fs) = Panics \<longleftrightarrow> box = OtherBox"
    by (cases box) (auto simp: join_codegen_def split: prod.splits outcome_of.splits, metis fst_conv)
  then show ?thesis
    by (simp add: join_codegen_def codegen_crate_def join_loop_units split: option.split)
qed

end
