(* ===== verification/Spec2Isabelle.thy ===== *)
theory Spec2Isabelle
  imports Link Ir_Program Ir_Removal Evm_Sys Abi_Spec First_Contract Macro_Entry Harness Backend
begin

text \<open>
  A verification development for rustevm, a toolchain that compiles Rust contracts to EVM bytecode.

  \<^bold>\<open>The program\<close>

  \<open>evm-isa\<close> holds the instruction table every other part reads. \<open>evm-codegen\<close> has the assembler
  (builder calls to bytes, labels, back-patching), the disassembler, and the intermediate
  representation: integer types with a canonical 256-bit representation, the repairs that restore it
  after an operation, effects, functions in three arenas, the function builder and modules.
  \<open>std-evm-abi\<close> encodes and decodes call data. \<open>std-evm\<close> and \<open>std-evm-macros\<close> are what a contract
  is written with: the \<open>#[contract]\<close> macro generates a dispatcher, \<open>#[storage]\<close> and \<open>#[transient]\<close>
  generate accessors over typed slots. \<open>evm-sys\<close> declares one binding per opcode. \<open>evm-testkit\<close> runs
  bytecode on an executor, wraps runtime code in initcode, records traces and reads outcomes.
  \<open>rustc_codegen_evm\<close> is the compiler backend, so far a pipeline without code generation.

  \<^bold>\<open>The theories\<close>

  \<^item> \<open>Prelude\<close>: results of Rust functions (\<open>Ok\<close>, \<open>Err\<close>, \<open>Panic\<close>), big-endian byte strings, slices.
  \<^item> \<open>Isa\<close> (\<open>evm-isa/src/\<close>): the table row by row, forms, predicates, lookups by byte and mnemonic.
  \<^item> \<open>Immediate\<close>, \<open>Asm\<close>, \<open>Asm_Correct\<close> (\<open>evm-codegen/src/asm.rs\<close>): push operands, the sticky-error
    builder, \<open>finish\<close> with its fixups; the refinement of a two-pass reference assembler.
  \<^item> \<open>Asm_Exec\<close>: the execution of assembled bytes, related step by step to that of the request.
  \<^item> \<open>Disasm\<close> (\<open>asm/disasm.rs\<close>): the instruction iterator, jump destinations, the listing; theory of
    instruction boundaries.
  \<^item> \<open>Ir_Types\<close>, \<open>Effects\<close>, \<open>Ir_Inst\<close>, \<open>Ir_Func\<close>, \<open>Ir_Builder\<close>, \<open>Ir_Module\<close> (\<open>evm-codegen/src/ir/\<close>):
    types and repairs with their arithmetic meaning, the effect bitset, entities and operations, the
    arenas, the builder as a state machine over its public methods, modules and \<open>verify\<close>.
  \<^item> \<open>Ir_Exec\<close>, \<open>Ir_Program\<close>: the execution of a finished function, and of a module with its internal calls,
    on words and on integers, and the refinement between the two.
  \<^item> \<open>Ir_Removal\<close>: the rule of \<open>effect.rs\<close> for removing instructions, proved over these executions.
  \<^item> \<open>Abi_Codec\<close>, \<open>Abi_Args\<close> (\<open>std-evm-abi/src/word.rs\<close>, \<open>codec.rs\<close>, \<open>revert.rs\<close>,
    \<open>std-evm/src/address.rs\<close>, \<open>method.rs\<close>, \<open>guard.rs\<close>): head/tail encoding, decoding, argument lists,
    decode-call-encode. \<open>Abi_Spec\<close>: the ABI's own definition of the encoding, over integers.
  \<^item> \<open>Macro_Signature\<close>, \<open>Macro_Contract\<close>, \<open>Macro_Layout\<close> (\<open>std-evm-abi/src/types.rs\<close>, \<open>selector.rs\<close>,
    \<open>std-evm-macros/src/\<close>): names and signatures, attribute checks, the expansion of a contract and
    of a layout as data, and the meaning of the generated dispatcher, constructor and accessors.
  \<^item> \<open>Macro_Call\<close> (\<open>contract.rs\<close>, \<open>std-evm/src/storage/handle.rs\<close>): the generated call of a method, its
    handle closures and bindings as a syntax tree with an evaluation.
  \<^item> \<open>Macro_Entry\<close> (\<open>std-evm-macros/src/lib.rs\<close>): the attribute macros over parsed items, the text of
    their errors and which error is reported.
  \<^item> \<open>Storage\<close> (\<open>std-evm/src/storage/\<close>): typed values, slots, mappings, guards, the reentrancy lock.
  \<^item> \<open>First_Contract\<close> (\<open>examples/my-first-contract\<close>): a whole contract over the generated dispatcher,
    constructor and accessors.
  \<^item> \<open>Evm_Sys\<close> (\<open>evm-sys/src/opcode/\<close>): the bindings as rows.
  \<^item> \<open>Link\<close>, \<open>Trace\<close>, \<open>Outcome\<close>, \<open>Harness\<close> (\<open>evm-testkit/src/\<close>): the deployment prologue, the trace
    recorder, outcomes and revert reasons, the testkit.
  \<^item> \<open>Backend\<close> (\<open>rustc_codegen_evm/src/\<close>): the codegen backend over unit names and a file system.

  A struct is a record, an enum a datatype, a method a function from the state to the new state. A
  method that returns \<open>Result\<close> and may panic has type \<open>('e, 'a) rust\<close>; one that may only panic
  returns an option. The interfaces between components are locales: \<open>entity\<close> (index handles into the
  arenas), \<open>abi_codec\<close> (what an encodable and decodable type promises) and \<open>typed_cell\<close> (what a
  storable type promises), each interpreted for every type of the code that implements it.

  \<^bold>\<open>What is shown\<close>

  The assembler computes what a two-pass reference computes, its jumps hit valid destinations of the
  finished code, its first error wins, and disassembly gives back the request; executing the bytes is
  executing the request, whatever the instructions mean. Disassembly is the only account of the bytes
  with the EVM's immediates, and finds the jump destinations of the Yellow Paper. Conversions and operations of
  the intermediate representation get the repairs that make every value well formed and equal to the
  wrapped integer result (with \<open>Shr\<close> and the modular operations reading 256-bit words), and no conversion one
  that is needless. A function the builder returns is in SSA form with every repair in place, raw opcodes
  excepted, terminated blocks are frozen, the builder makes progress; declarations of modules are for good, and
  bodies keep agreeing with them as long as changes through \<open>get_mut\<close> keep signatures; a verified module that
  also passes the type checks the builder leaves out, executed on words with the repairs its functions carry,
  does step by step what typed integer arithmetic does. An instruction classified as removable can be removed.
  The deployment loop ends, the byte machine, running its initcode, returns the runtime code, and
  \<open>deploy_runtime\<close> leaves that code at the created address. The encoder produces what the ABI specifies, arguments survive encoding and decoding,
  decoding any bytes never panics, and a
  contract called through the generated dispatcher runs the method of the selector on the encoded
  arguments. The dispatcher is compared with the routing the macros document: it differs exactly on a call with
  Ether and no calldata after the selector in a contract with a receive method, which takes that call from
  the method the selector names. A signature is the canonical one, but for \<open>Vec<u8>\<close> and \<open>String\<close>. The
  generated call gives each parameter the handle or argument its type asks for, as long as handles are
  taken by reference.
  The example contract, from its deployment on, answers every sequence of calls as an
  abstract ledger does and its storage represents that ledger; a withdrawal leaves no transient mark.
  Storage accessors do not interfere, the reentrancy lock is exclusive.
  The contract macro reports the first error of a block and otherwise expands it. Traces charge frame
  openers by their own frame, revert reasons agree with the contract-side codec. The backend leaves one
  empty object for each unit or the fatal error of the first file it cannot write.

  \<^bold>\<open>Bounds and parameters\<close>

  A \<open>usize\<close> of the codec and the outcome is a natural number below \<open>256 ^ us\<close>, with the number of
  bytes \<open>us\<close> a parameter (4 on the EVM target, 8 on a host); lengths and code offsets of the assembler
  are naturals with the 16-bit limit of a label written out. \<open>deploy_loop\<close> is a partial function
  proved to return. No other definition needs fuel: loops are structural or have a measure.
  Keccak-256 is a parameter; where slots of mappings must differ, the hypothesis \<open>no_collision\<close> says
  that the hash keeps the strings involved apart and off the small slot numbers. Running a
  transaction (\<open>revm\<close>) is the parameter \<open>exec\<close>, resolving a type name the parameter \<open>resolve\<close>, a
  contract's own code the parameter \<open>body\<close>. The syntax trees of \<open>syn\<close> appear as the data the macros
  read; token streams as the data they stand for, their parsing as the parameter \<open>parse\<close>. The meaning of
  an instruction is the parameter \<open>sem\<close> of \<open>Asm_Exec\<close>. In \<open>Ir_Exec\<close> memory, storage, raw opcodes and calls
  are the parameter \<open>ext\<close>; \<open>well_typed\<close> and, with calls and returns, \<open>typed_module\<close> are the checks the builder
  leaves to a verifier that is not in the repository: types of operands and edges, constants that fit their
  type, raw opcodes at full-word types; \<open>frames_ok\<close> says that what \<open>alloca\<close> gets is an address. In
  \<open>Ir_Removal\<close> the hypothesis \<open>stack_world\<close> says that the EVM's stack opcodes, listed by byte, leave the world
  alone. The raw operations of \<open>Ir_Inst\<close> (\<open>raw_op\<close>), the instructions of an initcode in \<open>Link\<close> and the
  hypothesis \<open>creates\<close> of \<open>Harness\<close> are statements about the EVM, not translations of code. Identifiers and mnemonics are ASCII strings, other
  strings their UTF-8 bytes.

  \<^bold>\<open>Not modelled\<close>

  rustc's query system, parsing by \<open>syn\<close>, \<open>revm\<close> and the Keccak implementation are other crates. The
  bodies of the \<open>evm-sys\<close> bindings are unreachable markers, and the marker traits of \<open>handle.rs\<close> have no
  behaviour: their guarantees are type checking. Spans of diagnostics are not represented.
\<close>

end
